(* ===== verification/MfsPrelude.thy ===== *)
theory MfsPrelude
  imports Main "HOL-Library.Word" "HOL-Library.Monad_Syntax"
begin

text \<open>
  Shared vocabulary of the development: the C character set and strings, decimal printing and
  parsing as \<open>printf("%d")\<close> and \<open>atoi\<close> do it, the status codes the library
  returns, and the list lemmas that several components use.
\<close>

named_theorems mfs_simps \<open>equations that unfold the plumbing of the model\<close>
named_theorems mfs_inv \<open>invariant preservation\<close>

section \<open>Status codes\<close>

text \<open>
  \<open>apr_status_t\<close> is an \<open>int\<close>. The constants the library names are constructors; every other
  value (an operating-system error, or the truth value 1 that a misplaced parenthesis stores in a
  status) is \<open>APR_OTHER\<close> of the number.
\<close>

datatype apr_status =
    APR_SUCCESS
  | APR_ECONNREFUSED
  | APR_EGENERAL
  | APR_EOF
  | APR_EFTYPE
  | APR_ENOMEM
  | APR_EBADPATH
  | APR_ENOTEMPTY
  | APR_ENOSTAT
  | APR_TIMEUP
  | APR_OTHER int

section \<open>Characters and C strings\<close>

abbreviation NUL :: char where "NUL \<equiv> CHR 0x00"
abbreviation LF :: char where "LF \<equiv> CHR 0x0A"
abbreviation CR :: char where "CR \<equiv> CHR 0x0D"

text \<open>The C string that starts at a memory block: the bytes before the first NUL.\<close>

definition c_str :: "string \<Rightarrow> string" where
  "c_str m = takeWhile (\<lambda>c. c \<noteq> NUL) m"

lemma c_str_no_NUL: "NUL \<notin> set s \<Longrightarrow> c_str s = s"
  by (auto simp: c_str_def takeWhile_eq_all_conv)

lemma c_str_append_NUL: "NUL \<notin> set s \<Longrightarrow> c_str (s @ NUL # t) = s"
  by (auto simp: c_str_def takeWhile_append takeWhile_eq_all_conv)

lemma NUL_notin_c_str: "NUL \<notin> set (c_str m)"
  by (auto simp: c_str_def dest: set_takeWhileD)

text \<open>The classification functions of \<open>ctype.h\<close> in the C locale.\<close>

definition isdigit :: "char \<Rightarrow> bool" where
  "isdigit c \<longleftrightarrow> 48 \<le> (of_char c :: nat) \<and> (of_char c :: nat) \<le> 57"

definition isalpha :: "char \<Rightarrow> bool" where
  "isalpha c \<longleftrightarrow> 65 \<le> (of_char c :: nat) \<and> (of_char c :: nat) \<le> 90
     \<or> 97 \<le> (of_char c :: nat) \<and> (of_char c :: nat) \<le> 122"

definition isalnum :: "char \<Rightarrow> bool" where
  "isalnum c \<longleftrightarrow> isdigit c \<or> isalpha c"

definition isspace :: "char \<Rightarrow> bool" where
  "isspace c \<longleftrightarrow> (of_char c :: nat) = 32 \<or> 9 \<le> (of_char c :: nat) \<and> (of_char c :: nat) \<le> 13"

text \<open>A \<open>char\<close> as the byte it is; arithmetic on \<open>char\<close> is arithmetic on bytes.\<close>

type_synonym byte = "8 word"

definition byte_of :: "char \<Rightarrow> byte" where
  "byte_of c = of_nat (of_char c)"

definition char_of_byte :: "byte \<Rightarrow> char" where
  "char_of_byte b = char_of (unat b)"

lemma of_char_less_256: "(of_char c :: nat) < 256"
  by (cases c) (simp add: of_char_def)

lemma unat_byte_of [simp]: "unat (byte_of c) = of_char c"
  by (simp add: byte_of_def unat_of_nat of_char_less_256)

lemma char_of_byte_of [simp]: "char_of_byte (byte_of c) = c"
  by (simp add: char_of_byte_def)

section \<open>The C type \<open>int\<close>\<close>

text \<open>
  An \<open>int\<close> is a 32-bit word read with its sign. Additions wrap around, which is what the
  compilers the library is built with do; the C standard leaves an overflow undefined, and no
  theorem below rests on one. Passing an \<open>int\<close> where \<open>apr_size_t\<close> is expected extends
  the sign to 64 bits and reads the result as a natural number.
\<close>

type_synonym cint = "32 word"

definition INT_MAX :: nat where "INT_MAX = 2147483647"

definition size_of_int :: "cint \<Rightarrow> nat" where
  "size_of_int i = unat (scast i :: 64 word)"

lemma sint_of_nat: "n \<le> INT_MAX \<Longrightarrow> sint (of_nat n :: cint) = int n"
  by (simp add: INT_MAX_def sint_word_ariths signed_of_nat signed_take_bit_int_eq_self)

lemma size_of_int_of_nat: "n \<le> INT_MAX \<Longrightarrow> size_of_int (of_nat n) = n"
proof -
  assume n: "n \<le> INT_MAX"
  have "scast (of_nat n :: cint) = (of_nat n :: 64 word)"
    using sint_of_nat [OF n] by (simp only: scast_eq) simp
  then show ?thesis using n by (simp add: size_of_int_def unat_of_nat INT_MAX_def)
qed

section \<open>Decimal numbers\<close>

text \<open>What the format \<open>%d\<close> prints, and \<open>apr_itoa\<close> and \<open>apr_ltoa\<close> return.\<close>

definition digit_char :: "nat \<Rightarrow> char" where
  "digit_char d = char_of (48 + d)"

fun show_nat :: "nat \<Rightarrow> string" where
  "show_nat n = (if n < 10 then [digit_char n] else show_nat (n div 10) @ [digit_char (n mod 10)])"

declare show_nat.simps [simp del]

definition show_int :: "int \<Rightarrow> string" where
  "show_int i = (if i < 0 then CHR ''-'' # show_nat (nat (- i)) else show_nat (nat i))"

text \<open>
  \<open>atoi\<close>: white space, an optional sign, digits; it stops at the first character that is none.
\<close>

fun digits_value :: "nat \<Rightarrow> string \<Rightarrow> nat" where
  "digits_value acc [] = acc"
| "digits_value acc (c # s) =
     (if isdigit c then digits_value (10 * acc + (of_char c - 48)) s else acc)"

definition atoi :: "string \<Rightarrow> int" where
  "atoi s =
     (case dropWhile isspace s of
        [] \<Rightarrow> 0
      | c # t \<Rightarrow>
          if c = CHR ''-'' then - int (digits_value 0 t)
          else if c = CHR ''+'' then int (digits_value 0 t)
          else int (digits_value 0 (c # t)))"

lemma of_char_digit_char [simp]: "d < 10 \<Longrightarrow> of_char (digit_char d) = 48 + d"
  by (simp add: digit_char_def)

lemma isdigit_digit_char [simp]: "d < 10 \<Longrightarrow> isdigit (digit_char d)"
  by (simp add: isdigit_def)

lemma show_nat_nonempty [simp]: "show_nat n \<noteq> []"
  by (subst show_nat.simps) simp

lemma show_nat_digits: "c \<in> set (show_nat n) \<Longrightarrow> isdigit c"
proof (induction n rule: show_nat.induct)
  case (1 n)
  show ?case
  proof (cases "n < 10")
    case True
    with 1 show ?thesis by (simp add: show_nat.simps [of n])
  next
    case False
    with 1 show ?thesis by (auto simp: show_nat.simps [of n])
  qed
qed

lemma digits_value_append:
  "\<forall>c \<in> set s. isdigit c \<Longrightarrow> digits_value acc (s @ t) = digits_value (digits_value acc s) t"
  by (induction s arbitrary: acc) auto

lemma digits_value_show_nat: "digits_value 0 (show_nat n) = n"
proof (induction n rule: show_nat.induct)
  case (1 n)
  show ?case
  proof (cases "n < 10")
    case True
    then show ?thesis by (simp add: show_nat.simps [of n])
  next
    case False
    then have "digits_value 0 (show_nat n) = digits_value (n div 10) [digit_char (n mod 10)]"
      using 1 show_nat_digits by (simp add: show_nat.simps [of n] digits_value_append)
    then show ?thesis by simp
  qed
qed

lemma atoi_show_nat [simp]: "atoi (show_nat n) = int n"
proof -
  obtain c t where s: "show_nat n = c # t"
    by (cases "show_nat n") auto
  then have d: "isdigit c" using show_nat_digits [of c n] by simp
  then have "\<not> isspace c" and "c \<noteq> CHR ''-''" and "c \<noteq> CHR ''+''"
    by (auto simp: isdigit_def isspace_def)
  then have "atoi (show_nat n) = int (digits_value 0 (show_nat n))"
    by (simp add: atoi_def s)
  then show ?thesis by (simp only: digits_value_show_nat)
qed

section \<open>Lists\<close>

lemma take_butlast_remove1:
  "x \<in> set xs \<Longrightarrow> length (remove1 x xs) = length xs - 1"
  by (rule length_remove1 [THEN trans]) simp

lemma set_remove1_distinct: "distinct xs \<Longrightarrow> set (remove1 x xs) = set xs - {x}"
  by (rule set_remove1_eq)

end
