(* ===== verification/UrlCodec.thy ===== *)
theory UrlCodec
  imports MfsPrelude
begin

text \<open>
  The URL encoding of tracker keys and values: \<open>from_hex\<close>, \<open>to_hex\<close>,
  \<open>mfs_tracker_url_encode\<close> and \<open>mfs_tracker_url_decode\<close> of \<open>src/src/tracker.c\<close>.
  The hexadecimal arithmetic is done on 8-bit words, as the C code does it on \<open>char\<close>.
  The locale \<open>text_codec\<close> is what the request builder and the response parser rely on.
\<close>

section \<open>The code\<close>

text \<open>
  \<open>isdigit(ch) ? ch - '0' : tolower(ch) - 'a' + 10\<close>, stored in a \<open>char\<close>.
\<close>

definition tolower :: "byte \<Rightarrow> byte" where
  "tolower b = (if 65 \<le> b \<and> b \<le> 90 then b + 32 else b)"

definition from_hex :: "char \<Rightarrow> byte" where
  "from_hex ch = (if isdigit ch then byte_of ch - 48 else tolower (byte_of ch) - 97 + 10)"

definition hex :: string where
  "hex = ''0123456789abcdef''"

definition to_hex :: "byte \<Rightarrow> char" where
  "to_hex code = hex ! unat (and code 15)"

text \<open>The characters that are copied unchanged.\<close>

definition unreserved :: "char \<Rightarrow> bool" where
  "unreserved c \<longleftrightarrow> isalnum c \<or> c = CHR ''-'' \<or> c = CHR ''_'' \<or> c = CHR ''.'' \<or> c = CHR ''~''"

text \<open>
  The encoder's loop over the C string \<open>raw\<close>: \<open>buf\<close> holds the bytes written so far, \<open>l\<close>
  counts them in an \<open>int\<close>. \<open>*pstr >> 4\<close> shifts a signed \<open>char\<close>, so it copies the sign bit.
\<close>

fun url_encode_loop :: "string \<Rightarrow> string \<Rightarrow> cint \<Rightarrow> string \<times> cint" where
  "url_encode_loop [] buf l = (buf, l)"
| "url_encode_loop (c # pstr) buf l =
     (if unreserved c then url_encode_loop pstr (buf @ [c]) (l + 1)
      else if c = CHR '' '' then url_encode_loop pstr (buf @ [CHR ''+'']) (l + 1)
      else url_encode_loop pstr
             (buf @ [CHR ''%'', to_hex (signed_drop_bit 4 (byte_of c)), to_hex (and (byte_of c) 15)])
             (l + 3))"

definition mfs_tracker_url_encode :: "string \<Rightarrow> string \<times> cint" where
  "mfs_tracker_url_encode raw = url_encode_loop raw [] 0"

text \<open>
  The decoder's loop over the C string \<open>encoded\<close>. A \<open>%\<close> with fewer than two characters
  after it writes nothing and moves on by one character.
\<close>

fun url_decode_loop :: "string \<Rightarrow> string \<Rightarrow> string" where
  "url_decode_loop [] buf = buf"
| "url_decode_loop (c # pstr) buf =
     (if c = CHR ''%'' then
        (case pstr of
           a # b # rest \<Rightarrow>
             url_decode_loop rest (buf @ [char_of_byte (or (push_bit 4 (from_hex a)) (from_hex b))])
         | _ \<Rightarrow> url_decode_loop pstr buf)
      else if c = CHR ''+'' then url_decode_loop pstr (buf @ [CHR '' ''])
      else url_decode_loop pstr (buf @ [c]))"

definition mfs_tracker_url_decode :: "string \<Rightarrow> string" where
  "mfs_tracker_url_decode encoded = url_decode_loop encoded []"

section \<open>Accumulators\<close>

definition enc_char :: "char \<Rightarrow> string" where
  "enc_char c =
     (if unreserved c then [c] else if c = CHR '' '' then [CHR ''+'']
      else [CHR ''%'', to_hex (signed_drop_bit 4 (byte_of c)), to_hex (and (byte_of c) 15)])"

abbreviation url_encode :: "string \<Rightarrow> string" where
  "url_encode s \<equiv> fst (mfs_tracker_url_encode s)"

lemma url_encode_loop_acc:
  "url_encode_loop s buf l = (buf @ concat (map enc_char s), l + of_nat (length (concat (map enc_char s))))"
  by (induction s buf l rule: url_encode_loop.induct) (simp_all add: enc_char_def)

lemma mfs_tracker_url_encode_eq:
  "mfs_tracker_url_encode s = (concat (map enc_char s), of_nat (length (concat (map enc_char s))))"
  by (simp add: mfs_tracker_url_encode_def url_encode_loop_acc)

lemma url_decode_loop_acc: "url_decode_loop s buf = buf @ url_decode_loop s []"
proof (induction "length s" arbitrary: s buf rule: less_induct)
  case less
  show ?case
  proof (cases s)
    case Nil
    then show ?thesis by simp
  next
    case (Cons c pstr)
    have IH: "url_decode_loop t b = b @ url_decode_loop t []" if "length t < length s" for t b
      using less that by blast
    have step: "url_decode_loop pstr b = b @ url_decode_loop pstr []" for b
      by (rule IH) (simp add: Cons)
    show ?thesis
    proof (cases pstr)
      case Nil
      then show ?thesis by (simp add: Cons)
    next
      case pstr: (Cons a r)
      show ?thesis
      proof (cases r)
        case Nil
        then show ?thesis
          using step [of buf] step [of "[CHR '' '']"] step [of "[c]"]
            step [of "buf @ [CHR '' '']"] step [of "buf @ [c]"]
          by (simp add: Cons pstr)
      next
        case r: (Cons b rest)
        have rest: "url_decode_loop rest x = x @ url_decode_loop rest []" for x
          by (rule IH) (simp add: Cons pstr r)
        show ?thesis
          using step [of "[CHR '' '']"] step [of "[c]"]
            step [of "buf @ [CHR '' '']"] step [of "buf @ [c]"]
            rest [of "buf @ [char_of_byte (or (push_bit 4 (from_hex a)) (from_hex b))]"]
            rest [of "[char_of_byte (or (push_bit 4 (from_hex a)) (from_hex b))]"]
          by (simp add: Cons pstr r del: url_decode_loop.simps(2))
             (simp add: Cons pstr r)
      qed
    qed
  qed
qed

section \<open>Hexadecimal digits\<close>

lemma from_hex_hex: "n < 16 \<Longrightarrow> from_hex (hex ! n) = (of_nat n :: byte)"
proof -
  have "list_all (\<lambda>n. from_hex (hex ! n) = (of_nat n :: byte)) [0..<16]"
    by code_simp
  then show "n < 16 \<Longrightarrow> ?thesis" by (simp add: list_all_iff)
qed

lemma nibble_less_16: "unat (and b 15 :: byte) < 16"
proof -
  have "unat (and b 15) \<le> unat (15 :: byte)"
    by (rule word_and_le1 [THEN word_le_nat_alt [THEN iffD1]])
  then show ?thesis by simp
qed

lemma from_hex_to_hex: "from_hex (to_hex b) = and b 15"
  using from_hex_hex [OF nibble_less_16, of b] by (simp add: to_hex_def)

lemma nibbles_of_byte:
  "or (push_bit 4 (and (signed_drop_bit 4 b) 15)) (and (and b 15) 15) = (b :: byte)"
proof (rule bit_word_eqI)
  have m: "(15 :: byte) = mask 4" by (simp add: mask_eq_exp_minus_1)
  fix n assume "n < LENGTH(8)"
  then show "bit (or (push_bit 4 (and (signed_drop_bit 4 b) 15)) (and (and b 15) 15)) n = bit b n"
    unfolding m by (auto simp: bit_simps)
qed

text \<open>The two digits the encoder writes for a byte decode to that byte.\<close>

lemma hex_digits_roundtrip:
  "char_of_byte (or (push_bit 4 (from_hex (to_hex (signed_drop_bit 4 (byte_of c)))))
     (from_hex (to_hex (and (byte_of c) 15)))) = c"
  by (simp only: from_hex_to_hex nibbles_of_byte char_of_byte_of)

section \<open>Round trip\<close>

lemma unreserved_not_special:
  assumes "unreserved c"
  shows "c \<noteq> CHR ''%''" "c \<noteq> CHR ''+''" "c \<noteq> CHR '' ''" "c \<noteq> CHR ''&''" "c \<noteq> CHR ''=''"
    "c \<noteq> NUL" "c \<noteq> CR" "c \<noteq> LF"
  using assms by (auto simp: unreserved_def isalnum_def isdigit_def isalpha_def)

lemma url_decode_enc_char:
  "url_decode_loop (enc_char c @ s) [] = c # url_decode_loop s []"
proof (cases "unreserved c")
  case True
  then show ?thesis
    using unreserved_not_special [OF True] url_decode_loop_acc [of s "[c]"]
    by (simp add: enc_char_def)
next
  case False
  then show ?thesis
    using url_decode_loop_acc [of s "[c]"] url_decode_loop_acc [of s "[CHR '' '']"]
    by (simp add: enc_char_def hex_digits_roundtrip)
qed

lemma url_decode_encode: "mfs_tracker_url_decode (url_encode s) = s"
  unfolding mfs_tracker_url_decode_def mfs_tracker_url_encode_eq fst_conv
  by (induction s) (simp_all add: url_decode_enc_char)

section \<open>The alphabet of encoded text\<close>

definition is_hex :: "char \<Rightarrow> bool" where
  "is_hex c \<longleftrightarrow> c \<in> set hex"

lemma to_hex_is_hex: "is_hex (to_hex b)"
proof -
  have "length hex = 16" by (simp add: hex_def)
  then show ?thesis
    unfolding is_hex_def to_hex_def by (intro nth_mem) (simp add: nibble_less_16)
qed

lemma is_hex_unreserved: "is_hex c \<Longrightarrow> unreserved c"
proof -
  have "list_all unreserved hex" by code_simp
  then show "is_hex c \<Longrightarrow> ?thesis" by (simp add: list_all_iff is_hex_def)
qed

lemma enc_char_alphabet:
  "x \<in> set (enc_char c) \<Longrightarrow> unreserved x \<or> x = CHR ''%'' \<or> x = CHR ''+''"
  by (auto simp: enc_char_def to_hex_is_hex is_hex_unreserved split: if_splits)

lemma url_encode_alphabet:
  "x \<in> set (url_encode s) \<Longrightarrow> unreserved x \<or> x = CHR ''%'' \<or> x = CHR ''+''"
  by (auto simp: mfs_tracker_url_encode_eq dest: enc_char_alphabet)

lemma url_encode_separator_free:
  "x \<in> set (url_encode s) \<Longrightarrow> x \<notin> {CHR ''&'', CHR ''='', CHR '' '', CR, LF, NUL}"
  using url_encode_alphabet [of x s] unreserved_not_special [of x] by auto

lemma length_enc_char: "length (enc_char c) \<le> 3"
  by (simp add: enc_char_def)

lemma url_encode_length_bound: "length (url_encode s) \<le> 3 * length s"
proof -
  have "length (concat (map enc_char s)) \<le> 3 * length s"
  proof (induction s)
    case (Cons c s)
    then show ?case using length_enc_char [of c] by simp
  qed simp
  then show ?thesis by (simp add: mfs_tracker_url_encode_eq)
qed

lemma url_decode_length_bound: "length (mfs_tracker_url_decode s) \<le> length s"
proof -
  have "length (url_decode_loop s buf) \<le> length buf + length s" for buf
    by (induction s buf rule: url_decode_loop.induct) (force split: list.splits)+
  from this [of "[]"] show ?thesis by (simp add: mfs_tracker_url_decode_def)
qed

section \<open>The codec as an interface\<close>

text \<open>
  What the request line and the response parser need of the encoding: it can be undone, and it
  never produces a character that separates fields or ends the line.
\<close>

locale text_codec =
  fixes enc :: "string \<Rightarrow> string"
    and dec :: "string \<Rightarrow> string"
    and reserved :: "char set"
  assumes dec_enc: "dec (enc s) = s"
    and enc_free: "x \<in> set (enc s) \<Longrightarrow> x \<notin> reserved"
begin

lemma enc_inj: "enc s = enc t \<longleftrightarrow> s = t"
  using dec_enc by metis

lemma enc_span:
  "c \<in> reserved \<Longrightarrow> takeWhile (\<lambda>x. x \<noteq> c) (enc s @ c # t) = enc s"
  using enc_free [of c s] by (auto simp: takeWhile_append takeWhile_eq_all_conv)

lemma enc_not_mem: "c \<in> reserved \<Longrightarrow> c \<notin> set (enc s)"
  using enc_free by blast

end

interpretation url: text_codec url_encode mfs_tracker_url_decode
    "{CHR ''&'', CHR ''='', CHR '' '', CR, LF, NUL}"
  by unfold_locales (rule url_decode_encode, rule url_encode_separator_free)

section \<open>Properties\<close>

text \<open>
  C8: decoding what \<open>mfs_tracker_url_encode\<close> wrote gives back the original text, for every
  byte string, and the encoding holds none of the characters \<open>&\<close>, \<open>=\<close>, space, CR, LF
  and NUL that separate the fields of a line or end it.
\<close>

theorem url_codec_roundtrip:
  "mfs_tracker_url_decode (fst (mfs_tracker_url_encode s)) = s
   \<and> set (fst (mfs_tracker_url_encode s)) \<inter> {CHR ''&'', CHR ''='', CHR '' '', CR, LF, NUL} = {}"
  using url.enc_free [of _ s] url.dec_enc [of s] by blast

text \<open>
  The length \<open>mfs_tracker_url_encode\<close> reports is the number of bytes it wrote, as an
  \<open>int\<close>, and with the terminator they fit the \<open>strlen(raw) * 3 + 1\<close> bytes it
  allocated.
\<close>

theorem url_encode_length_and_buffer:
  "snd (mfs_tracker_url_encode s) = of_nat (length (fst (mfs_tracker_url_encode s)))
   \<and> length (fst (mfs_tracker_url_encode s)) + 1 \<le> length s * 3 + 1"
  using url_encode_length_bound [of s] by (simp add: mfs_tracker_url_encode_eq mult.commute)

end
