(* ===== verification/Apr.thy ===== *)
theory Apr
  imports MfsPrelude
begin

text \<open>
  The calls the library makes into the Apache Portable Runtime and the C library that depend on
  the outside world: sockets, clocks, memory pools, locks, threads. None of that code is part of
  the repository, so it is a parameter: every definition that needs it takes a record of
  functions over an abstract world \<open>'w\<close>, one field per function, named as in C. A handle
  (socket, memory pool, address, lock, thread) is a number. What the library relies on is stated
  by the \<open>_law\<close> predicates below, each a documented behaviour of the function it is about;
  the scripted network at the end is one concrete world that satisfies them.
\<close>

type_synonym handle = nat

record 'w apr =
  apr_pool_create :: "'w \<Rightarrow> (apr_status \<times> handle) \<times> 'w"
  apr_pool_destroy :: "handle \<Rightarrow> 'w \<Rightarrow> 'w"
  apr_palloc :: "nat \<Rightarrow> 'w \<Rightarrow> string \<times> 'w"
  apr_palloc_ints :: "nat \<Rightarrow> 'w \<Rightarrow> nat list \<times> 'w"
  apr_sockaddr_info_get :: "string \<Rightarrow> int \<Rightarrow> 'w \<Rightarrow> (apr_status \<times> handle) \<times> 'w"
  apr_socket_create :: "'w \<Rightarrow> (apr_status \<times> handle) \<times> 'w"
  apr_socket_timeout_set :: "handle \<Rightarrow> int \<Rightarrow> 'w \<Rightarrow> 'w"
  apr_socket_connect :: "handle \<Rightarrow> handle \<Rightarrow> 'w \<Rightarrow> apr_status \<times> 'w"
  apr_socket_send :: "handle \<Rightarrow> string \<Rightarrow> 'w \<Rightarrow> apr_status \<times> 'w"
  apr_socket_recv :: "handle \<Rightarrow> nat \<Rightarrow> 'w \<Rightarrow> (apr_status \<times> string) \<times> 'w"
  apr_socket_close :: "handle \<Rightarrow> 'w \<Rightarrow> 'w"
  apr_thread_rwlock_create :: "'w \<Rightarrow> (apr_status \<times> handle) \<times> 'w"
  apr_thread_rwlock_rdlock :: "handle \<Rightarrow> 'w \<Rightarrow> apr_status \<times> 'w"
  apr_thread_rwlock_wrlock :: "handle \<Rightarrow> 'w \<Rightarrow> apr_status \<times> 'w"
  apr_thread_rwlock_unlock :: "handle \<Rightarrow> 'w \<Rightarrow> apr_status \<times> 'w"
  apr_thread_rwlock_destroy :: "handle \<Rightarrow> 'w \<Rightarrow> 'w"
  apr_thread_mutex_create :: "'w \<Rightarrow> (apr_status \<times> handle) \<times> 'w"
  apr_thread_mutex_lock :: "handle \<Rightarrow> 'w \<Rightarrow> apr_status \<times> 'w"
  apr_thread_mutex_unlock :: "handle \<Rightarrow> 'w \<Rightarrow> apr_status \<times> 'w"
  apr_thread_mutex_destroy :: "handle \<Rightarrow> 'w \<Rightarrow> 'w"
  apr_thread_cond_create :: "'w \<Rightarrow> handle \<times> 'w"
  apr_thread_cond_signal :: "handle \<Rightarrow> 'w \<Rightarrow> 'w"
  apr_thread_cond_timedwait :: "handle \<Rightarrow> handle \<Rightarrow> int \<Rightarrow> 'w \<Rightarrow> 'w"
  apr_thread_cond_destroy :: "handle \<Rightarrow> 'w \<Rightarrow> 'w"
  apr_thread_create :: "'w \<Rightarrow> (apr_status \<times> handle option) \<times> 'w"
  apr_thread_join :: "handle \<Rightarrow> 'w \<Rightarrow> 'w"
  apr_time_now :: "'w \<Rightarrow> int \<times> 'w"
  apr_sleep :: "int \<Rightarrow> 'w \<Rightarrow> 'w"
  c_srand :: "nat \<Rightarrow> 'w \<Rightarrow> 'w"
  c_rand :: "'w \<Rightarrow> nat \<times> 'w"
  c_mem_after :: nat
  apr_strtok :: "string \<Rightarrow> char \<Rightarrow> string list"
  apr_atoi64 :: "string \<Rightarrow> 64 word"

text \<open>
  \<open>apr_strtok\<close> is called in a loop until it returns NULL; the field gives the whole
  sequence of tokens those calls return. The number of bytes \<open>apr_socket_send\<close> reports is
  never read by the library, so only its status is kept. \<open>apr_socket_recv\<close> may return bytes
  together with an error status. \<open>apr_thread_create\<close> also gives the pointer it stores,
whatever its status. \<open>c_mem_after\<close> is what the memory after the end of an \<open>int\<close> array holds.
\<close>

section \<open>Documented behaviour\<close>

text \<open>Joining pieces with a separator character.\<close>

fun join :: "char \<Rightarrow> string list \<Rightarrow> string" where
  "join c [] = []"
| "join c [x] = x"
| "join c (x # y # xs) = x @ c # join c (y # xs)"

text \<open>\<open>apr_strtok\<close> returns the non-empty pieces between separators, in order.\<close>

definition strtok_law :: "'w apr \<Rightarrow> bool" where
  "strtok_law E \<longleftrightarrow>
     (\<forall>sep xs. (\<forall>x \<in> set xs. sep \<notin> set x) \<longrightarrow> apr_strtok E (join sep xs) sep = filter (\<lambda>x. x \<noteq> []) xs)"

text \<open>\<open>apr_socket_recv\<close> never returns more bytes than asked for.\<close>

definition recv_law :: "'w apr \<Rightarrow> bool" where
  "recv_law E \<longleftrightarrow> (\<forall>s n w. length (snd (fst (apr_socket_recv E s n w))) \<le> n)"

text \<open>\<open>rand\<close> is at most \<open>RAND_MAX\<close>.\<close>

definition RAND_MAX :: nat where "RAND_MAX = 2147483647"

definition rand_law :: "'w apr \<Rightarrow> bool" where
  "rand_law E \<longleftrightarrow> (\<forall>w. fst (c_rand E w) \<le> RAND_MAX)"

text \<open>\<open>apr_palloc\<close> returns a block of the size asked for, its contents unspecified.\<close>

definition palloc_law :: "'w apr \<Rightarrow> bool" where
  "palloc_law E \<longleftrightarrow> (\<forall>n w. length (fst (apr_palloc E n w)) = n)
     \<and> (\<forall>n w. length (fst (apr_palloc_ints E n w)) = n)"

text \<open>
  A view \<open>live\<close> of the world as the set of memory pools that exist: creating a pool adds a
  fresh one, destroying a pool that exists removes it, and no other call the request path makes
  changes the set. Destroying a pool that does not exist is undefined (the second
  \<open>apr_pool_destroy\<close> of a pool corrupts the heap), so the law says nothing of it: whatever is
  proved of the set after a destruction is proved of code that destroys only pools that exist,
  and nothing can be proved of code that closes a connection twice.
\<close>

definition pool_law :: "'w apr \<Rightarrow> ('w \<Rightarrow> handle set) \<Rightarrow> bool" where
  "pool_law E live \<longleftrightarrow>
     (\<forall>w st q w'. apr_pool_create E w = ((st, q), w') \<longrightarrow>
        live w' = (if st = APR_SUCCESS then insert q (live w) else live w)
        \<and> (st = APR_SUCCESS \<longrightarrow> q \<notin> live w))
   \<and> (\<forall>q w. q \<in> live w \<longrightarrow> live (apr_pool_destroy E q w) = live w - {q})
   \<and> (\<forall>n w. live (snd (apr_palloc E n w)) = live w)
   \<and> (\<forall>w. live (snd (apr_socket_create E w)) = live w)
   \<and> (\<forall>s t w. live (apr_socket_timeout_set E s t w) = live w)
   \<and> (\<forall>s a w. live (snd (apr_socket_connect E s a w)) = live w)
   \<and> (\<forall>s b w. live (snd (apr_socket_send E s b w)) = live w)
   \<and> (\<forall>s n w. live (snd (apr_socket_recv E s n w)) = live w)
   \<and> (\<forall>s w. live (apr_socket_close E s w) = live w)
   \<and> (\<forall>l w. live (snd (apr_thread_rwlock_rdlock E l w)) = live w)
   \<and> (\<forall>l w. live (snd (apr_thread_rwlock_wrlock E l w)) = live w)
   \<and> (\<forall>l w. live (snd (apr_thread_rwlock_unlock E l w)) = live w)
   \<and> (\<forall>l w. live (snd (apr_thread_mutex_lock E l w)) = live w)
   \<and> (\<forall>l w. live (snd (apr_thread_mutex_unlock E l w)) = live w)
   \<and> (\<forall>w. live (snd (apr_time_now E w)) = live w)
   \<and> (\<forall>w. live (snd (c_rand E w)) = live w)"

text \<open>The same law in the form in which results of calls are bound to names.\<close>

lemma pool_create_live:
  assumes "pool_law E live" and "apr_pool_create E w = ((st, q), w')"
  shows "st = APR_SUCCESS \<Longrightarrow> live w' = insert q (live w) \<and> q \<notin> live w"
    and "st \<noteq> APR_SUCCESS \<Longrightarrow> live w' = live w"
proof -
  note law = assms(1) [unfolded pool_law_def, THEN conjunct1, rule_format, OF assms(2)]
  show "st = APR_SUCCESS \<Longrightarrow> live w' = insert q (live w) \<and> q \<notin> live w" using law by simp
  show "st \<noteq> APR_SUCCESS \<Longrightarrow> live w' = live w" using law by simp
qed

lemma pool_destroy_live:
  "pool_law E live \<Longrightarrow> q \<in> live w \<Longrightarrow> live (apr_pool_destroy E q w) = live w - {q}"
  using conjunct1 [OF conjunct2 [OF pool_law_def [THEN iffD1]]] by blast

lemma live_frames:
  assumes "pool_law E live"
  shows "apr_palloc E n w = (m, w1) \<Longrightarrow> live w1 = live w"
    and "apr_socket_create E w = (x, w1) \<Longrightarrow> live w1 = live w"
    and "live (apr_socket_timeout_set E s t w) = live w"
    and "apr_socket_connect E s a w = (st, w1) \<Longrightarrow> live w1 = live w"
    and "apr_socket_send E s b w = (st, w1) \<Longrightarrow> live w1 = live w"
    and "apr_socket_recv E s n w = (y, w1) \<Longrightarrow> live w1 = live w"
    and "live (apr_socket_close E s w) = live w"
    and "apr_thread_rwlock_rdlock E l w = (st, w1) \<Longrightarrow> live w1 = live w"
    and "apr_thread_rwlock_wrlock E l w = (st, w1) \<Longrightarrow> live w1 = live w"
    and "apr_thread_rwlock_unlock E l w = (st, w1) \<Longrightarrow> live w1 = live w"
    and "apr_thread_mutex_lock E l w = (st, w1) \<Longrightarrow> live w1 = live w"
    and "apr_thread_mutex_unlock E l w = (st, w1) \<Longrightarrow> live w1 = live w"
    and "apr_time_now E w = (t0, w1) \<Longrightarrow> live w1 = live w"
    and "c_rand E w = (r, w1) \<Longrightarrow> live w1 = live w"
proof -
  note law = assms [unfolded pool_law_def, THEN conjunct2]
  have "live (snd (apr_palloc E n w)) = live w" using law by simp
  then show "apr_palloc E n w = (m, w1) \<Longrightarrow> live w1 = live w" by simp
  have "live (snd (apr_socket_create E w)) = live w" using law by simp
  then show "apr_socket_create E w = (x, w1) \<Longrightarrow> live w1 = live w" by simp
  show "live (apr_socket_timeout_set E s t w) = live w" using law by simp
  have "live (snd (apr_socket_connect E s a w)) = live w" using law by simp
  then show "apr_socket_connect E s a w = (st, w1) \<Longrightarrow> live w1 = live w" by simp
  have "live (snd (apr_socket_send E s b w)) = live w" using law by simp
  then show "apr_socket_send E s b w = (st, w1) \<Longrightarrow> live w1 = live w" by simp
  have "live (snd (apr_socket_recv E s n w)) = live w" using law by simp
  then show "apr_socket_recv E s n w = (y, w1) \<Longrightarrow> live w1 = live w" by simp
  show "live (apr_socket_close E s w) = live w" using law by simp
  have "live (snd (apr_thread_rwlock_rdlock E l w)) = live w" using law by simp
  then show "apr_thread_rwlock_rdlock E l w = (st, w1) \<Longrightarrow> live w1 = live w" by simp
  have "live (snd (apr_thread_rwlock_wrlock E l w)) = live w" using law by simp
  then show "apr_thread_rwlock_wrlock E l w = (st, w1) \<Longrightarrow> live w1 = live w" by simp
  have "live (snd (apr_thread_rwlock_unlock E l w)) = live w" using law by simp
  then show "apr_thread_rwlock_unlock E l w = (st, w1) \<Longrightarrow> live w1 = live w" by simp
  have "live (snd (apr_thread_mutex_lock E l w)) = live w" using law by simp
  then show "apr_thread_mutex_lock E l w = (st, w1) \<Longrightarrow> live w1 = live w" by simp
  have "live (snd (apr_thread_mutex_unlock E l w)) = live w" using law by simp
  then show "apr_thread_mutex_unlock E l w = (st, w1) \<Longrightarrow> live w1 = live w" by simp
  have "live (snd (apr_time_now E w)) = live w" using law by simp
  then show "apr_time_now E w = (t0, w1) \<Longrightarrow> live w1 = live w" by simp
  have "live (snd (c_rand E w)) = live w" using law by simp
  then show "c_rand E w = (r, w1) \<Longrightarrow> live w1 = live w" by simp
qed

text \<open>Destroying locks, waiting and sleeping do not touch the set either.\<close>

definition sync_law :: "'w apr \<Rightarrow> ('w \<Rightarrow> handle set) \<Rightarrow> bool" where
  "sync_law E live \<longleftrightarrow>
     (\<forall>l w. live (apr_thread_mutex_destroy E l w) = live w)
   \<and> (\<forall>c w. live (apr_thread_cond_destroy E c w) = live w)
   \<and> (\<forall>l w. live (apr_thread_rwlock_destroy E l w) = live w)
   \<and> (\<forall>c m t w. live (apr_thread_cond_timedwait E c m t w) = live w)
   \<and> (\<forall>c w. live (apr_thread_cond_signal E c w) = live w)
   \<and> (\<forall>t w. live (apr_thread_join E t w) = live w)
   \<and> (\<forall>t w. live (apr_sleep E t w) = live w)"

end
