(* ===== verification/Http.thy ===== *)
theory Http
  imports Apr
begin

text \<open>
  What the file system client uses besides the network calls of \<open>Apr\<close>: libcurl, the resource
  lists and the URI parser of apr-util, files and bucket brigades. Like there, none of it is code
  of the library, so it is a parameter: a record of functions on the world.
\<close>

section \<open>The types of the interfaces\<close>

text \<open>\<open>apr_uri_t\<close>, the fields the library reads; \<open>None\<close> is NULL.\<close>

record apr_uri =
  u_scheme :: "string option"
  u_hostinfo :: "string option"
  u_path :: "string option"

datatype CURLcode = CURLE_OK | CURLE_OTHER int

datatype curl_callback =
    Buffer_put_read | File_put_read | Buffer_put_write | Buffer_put_seek
  | Buffer_get_write | Buffer_get_seek

text \<open>\<open>curl_easy_setopt\<close>, with the options the library sets; a callback is given by its name.\<close>

datatype curl_option =
    CURLOPT_URL string
  | CURLOPT_UPLOAD int
  | CURLOPT_PUT int
  | CURLOPT_HTTPGET int
  | CURLOPT_WRITEFUNCTION curl_callback
  | CURLOPT_WRITEDATA bool
  | CURLOPT_SEEKFUNCTION curl_callback
  | CURLOPT_SEEKDATA bool
  | CURLOPT_READFUNCTION "curl_callback option"
  | CURLOPT_READDATA bool
  | CURLOPT_CONNECTTIMEOUT_MS int
  | CURLOPT_UPLOAD_BUFFERSIZE int
  | CURLOPT_BUFFERSIZE int
  | CURLOPT_LOW_SPEED_TIME int
  | CURLOPT_LOW_SPEED_LIMIT int
  | CURLOPT_NOSIGNAL int
  | CURLOPT_HTTPHEADER "string list"
  | CURLOPT_INFILESIZE_LARGE int

text \<open>
  \<open>curl_easy_perform\<close> calls back into the library. It is a sequence of events, each asked for
  from the world: while uploading it wants up to \<open>size * nmemb\<close> bytes or delivers a piece of the
  response, while downloading it delivers a piece of the file; in the end it returns a code. What
  a callback returns goes back to it.
\<close>

datatype put_event = Want_data nat nat | Put_body string | Put_done CURLcode
datatype get_event = Got_data string | Get_done CURLcode

text \<open>Buckets: bytes in memory, a part of a file, and others that only the caller of the library has.\<close>

datatype apr_bucket = Pool_bucket string | File_bucket handle nat nat | Other_bucket nat

type_synonym apr_bucket_brigade = "apr_bucket list"

record 'w http =
  c_stack_bool :: bool
  curl_global_init :: "'w \<Rightarrow> 'w"
  curl_easy_init :: "'w \<Rightarrow> handle option \<times> 'w"
  curl_easy_cleanup :: "handle \<Rightarrow> 'w \<Rightarrow> 'w"
  curl_easy_setopt :: "handle \<Rightarrow> curl_option \<Rightarrow> 'w \<Rightarrow> 'w"
  curl_put_event :: "handle \<Rightarrow> 'w \<Rightarrow> put_event \<times> 'w"
  curl_put_reply :: "handle \<Rightarrow> string option \<Rightarrow> 'w \<Rightarrow> 'w"
  curl_get_event :: "handle \<Rightarrow> 'w \<Rightarrow> get_event \<times> 'w"
  curl_get_reply :: "handle \<Rightarrow> nat \<Rightarrow> 'w \<Rightarrow> 'w"
  apr_reslist_create :: "'w \<Rightarrow> (apr_status \<times> handle) \<times> 'w"
  apr_reslist_acquire :: "handle \<Rightarrow> 'w \<Rightarrow> (apr_status \<times> handle) \<times> 'w"
  apr_reslist_release :: "handle \<Rightarrow> handle \<Rightarrow> 'w \<Rightarrow> apr_status \<times> 'w"
  apr_reslist_invalidate :: "handle \<Rightarrow> handle \<Rightarrow> 'w \<Rightarrow> apr_status \<times> 'w"
  apr_reslist_destroy :: "handle \<Rightarrow> 'w \<Rightarrow> apr_status \<times> 'w"
  apr_uri_parse :: "string \<Rightarrow> apr_status \<times> apr_uri"
  apr_file_seek_start :: "handle \<Rightarrow> 'w \<Rightarrow> apr_status \<times> 'w"
  apr_file_read :: "handle \<Rightarrow> nat \<Rightarrow> 'w \<Rightarrow> (apr_status \<times> string) \<times> 'w"
  apr_file_write_full :: "handle \<Rightarrow> string \<Rightarrow> 'w \<Rightarrow> (apr_status \<times> nat) \<times> 'w"
  apr_file_size :: "handle \<Rightarrow> 'w \<Rightarrow> (apr_status \<times> int) \<times> 'w"
  apr_file_mktemp :: "string \<Rightarrow> 'w \<Rightarrow> (apr_status \<times> handle) \<times> 'w"
  apr_file_open :: "string \<Rightarrow> 'w \<Rightarrow> (apr_status \<times> handle) \<times> 'w"
  apr_dir_make_recursive :: "string \<Rightarrow> 'w \<Rightarrow> apr_status \<times> 'w"
  apr_bucket_read :: "apr_bucket \<Rightarrow> 'w \<Rightarrow> (apr_status \<times> string) \<times> 'w"
  apr_brigade_pflatten :: "apr_bucket_brigade \<Rightarrow> 'w \<Rightarrow> (apr_status \<times> string) \<times> 'w"

text \<open>
  \<open>c_stack_bool\<close> is what an uninitialised local \<open>bool\<close> holds. A file is opened or created
  without looking at its old contents, written at its position and rewound; \<open>apr_file_write_full\<close>
  also gives the number of bytes it wrote. \<open>curl_easy_init\<close> gives \<open>None\<close> for NULL.
\<close>

section \<open>Documented behaviour\<close>

text \<open>The bytes of a memory bucket can be read, and flattening memory buckets concatenates them.\<close>

definition bucket_law :: "'w http \<Rightarrow> bool" where
  "bucket_law F \<longleftrightarrow>
     (\<forall>s w. apr_bucket_read F (Pool_bucket s) w = ((APR_SUCCESS, s), w))
   \<and> (\<forall>ss w. apr_brigade_pflatten F (map Pool_bucket ss) w = ((APR_SUCCESS, concat ss), w))"

text \<open>No call of these interfaces creates or destroys a memory pool in the view \<open>live\<close>.\<close>

definition http_law :: "'w http \<Rightarrow> ('w \<Rightarrow> handle set) \<Rightarrow> bool" where
  "http_law F live \<longleftrightarrow>
     (\<forall>c opt w. live (curl_easy_setopt F c opt w) = live w)
   \<and> (\<forall>c w. live (snd (curl_put_event F c w)) = live w)
   \<and> (\<forall>c b w. live (curl_put_reply F c b w) = live w)
   \<and> (\<forall>c w. live (snd (curl_get_event F c w)) = live w)
   \<and> (\<forall>c n w. live (curl_get_reply F c n w) = live w)
   \<and> (\<forall>w. live (snd (apr_reslist_create F w)) = live w)
   \<and> (\<forall>r w. live (snd (apr_reslist_acquire F r w)) = live w)
   \<and> (\<forall>r c w. live (snd (apr_reslist_release F r c w)) = live w)
   \<and> (\<forall>r c w. live (snd (apr_reslist_invalidate F r c w)) = live w)
   \<and> (\<forall>f w. live (snd (apr_file_seek_start F f w)) = live w)
   \<and> (\<forall>f n w. live (snd (apr_file_read F f n w)) = live w)
   \<and> (\<forall>f s w. live (snd (apr_file_write_full F f s w)) = live w)
   \<and> (\<forall>f w. live (snd (apr_file_size F f w)) = live w)
   \<and> (\<forall>t w. live (snd (apr_file_mktemp F t w)) = live w)
   \<and> (\<forall>n w. live (snd (apr_file_open F n w)) = live w)
   \<and> (\<forall>d w. live (snd (apr_dir_make_recursive F d w)) = live w)
   \<and> (\<forall>b w. live (snd (apr_bucket_read F b w)) = live w)
   \<and> (\<forall>bs w. live (snd (apr_brigade_pflatten F bs w)) = live w)"

lemma http_frames:
  assumes "http_law F live"
  shows "live (curl_easy_setopt F c opt w) = live w"
    and "curl_put_event F c w = (e, w1) \<Longrightarrow> live w1 = live w"
    and "live (curl_put_reply F c b w) = live w"
    and "curl_get_event F c w = (e2, w1) \<Longrightarrow> live w1 = live w"
    and "live (curl_get_reply F c n w) = live w"
    and "apr_reslist_create F w = (x, w1) \<Longrightarrow> live w1 = live w"
    and "apr_reslist_acquire F r w = (x, w1) \<Longrightarrow> live w1 = live w"
    and "apr_reslist_release F r c w = (st, w1) \<Longrightarrow> live w1 = live w"
    and "apr_reslist_invalidate F r c w = (st, w1) \<Longrightarrow> live w1 = live w"
    and "apr_file_seek_start F f w = (st, w1) \<Longrightarrow> live w1 = live w"
    and "apr_file_read F f n w = (y, w1) \<Longrightarrow> live w1 = live w"
    and "apr_file_write_full F f s w = (z, w1) \<Longrightarrow> live w1 = live w"
    and "apr_file_size F f w = (i, w1) \<Longrightarrow> live w1 = live w"
    and "apr_file_mktemp F t w = (x, w1) \<Longrightarrow> live w1 = live w"
    and "apr_file_open F p w = (x, w1) \<Longrightarrow> live w1 = live w"
    and "apr_dir_make_recursive F d w = (st, w1) \<Longrightarrow> live w1 = live w"
    and "apr_bucket_read F bu w = (y, w1) \<Longrightarrow> live w1 = live w"
    and "apr_brigade_pflatten F bs w = (y, w1) \<Longrightarrow> live w1 = live w"
  using assms by (simp_all add: http_law_def) (metis snd_conv)+

end
