(* ===== verification/SimNet.thy ===== *)
theory SimNet
  imports Http
begin

text \<open>
  A concrete world: a scripted network. Connections and answers are taken from two scripts,
  handles are numbered upwards, every lock succeeds, the clock stands still and the memory
  returned by \<open>apr_palloc\<close> is zero. It satisfies every law of the environment and is what the
  witnesses run the code on.
\<close>

record sim =
  sim_next :: nat
  sim_pools :: "nat list"
  sim_connects :: "apr_status list"
  sim_replies :: "(apr_status \<times> string) list"
  sim_clock :: int
  sim_rands :: "nat list"
  sim_sent :: "string list"
  sim_closed :: "nat list"
  sim_threads :: nat
  sim_files :: "(string \<times> nat) list"
  sim_put_events :: "put_event list"
  sim_get_events :: "get_event list"
  sim_uploaded :: "string list"

definition sim0 :: sim where
  "sim0 = \<lparr>sim_next = 1, sim_pools = [], sim_connects = [], sim_replies = [], sim_clock = 0,
     sim_rands = [], sim_sent = [], sim_closed = [], sim_threads = 0, sim_files = [],
     sim_put_events = [], sim_get_events = [], sim_uploaded = []\<rparr>"

definition sim_fresh :: "sim \<Rightarrow> (apr_status \<times> handle) \<times> sim" where
  "sim_fresh w = ((APR_SUCCESS, sim_next w), w\<lparr>sim_next := sim_next w + 1\<rparr>)"

text \<open>The number of a new memory pool is one no live pool has.\<close>

definition sim_pool_create :: "sim \<Rightarrow> (apr_status \<times> handle) \<times> sim" where
  "sim_pool_create w =
     (let q = Suc (foldr max (sim_pools w) (sim_next w))
      in ((APR_SUCCESS, q), w\<lparr>sim_next := Suc q, sim_pools := q # sim_pools w\<rparr>))"

definition sim_pool_destroy :: "handle \<Rightarrow> sim \<Rightarrow> sim" where
  "sim_pool_destroy q w = w\<lparr>sim_pools := filter (\<lambda>x. x \<noteq> q) (sim_pools w)\<rparr>"

definition sim_connect :: "sim \<Rightarrow> apr_status \<times> sim" where
  "sim_connect w =
     (case sim_connects w of
        [] \<Rightarrow> (APR_SUCCESS, w)
      | st # sts \<Rightarrow> (st, w\<lparr>sim_connects := sts\<rparr>))"

definition sim_recv :: "nat \<Rightarrow> sim \<Rightarrow> (apr_status \<times> string) \<times> sim" where
  "sim_recv n w =
     (case sim_replies w of
        [] \<Rightarrow> ((APR_EOF, []), w)
      | (st, b) # rs \<Rightarrow>
          if length b \<le> n then ((st, b), w\<lparr>sim_replies := rs\<rparr>)
          else ((st, take n b), w\<lparr>sim_replies := (st, drop n b) # rs\<rparr>))"

definition sim_rand :: "sim \<Rightarrow> nat \<times> sim" where
  "sim_rand w =
     (case sim_rands w of
        [] \<Rightarrow> (0, w)
      | r # rs \<Rightarrow> (min r RAND_MAX, w\<lparr>sim_rands := rs\<rparr>))"

fun split_on :: "char \<Rightarrow> string \<Rightarrow> string \<Rightarrow> string list" where
  "split_on sep acc [] = [acc]"
| "split_on sep acc (c # s) = (if c = sep then acc # split_on sep [] s else split_on sep (acc @ [c]) s)"

definition sim_strtok :: "string \<Rightarrow> char \<Rightarrow> string list" where
  "sim_strtok s sep = filter (\<lambda>x. x \<noteq> []) (split_on sep [] s)"

definition sim_apr :: "sim apr" where
  "sim_apr = \<lparr>
     apr_pool_create = sim_pool_create,
     apr_pool_destroy = sim_pool_destroy,
     apr_palloc = (\<lambda>n w. (replicate n NUL, w)),
     apr_palloc_ints = (\<lambda>n w. (replicate n 0, w)),
     apr_sockaddr_info_get = (\<lambda>a p w. sim_fresh w),
     apr_socket_create = sim_fresh,
     apr_socket_timeout_set = (\<lambda>s t w. w),
     apr_socket_connect = (\<lambda>s a w. sim_connect w),
     apr_socket_send = (\<lambda>s b w. (APR_SUCCESS, w\<lparr>sim_sent := sim_sent w @ [b]\<rparr>)),
     apr_socket_recv = (\<lambda>s n w. sim_recv n w),
     apr_socket_close = (\<lambda>s w. w\<lparr>sim_closed := s # sim_closed w\<rparr>),
     apr_thread_rwlock_create = sim_fresh,
     apr_thread_rwlock_rdlock = (\<lambda>l w. (APR_SUCCESS, w)),
     apr_thread_rwlock_wrlock = (\<lambda>l w. (APR_SUCCESS, w)),
     apr_thread_rwlock_unlock = (\<lambda>l w. (APR_SUCCESS, w)),
     apr_thread_rwlock_destroy = (\<lambda>l w. w),
     apr_thread_mutex_create = sim_fresh,
     apr_thread_mutex_lock = (\<lambda>l w. (APR_SUCCESS, w)),
     apr_thread_mutex_unlock = (\<lambda>l w. (APR_SUCCESS, w)),
     apr_thread_mutex_destroy = (\<lambda>l w. w),
     apr_thread_cond_create = (\<lambda>w. (sim_next w, w\<lparr>sim_next := sim_next w + 1\<rparr>)),
     apr_thread_cond_signal = (\<lambda>c w. w),
     apr_thread_cond_timedwait = (\<lambda>c m t w. w),
     apr_thread_cond_destroy = (\<lambda>c w. w),
     apr_thread_create = (\<lambda>w. ((APR_SUCCESS, Some (sim_threads w)), w\<lparr>sim_threads := sim_threads w + 1\<rparr>)),
     apr_thread_join = (\<lambda>t w. w),
     apr_time_now = (\<lambda>w. (sim_clock w, w)),
     apr_sleep = (\<lambda>t w. w\<lparr>sim_clock := sim_clock w + t\<rparr>),
     c_srand = (\<lambda>n w. w),
     c_rand = sim_rand,
     c_mem_after = 99,
     apr_strtok = sim_strtok,
     apr_atoi64 = (\<lambda>s. word_of_int (atoi s))\<rparr>"

definition sim_live :: "sim \<Rightarrow> handle set" where
  "sim_live w = set (sim_pools w)"

lemmas sim_defs = sim_fresh_def sim_pool_create_def sim_pool_destroy_def sim_connect_def
  sim_recv_def sim_rand_def sim_live_def

section \<open>The laws hold\<close>

lemma split_on_piece: "sep \<notin> set x \<Longrightarrow> split_on sep acc x = [acc @ x]"
  by (induction x arbitrary: acc) auto

lemma split_on_step: "sep \<notin> set x \<Longrightarrow> split_on sep acc (x @ sep # s) = (acc @ x) # split_on sep [] s"
  by (induction x arbitrary: acc) auto

lemma split_on_join:
  "\<forall>x \<in> set xs. sep \<notin> set x \<Longrightarrow> xs \<noteq> [] \<Longrightarrow> split_on sep [] (join sep xs) = xs"
  by (induction sep xs rule: join.induct) (auto simp: split_on_piece split_on_step)

lemma sim_strtok_law: "strtok_law sim_apr"
  unfolding strtok_law_def
proof (intro allI impI)
  fix sep :: char and xs :: "string list"
  assume "\<forall>x \<in> set xs. sep \<notin> set x"
  then show "apr_strtok sim_apr (join sep xs) sep = filter (\<lambda>x. x \<noteq> []) xs"
    by (cases "xs = []") (simp_all add: sim_apr_def sim_strtok_def split_on_join)
qed

lemma sim_recv_law: "recv_law sim_apr"
  by (auto simp: recv_law_def sim_apr_def sim_recv_def split: list.splits prod.splits)

lemma sim_rand_law: "rand_law sim_apr"
  by (auto simp: rand_law_def sim_apr_def sim_rand_def split: list.splits)

lemma sim_palloc_law: "palloc_law sim_apr"
  by (simp add: palloc_law_def sim_apr_def)

lemma foldr_max_ge: "x \<in> set xs \<Longrightarrow> x \<le> foldr max xs (n::nat)"
  by (induction xs) auto

lemma sim_pool_fresh: "Suc (foldr max (sim_pools w) n) \<notin> set (sim_pools w)"
  using foldr_max_ge [of "Suc (foldr max (sim_pools w) n)" "sim_pools w" n] by auto

lemma sim_pool_law: "pool_law sim_apr sim_live"
  unfolding pool_law_def
  by (intro conjI allI impI)
     (auto simp: sim_apr_def sim_defs sim_pool_fresh Let_def split: list.splits prod.splits if_splits)

lemma sim_sync_law: "sync_law sim_apr sim_live"
  by (simp add: sync_law_def sim_apr_def sim_live_def)

section \<open>Files and transfers\<close>

text \<open>
  Files are numbered and have contents and a position; writing overwrites from the position on.
  The events of a transfer come from a script, and what the callbacks hand over is recorded.
\<close>

definition overwrite :: "string \<Rightarrow> string \<times> nat \<Rightarrow> string \<times> nat" where
  "overwrite s f = (case f of (old, pos) \<Rightarrow> (take pos old @ s @ drop (pos + length s) old, pos + length s))"

definition sim_new_file :: "sim \<Rightarrow> (apr_status \<times> handle) \<times> sim" where
  "sim_new_file w = ((APR_SUCCESS, length (sim_files w)), w\<lparr>sim_files := sim_files w @ [([], 0)]\<rparr>)"

definition sim_read :: "handle \<Rightarrow> nat \<Rightarrow> sim \<Rightarrow> (apr_status \<times> string) \<times> sim" where
  "sim_read f n w =
     (case sim_files w ! f of (old, pos) \<Rightarrow>
        let b = take n (drop pos old)
        in if b = [] then ((APR_EOF, []), w)
           else ((APR_SUCCESS, b), w\<lparr>sim_files := (sim_files w)[f := (old, pos + length b)]\<rparr>))"

definition sim_http :: "sim http" where
  "sim_http = \<lparr>
     c_stack_bool = False,
     curl_global_init = (\<lambda>w. w),
     curl_easy_init = (\<lambda>w. (Some (sim_next w), w\<lparr>sim_next := sim_next w + 1\<rparr>)),
     curl_easy_cleanup = (\<lambda>c w. w),
     curl_easy_setopt = (\<lambda>c opt w. w),
     curl_put_event = (\<lambda>c w. case sim_put_events w of [] \<Rightarrow> (Put_done CURLE_OK, w)
                               | e # es \<Rightarrow> (e, w\<lparr>sim_put_events := es\<rparr>)),
     curl_put_reply = (\<lambda>c b w. w\<lparr>sim_uploaded := sim_uploaded w @ (case b of None \<Rightarrow> [] | Some s \<Rightarrow> [s])\<rparr>),
     curl_get_event = (\<lambda>c w. case sim_get_events w of [] \<Rightarrow> (Get_done CURLE_OK, w)
                               | e # es \<Rightarrow> (e, w\<lparr>sim_get_events := es\<rparr>)),
     curl_get_reply = (\<lambda>c n w. w),
     apr_reslist_create = sim_fresh,
     apr_reslist_acquire = (\<lambda>r w. sim_fresh w),
     apr_reslist_release = (\<lambda>r c w. (APR_SUCCESS, w)),
     apr_reslist_invalidate = (\<lambda>r c w. (APR_SUCCESS, w)),
     apr_reslist_destroy = (\<lambda>r w. (APR_SUCCESS, w)),
     apr_uri_parse = (\<lambda>s. (APR_SUCCESS, \<lparr>u_scheme = Some ''http'', u_hostinfo = Some ''h'', u_path = Some s\<rparr>)),
     apr_file_seek_start = (\<lambda>f w. (APR_SUCCESS, w\<lparr>sim_files := (sim_files w)[f := (fst (sim_files w ! f), 0)]\<rparr>)),
     apr_file_read = sim_read,
     apr_file_write_full = (\<lambda>f s w. ((APR_SUCCESS, length s),
         w\<lparr>sim_files := (sim_files w)[f := overwrite s (sim_files w ! f)]\<rparr>)),
     apr_file_size = (\<lambda>f w. ((APR_SUCCESS, int (length (fst (sim_files w ! f)))), w)),
     apr_file_mktemp = (\<lambda>t w. sim_new_file w),
     apr_file_open = (\<lambda>n w. sim_new_file w),
     apr_dir_make_recursive = (\<lambda>d w. (APR_SUCCESS, w)),
     apr_bucket_read = (\<lambda>b w. ((APR_SUCCESS, case b of Pool_bucket s \<Rightarrow> s | _ \<Rightarrow> []), w)),
     apr_brigade_pflatten = (\<lambda>bs w. ((APR_SUCCESS, concat (map (\<lambda>b. case b of Pool_bucket s \<Rightarrow> s | _ \<Rightarrow> []) bs)), w))\<rparr>"

lemma sim_bucket_law: "bucket_law sim_http"
  by (simp add: bucket_law_def sim_http_def comp_def)

lemma sim_http_law: "http_law sim_http sim_live"
  by (auto simp: http_law_def sim_http_def sim_live_def sim_fresh_def sim_new_file_def sim_read_def Let_def split: list.splits prod.splits)

end
