(* ===== verification/Params.thy ===== *)
theory Params
  imports UrlCodec SimNet
begin

text \<open>
  The parameters of a tracker request and the request line built from them:
  \<open>tracker_request_parameters\<close> of \<open>src/src/mogile_fs.h\<close> and lines 79 to 150 and 269 to 309 of
  \<open>src/src/tracker.c\<close>. Lengths and counts are of the type \<open>int\<close>, as in the structures. The
  request buffer is written as the C code writes it, position by position into a block of the
  size computed beforehand; the block keeps that size, and a store outside it is recorded as a
  stray write.
\<close>

section \<open>The parameter list\<close>

record tracker_request_parameter =
  p_key :: string
  p_key_length :: cint
  p_value :: string
  p_value_length :: cint
  p_is_metadata :: bool

text \<open>The linked list from \<open>head\<close> through \<open>next\<close> is the list \<open>tp_head\<close>.\<close>

record tracker_request_parameters =
  tp_head :: "tracker_request_parameter list"
  tp_count :: cint
  tp_strlen :: cint
  tp_meta_count :: cint

definition mfs_tracker_init_parameters :: tracker_request_parameters where
  "mfs_tracker_init_parameters = \<lparr>tp_head = [], tp_count = 0, tp_strlen = 0, tp_meta_count = 0\<rparr>"

definition mfs_tracker_add_parameter_pointers ::
  "tracker_request_parameters \<Rightarrow> string \<Rightarrow> cint \<Rightarrow> string \<Rightarrow> cint \<Rightarrow> tracker_request_parameters" where
  "mfs_tracker_add_parameter_pointers ps k kl v vl =
     ps\<lparr>tp_count := tp_count ps + 1,
        tp_strlen := tp_strlen ps + (kl + vl + 1),
        tp_head := tp_head ps @
          [\<lparr>p_key = k, p_key_length = kl, p_value = v, p_value_length = vl, p_is_metadata = False\<rparr>]\<rparr>"

definition mfs_tracker_add_parameter ::
  "tracker_request_parameters \<Rightarrow> string \<Rightarrow> string \<Rightarrow> tracker_request_parameters" where
  "mfs_tracker_add_parameter ps k v =
     (let (encoded_key, key_length) = mfs_tracker_url_encode k;
          (encoded_value, value_length) = mfs_tracker_url_encode v
      in mfs_tracker_add_parameter_pointers ps encoded_key key_length encoded_value value_length)"

definition mfs_tracker_add_meta_data ::
  "tracker_request_parameters \<Rightarrow> string \<Rightarrow> string \<Rightarrow> bool \<Rightarrow> tracker_request_parameters" where
  "mfs_tracker_add_meta_data ps k v prepare =
     (if prepare then
        let n = show_int (sint (tp_meta_count ps));
            ps = mfs_tracker_add_parameter ps (''plugin.meta.key'' @ n) k;
            ps = mfs_tracker_add_parameter ps (''plugin.meta.value'' @ n) v
        in ps\<lparr>tp_meta_count := tp_meta_count ps + 1\<rparr>
      else
        ps\<lparr>tp_count := tp_count ps + 1,
           tp_head := tp_head ps @
             [\<lparr>p_key = k, p_key_length = 0, p_value = v, p_value_length = 0, p_is_metadata = True\<rparr>],
           tp_meta_count := tp_meta_count ps + 1\<rparr>)"

text \<open>The loop of \<open>mfs_tracker_copy_parameter_pointers\<close> over the source list.\<close>

fun copy_params ::
  "tracker_request_parameter list \<Rightarrow> tracker_request_parameters \<Rightarrow> tracker_request_parameters" where
  "copy_params [] dest = dest"
| "copy_params (p # ps) dest =
     copy_params ps
       (if p_is_metadata p then mfs_tracker_add_meta_data dest (p_key p) (p_value p) True
        else mfs_tracker_add_parameter_pointers dest (p_key p) (p_key_length p)
               (p_value p) (p_value_length p))"

definition mfs_tracker_copy_parameter_pointers ::
  "tracker_request_parameters \<Rightarrow> tracker_request_parameters \<Rightarrow> tracker_request_parameters" where
  "mfs_tracker_copy_parameter_pointers src dest = copy_params (tp_head src) dest"

section \<open>The request buffer\<close>

text \<open>
  A block of memory as \<open>apr_palloc\<close> returned it: its bytes, whose number never changes, and
  the stores that fell outside it, each with its offset from the start of the block, in order.
\<close>

record block =
  blk_mem :: string
  blk_stray :: "(int \<times> char) list"

definition put_char :: "int \<Rightarrow> char \<Rightarrow> block \<Rightarrow> block" where
  "put_char i c b =
     (if 0 \<le> i \<and> i < int (length (blk_mem b)) then b\<lparr>blk_mem := (blk_mem b)[nat i := c]\<rparr>
      else b\<lparr>blk_stray := blk_stray b @ [(i, c)]\<rparr>)"

text \<open>\<open>strcpy\<close> to offset \<open>i\<close>; it writes the terminator too.\<close>

fun c_strcpy :: "int \<Rightarrow> string \<Rightarrow> block \<Rightarrow> block" where
  "c_strcpy i [] b = put_char i NUL b"
| "c_strcpy i (c # s) b = c_strcpy (i + 1) s (put_char i c b)"

text \<open>The loop over the parameters; \<open>pos\<close> is \<open>cat_pos - request\<close>.\<close>

fun write_params :: "tracker_request_parameter list \<Rightarrow> int \<Rightarrow> block \<Rightarrow> int \<times> block" where
  "write_params [] pos m = (pos, m)"
| "write_params (p # ps) pos m =
     (let m = c_strcpy pos (p_key p) m;
          pos = pos + sint (p_key_length p);
          m = put_char pos (CHR ''='') m;
          pos = pos + 1;
          m = c_strcpy pos (p_value p) m;
          pos = pos + sint (p_value_length p)
      in if ps \<noteq> [] then write_params ps (pos + 1) (put_char pos (CHR ''&'') m)
         else write_params ps pos m)"

definition meta_count_param :: "tracker_request_parameters \<Rightarrow> string" where
  "meta_count_param ps = ''plugin.meta.keys='' @ show_int (sint (tp_meta_count ps)) @ ''&''"

text \<open>\<open>total_length\<close>, and \<open>cmd_length\<close>: \<open>strlen\<close> stored in an \<open>int\<close>.\<close>

definition strlen_int :: "string \<Rightarrow> cint" where
  "strlen_int s = of_nat (length s)"

definition request_length :: "string \<Rightarrow> tracker_request_parameters \<Rightarrow> cint" where
  "request_length cmd ps =
     strlen_int cmd + 3 + tp_strlen ps + tp_count ps - 1
     + (if sint (tp_meta_count ps) > 0 then strlen_int (meta_count_param ps) else 0)"

text \<open>
  Filling the block \<open>m\<close> that \<open>apr_palloc\<close> returned, and the whole operation; the second
  result is \<open>*size\<close>.
\<close>

definition fill_request :: "string \<Rightarrow> tracker_request_parameters \<Rightarrow> block \<Rightarrow> block" where
  "fill_request cmd ps m =
     (let m = put_char 0 NUL m;
          m = c_strcpy 0 cmd m;
          pos = sint (strlen_int cmd);
          m = put_char pos (CHR '' '') m;
          pos = pos + 1;
          (pos, m) = (if sint (tp_meta_count ps) > 0
                      then (pos + sint (strlen_int (meta_count_param ps)),
                            c_strcpy pos (meta_count_param ps) m)
                      else (pos, m));
          (pos, m) = write_params (tp_head ps) pos m;
          m = put_char pos CR m;
          m = put_char (pos + 1) LF m
      in put_char (pos + 2) NUL m)"

definition mfs_tracker_build_request ::
  "'w apr \<Rightarrow> string \<Rightarrow> tracker_request_parameters \<Rightarrow> 'w \<Rightarrow> (block \<times> nat) \<times> 'w" where
  "mfs_tracker_build_request E cmd ps w =
     (let total_length = request_length cmd ps;
          size = size_of_int total_length;
          (mem, w) = apr_palloc E (size_of_int (total_length + 1)) w
      in ((fill_request cmd ps \<lparr>blk_mem = mem, blk_stray = []\<rparr>, size), w))"

text \<open>No store changes the size of the block.\<close>

lemma length_put_char [simp]: "length (blk_mem (put_char i c b)) = length (blk_mem b)"
  by (simp add: put_char_def)

lemma length_c_strcpy [simp]: "length (blk_mem (c_strcpy i s b)) = length (blk_mem b)"
  by (induction i s b rule: c_strcpy.induct) simp_all

lemma length_write_params:
  "write_params ps pos m = (pos', m') \<Longrightarrow> length (blk_mem m') = length (blk_mem m)"
  by (induction ps pos m rule: write_params.induct) (auto simp: Let_def split: if_splits)

lemma length_fill_request: "length (blk_mem (fill_request cmd ps m)) = length (blk_mem m)"
  by (auto simp: fill_request_def Let_def split: prod.splits dest!: length_write_params)

section \<open>Well-formed parameter lists\<close>

definition param_ok :: "tracker_request_parameter \<Rightarrow> bool" where
  "param_ok p \<longleftrightarrow> p_key_length p = strlen_int (p_key p) \<and> p_value_length p = strlen_int (p_value p)
     \<and> \<not> p_is_metadata p
     \<and> (\<forall>x \<in> set (p_key p) \<union> set (p_value p). x \<notin> {CHR ''&'', CHR ''='', CHR '' '', CR, LF, NUL})"

definition params_ok :: "tracker_request_parameters \<Rightarrow> bool" where
  "params_ok ps \<longleftrightarrow> tp_count ps = of_nat (length (tp_head ps))
     \<and> tp_strlen ps = (\<Sum>p \<leftarrow> tp_head ps. p_key_length p + p_value_length p + 1)
     \<and> (\<forall>p \<in> set (tp_head ps). param_ok p)"

lemma params_ok_init [mfs_inv]: "params_ok mfs_tracker_init_parameters"
  by (simp add: params_ok_def mfs_tracker_init_parameters_def)

lemma params_ok_add_pointers [mfs_inv]:
  "params_ok ps \<Longrightarrow>
   param_ok \<lparr>p_key = k, p_key_length = kl, p_value = v, p_value_length = vl, p_is_metadata = False\<rparr> \<Longrightarrow>
   params_ok (mfs_tracker_add_parameter_pointers ps k kl v vl)"
  by (auto simp: params_ok_def mfs_tracker_add_parameter_pointers_def)

lemma param_ok_encoded:
  "param_ok \<lparr>p_key = url_encode k, p_key_length = strlen_int (url_encode k),
     p_value = url_encode v, p_value_length = strlen_int (url_encode v), p_is_metadata = False\<rparr>"
proof -
  have "\<forall>x \<in> set (url_encode k) \<union> set (url_encode v).
      x \<notin> {CHR ''&'', CHR ''='', CHR '' '', CR, LF, NUL}"
    using url.enc_free by blast
  then show ?thesis
    unfolding param_ok_def tracker_request_parameter.select_convs by (intro conjI refl not_False_eq_True [THEN iffD2, OF TrueI])
qed

lemma add_parameter_eq:
  "mfs_tracker_add_parameter ps k v =
     mfs_tracker_add_parameter_pointers ps (url_encode k) (strlen_int (url_encode k))
       (url_encode v) (strlen_int (url_encode v))"
  by (simp add: mfs_tracker_add_parameter_def mfs_tracker_url_encode_eq strlen_int_def)

lemma params_ok_add_parameter [mfs_inv]:
  "params_ok ps \<Longrightarrow> params_ok (mfs_tracker_add_parameter ps k v)"
  by (simp only: add_parameter_eq) (rule params_ok_add_pointers [OF _ param_ok_encoded])

lemma params_ok_meta_count [mfs_inv]: "params_ok (ps\<lparr>tp_meta_count := n\<rparr>) = params_ok ps"
  by (simp add: params_ok_def)

lemma params_ok_add_meta_data [mfs_inv]:
  "params_ok ps \<Longrightarrow> params_ok (mfs_tracker_add_meta_data ps k v True)"
  by (simp add: mfs_tracker_add_meta_data_def Let_def params_ok_meta_count params_ok_add_parameter)

text \<open>
  A list that is only a source for copying may also hold raw metadata, which the copy encodes.
\<close>

definition source_ok :: "tracker_request_parameters \<Rightarrow> bool" where
  "source_ok src \<longleftrightarrow> (\<forall>p \<in> set (tp_head src). p_is_metadata p \<or> param_ok p)"

lemma param_ok_rebuild:
  "param_ok q \<Longrightarrow> param_ok \<lparr>p_key = p_key q, p_key_length = p_key_length q,
     p_value = p_value q, p_value_length = p_value_length q, p_is_metadata = False\<rparr>"
  unfolding param_ok_def tracker_request_parameter.select_convs by blast

lemma params_ok_copy_params:
  "\<forall>p \<in> set qs. p_is_metadata p \<or> param_ok p \<Longrightarrow> params_ok ps \<Longrightarrow> params_ok (copy_params qs ps)"
proof (induction qs arbitrary: ps)
  case (Cons q qs)
  have "params_ok (if p_is_metadata q then mfs_tracker_add_meta_data ps (p_key q) (p_value q) True
      else mfs_tracker_add_parameter_pointers ps (p_key q) (p_key_length q) (p_value q) (p_value_length q))"
    using Cons.prems
    by (cases "p_is_metadata q") (simp_all add: params_ok_add_meta_data params_ok_add_pointers param_ok_rebuild)
  then show ?case using Cons by simp
qed simp

lemma params_ok_copy [mfs_inv]:
  "source_ok src \<Longrightarrow> params_ok ps \<Longrightarrow> params_ok (mfs_tracker_copy_parameter_pointers src ps)"
  by (simp add: mfs_tracker_copy_parameter_pointers_def source_ok_def params_ok_copy_params)

section \<open>What the buffer holds\<close>

definition param_text :: "tracker_request_parameter \<Rightarrow> string" where
  "param_text p = p_key p @ CHR ''='' # p_value p"

definition params_text :: "tracker_request_parameters \<Rightarrow> string" where
  "params_text ps = (if sint (tp_meta_count ps) > 0 then meta_count_param ps else [])
     @ join (CHR ''&'') (map param_text (tp_head ps))"

definition request_line :: "string \<Rightarrow> tracker_request_parameters \<Rightarrow> string" where
  "request_line cmd ps = cmd @ '' '' @ params_text ps @ [CR, LF]"

text \<open>\<open>holds b n s\<close>: block \<open>b\<close> has \<open>n\<close> bytes, starts with \<open>s\<close> and saw no stray write.\<close>

definition holds :: "block \<Rightarrow> nat \<Rightarrow> string \<Rightarrow> bool" where
  "holds b n s \<longleftrightarrow> length (blk_mem b) = n \<and> take (length s) (blk_mem b) = s \<and> blk_stray b = []"

lemma holds_length: "holds b n s \<Longrightarrow> length s \<le> n"
  unfolding holds_def by (metis length_take min.cobounded1)

lemma holds_put:
  assumes "holds b n s" and "length s < n" and "pos = int (length s)"
  shows "holds (put_char pos c b) n (s @ [c])"
proof -
  have "take (length (s @ [c])) ((blk_mem b)[length s := c]) = take (length s) (blk_mem b) @ [c]"
    using assms(1,2) by (simp add: holds_def take_Suc_conv_app_nth)
  then show ?thesis using assms by (simp add: holds_def put_char_def)
qed

lemma holds_prefix: "holds b n (s @ t) \<Longrightarrow> holds b n s"
proof -
  assume h: "holds b n (s @ t)"
  then have "take (length s) (take (length (s @ t)) (blk_mem b)) = s"
    unfolding holds_def by (simp only: append_eq_conv_conj) simp
  then show "holds b n s" using h by (simp add: holds_def)
qed

lemma holds_strcpy:
  "holds b n s \<Longrightarrow> length s + length t < n \<Longrightarrow> pos = int (length s) \<Longrightarrow>
   holds (c_strcpy pos t b) n (s @ t)"
proof (induction t arbitrary: s pos b)
  case Nil
  then show ?case using holds_prefix [OF holds_put [OF Nil.prems(1) _ Nil.prems(3), of NUL]] by simp
next
  case (Cons c t)
  have "holds (put_char pos c b) n (s @ [c])"
    using Cons.prems by (intro holds_put) simp_all
  from Cons.IH [OF this, of "pos + 1"] Cons.prems show ?case by simp
qed

lemma sint_strlen: "length s \<le> INT_MAX \<Longrightarrow> sint (strlen_int s) = int (length s)"
  by (simp add: strlen_int_def sint_of_nat)

lemma write_params_holds:
  assumes "holds m n s" and "pos = int (length s)" and "\<forall>p \<in> set ps. param_ok p"
    and "length s + length (join (CHR ''&'') (map param_text ps)) < n" and "n \<le> INT_MAX"
  shows "\<exists>m'. write_params ps pos m = (int (length (s @ join (CHR ''&'') (map param_text ps))), m')
     \<and> holds m' n (s @ join (CHR ''&'') (map param_text ps))"
  using assms
proof (induction ps arbitrary: m s pos)
  case Nil
  then show ?case by simp
next
  case (Cons p ps)
  define m1 where "m1 = c_strcpy pos (p_key p) m"
  define m2 where "m2 = put_char (pos + int (length (p_key p))) (CHR ''='') m1"
  define m3 where "m3 = c_strcpy (pos + int (length (p_key p)) + 1) (p_value p) m2"
  have room: "length s + length (p_key p) + 1 + length (p_value p) < n"
    using Cons.prems(4) by (cases ps) (simp_all add: param_text_def)
  then have ok: "sint (p_key_length p) = int (length (p_key p))"
      "sint (p_value_length p) = int (length (p_value p))"
    using Cons.prems(3,5) by (simp_all add: param_ok_def sint_strlen)
  have f1: "holds m1 n (s @ p_key p)"
    using holds_strcpy [OF Cons.prems(1), of "p_key p"] Cons.prems(2) room by (simp add: m1_def)
  have f2: "holds m2 n ((s @ p_key p) @ [CHR ''=''])"
    unfolding m2_def using Cons.prems(2) room by (intro holds_put f1) simp_all
  have f3: "holds m3 n (s @ param_text p)"
    using holds_strcpy [OF f2, of "p_value p" "pos + int (length (p_key p)) + 1"] Cons.prems(2) room
    by (simp add: m3_def param_text_def)
  have unfold: "write_params (p # ps) pos m =
      (if ps \<noteq> [] then write_params ps (int (length (s @ param_text p)) + 1)
                         (put_char (int (length (s @ param_text p))) (CHR ''&'') m3)
       else write_params ps (int (length (s @ param_text p))) m3)"
    by (simp add: Let_def ok m1_def m2_def m3_def Cons.prems(2) param_text_def algebra_simps)
  show ?case
  proof (cases "ps = []")
    case True
    then show ?thesis using f3 unfold by simp
  next
    case False
    then obtain q qs where ps: "ps = q # qs" by (cases ps) auto
    define m4 where "m4 = put_char (int (length (s @ param_text p))) (CHR ''&'') m3"
    have f4: "holds m4 n ((s @ param_text p) @ [CHR ''&''])"
      unfolding m4_def using Cons.prems(4) by (intro holds_put f3) (simp_all add: ps)
    have "\<exists>m'. write_params ps (int (length (s @ param_text p)) + 1) m4
          = (int (length (((s @ param_text p) @ [CHR ''&'']) @ join (CHR ''&'') (map param_text ps))), m')
        \<and> holds m' n (((s @ param_text p) @ [CHR ''&'']) @ join (CHR ''&'') (map param_text ps))"
      using Cons.prems(3,4,5) by (intro Cons.IH [OF f4]) (simp_all add: ps)
    then show ?thesis using unfold False
      by (simp add: m4_def ps del: write_params.simps)
  qed
qed

lemma length_join_params:
  assumes "\<forall>p \<in> set ps. param_ok p" and "ps \<noteq> []"
  shows "of_nat (length (join (CHR ''&'') (map param_text ps))) =
    (\<Sum>p \<leftarrow> ps. p_key_length p + p_value_length p + 1) + of_nat (length ps) - 1"
  using assms
proof (induction ps)
  case (Cons p ps)
  then show ?case
    by (cases ps) (auto simp: param_text_def param_ok_def strlen_int_def algebra_simps)
qed simp

text \<open>The length computed beforehand is that of the line, as an \<open>int\<close>.\<close>

lemma request_length_line:
  assumes "params_ok ps" and "tp_head ps \<noteq> []"
  shows "request_length cmd ps = strlen_int (request_line cmd ps)"
proof -
  have "of_nat (length (join (CHR ''&'') (map param_text (tp_head ps)))) =
      tp_strlen ps + tp_count ps - 1"
    using assms length_join_params [of "tp_head ps"] by (auto simp: params_ok_def)
  then show ?thesis
    by (simp add: request_length_def request_line_def params_text_def strlen_int_def algebra_simps)
qed

text \<open>The two writes before the parameters: the command with its space, and the metadata count.\<close>

lemma build_prefix_holds:
  assumes "length (blk_mem m) = n" and "blk_stray m = []" and "length cmd + 1 < n" and "n \<le> INT_MAX"
  shows "holds (put_char (sint (strlen_int cmd)) (CHR '' '') (c_strcpy 0 cmd (put_char 0 NUL m))) n (cmd @ '' '')"
proof -
  have "holds m n []" using assms(1,2) by (simp add: holds_def)
  from holds_put [OF this, of 0 NUL] assms(3) have "holds (put_char 0 NUL m) n ([] @ [NUL])" by simp
  then have "holds (put_char 0 NUL m) n []" by (rule holds_prefix)
  from holds_strcpy [OF this, of cmd 0] assms(3) have "holds (c_strcpy 0 cmd (put_char 0 NUL m)) n cmd" by simp
  then show ?thesis using assms(3,4) by (intro holds_put) (simp_all add: sint_strlen)
qed

lemma holds_whole: "holds b (length s) s \<Longrightarrow> b = \<lparr>blk_mem = s, blk_stray = []\<rparr>"
  by (cases b) (auto simp: holds_def)

lemma build_finish:
  assumes "holds m (length s + 3) s" and "pos = int (length s)"
  shows "put_char (pos + 2) NUL (put_char (pos + 1) LF (put_char pos CR m))
    = \<lparr>blk_mem = s @ [CR, LF, NUL], blk_stray = []\<rparr>"
proof -
  let ?n = "length s + 3"
  have "holds (put_char pos CR m) ?n (s @ [CR])"
    by (rule holds_put [OF assms(1) _ assms(2)]) simp
  from holds_put [OF this, of "pos + 1" LF]
  have "holds (put_char (pos + 1) LF (put_char pos CR m)) ?n (s @ [CR, LF])" using assms(2) by simp
  from holds_put [OF this, of "pos + 2" NUL]
  have "holds (put_char (pos + 2) NUL (put_char (pos + 1) LF (put_char pos CR m))) ?n (s @ [CR, LF, NUL])"
    using assms(2) by simp
  moreover have "?n = length (s @ [CR, LF, NUL])" by simp
  ultimately show ?thesis by (simp only: holds_whole)
qed

lemma fill_request_line:
  assumes "length mem = length (request_line cmd ps) + 1" and "length mem \<le> INT_MAX"
    and "params_ok ps" and "tp_head ps \<noteq> []"
  shows "fill_request cmd ps \<lparr>blk_mem = mem, blk_stray = []\<rparr>
    = \<lparr>blk_mem = request_line cmd ps @ [NUL], blk_stray = []\<rparr>"
proof -
  let ?n = "length mem"
  define meta where "meta = (if sint (tp_meta_count ps) > 0 then meta_count_param ps else [])"
  define flds where "flds = join (CHR ''&'') (map param_text (tp_head ps))"
  define pre where "pre = (cmd @ '' '') @ meta"
  define m1 where "m1 = put_char (sint (strlen_int cmd)) (CHR '' '')
    (c_strcpy 0 cmd (put_char 0 NUL \<lparr>blk_mem = mem, blk_stray = []\<rparr>))"
  define m2 where "m2 = (if sint (tp_meta_count ps) > 0
    then c_strcpy (int (length cmd) + 1) (meta_count_param ps) m1 else m1)"
  have line: "request_line cmd ps = pre @ flds @ [CR, LF]"
    by (simp add: request_line_def params_text_def pre_def meta_def flds_def)
  then have lm: "?n = length cmd + 1 + length (meta @ flds) + 3"
    using assms(1) by (simp add: pre_def)
  have f1: "holds m1 ?n (cmd @ '' '')"
    unfolding m1_def using lm assms(2) by (intro build_prefix_holds) simp_all
  have f2: "holds m2 ?n pre"
    using holds_strcpy [OF f1, of "meta_count_param ps" "int (length cmd) + 1"] f1 lm
    by (auto simp: m2_def pre_def meta_def add.commute)
  have "length pre + length flds < ?n" using lm by (simp add: pre_def)
  then obtain m3 where m3: "write_params (tp_head ps) (int (length pre)) m2 = (int (length (pre @ flds)), m3)"
      "holds m3 ?n (pre @ flds)"
    using write_params_holds [OF f2 refl, of "tp_head ps"] assms(2,3)
    by (auto simp: params_ok_def flds_def)
  have pos: "sint (strlen_int cmd) = int (length cmd)"
      "sint (tp_meta_count ps) > 0 \<Longrightarrow> sint (strlen_int (meta_count_param ps)) = int (length (meta_count_param ps))"
    using lm assms(2) by (auto simp: meta_def intro!: sint_strlen)
  have "fill_request cmd ps \<lparr>blk_mem = mem, blk_stray = []\<rparr> =
      (let (pos, m) = write_params (tp_head ps) (int (length pre)) m2
       in put_char (pos + 2) NUL (put_char (pos + 1) LF (put_char pos CR m)))"
    unfolding fill_request_def Let_def m1_def [symmetric]
    by (simp add: m1_def [symmetric] m2_def pre_def meta_def pos add.commute add.left_commute)
  also have "\<dots> = \<lparr>blk_mem = (pre @ flds) @ [CR, LF, NUL], blk_stray = []\<rparr>"
    unfolding m3(1) Let_def prod.case
    by (rule build_finish [OF _ refl]) (use m3(2) lm in \<open>simp add: pre_def add.assoc\<close>)
  finally show ?thesis by (simp add: line)
qed

section \<open>Encoded requests\<close>

text \<open>The parameter lists a client of the interface can build for a request.\<close>

inductive params_built :: "tracker_request_parameters \<Rightarrow> bool" where
  init: "params_built mfs_tracker_init_parameters"
| add: "params_built ps \<Longrightarrow> params_built (mfs_tracker_add_parameter ps k v)"
| meta: "params_built ps \<Longrightarrow> params_built (mfs_tracker_add_meta_data ps k v True)"
| copy: "params_built ps \<Longrightarrow> source_ok src \<Longrightarrow> params_built (mfs_tracker_copy_parameter_pointers src ps)"

lemma params_built_ok: "params_built ps \<Longrightarrow> params_ok ps"
  by (induction rule: params_built.induct) (auto intro: mfs_inv)

text \<open>Sources for copying: raw metadata and encoded parameters.\<close>

lemma source_ok_init [mfs_inv]: "source_ok mfs_tracker_init_parameters"
  by (simp add: source_ok_def mfs_tracker_init_parameters_def)

lemma source_ok_add_parameter [mfs_inv]:
  "source_ok src \<Longrightarrow> source_ok (mfs_tracker_add_parameter src k v)"
  using param_ok_encoded
  by (auto simp: source_ok_def add_parameter_eq mfs_tracker_add_parameter_pointers_def)

lemma source_ok_add_raw_meta [mfs_inv]:
  "source_ok src \<Longrightarrow> source_ok (mfs_tracker_add_meta_data src k v False)"
  by (auto simp: source_ok_def mfs_tracker_add_meta_data_def)

lemma join_chars: "x \<in> set (join c xs) \<Longrightarrow> x = c \<or> (\<exists>y \<in> set xs. x \<in> set y)"
  by (induction c xs rule: join.induct) auto

lemma param_text_chars:
  "param_ok p \<Longrightarrow> x \<in> set (param_text p) \<Longrightarrow> x \<notin> {CHR ''&'', CHR '' '', CR, LF, NUL}"
  by (auto simp: param_ok_def param_text_def)

lemma show_int_chars: "x \<in> set (show_int n) \<Longrightarrow> x \<notin> {CHR ''&'', CHR '' '', CR, LF, NUL}"
  by (auto simp: show_int_def isdigit_def dest!: show_nat_digits split: if_splits)

lemma params_text_chars:
  assumes "params_ok ps" and "x \<in> set (params_text ps)"
  shows "x \<notin> {CHR '' '', CR, LF, NUL}"
proof -
  consider "x \<in> set (meta_count_param ps)" | "x = CHR ''&''"
    | p where "p \<in> set (tp_head ps)" "x \<in> set (param_text p)"
    using assms(2) by (auto simp: params_text_def dest!: join_chars split: if_splits)
  then show ?thesis
  proof cases
    case 1
    then show ?thesis using show_int_chars [of x "sint (tp_meta_count ps)"]
      by (auto simp: meta_count_param_def)
  next
    case 2
    then show ?thesis by simp
  next
    case 3
    with assms(1) param_text_chars [of p x] show ?thesis by (auto simp: params_ok_def)
  qed
qed

text \<open>What \<open>mfs_tracker_build_request\<close> returns for a list built by the operations.\<close>

lemma build_request_line:
  assumes "palloc_law E" and "params_built ps" and "tp_head ps \<noteq> []"
    and "length (request_line cmd ps) < INT_MAX"
  shows "mfs_tracker_build_request E cmd ps w =
    ((\<lparr>blk_mem = request_line cmd ps @ [NUL], blk_stray = []\<rparr>, length (request_line cmd ps)),
     snd (apr_palloc E (length (request_line cmd ps) + 1) w))"
proof -
  let ?n = "length (request_line cmd ps)"
  have len: "request_length cmd ps = of_nat ?n"
    using request_length_line [OF params_built_ok [OF assms(2)] assms(3)] by (simp add: strlen_int_def)
  have size: "size_of_int (request_length cmd ps) = ?n"
      "size_of_int (request_length cmd ps + 1) = ?n + 1"
    using size_of_int_of_nat [of ?n] size_of_int_of_nat [of "?n + 1"] assms(4)
    by (simp_all add: len add.commute)
  obtain mem w' where mem: "apr_palloc E (?n + 1) w = (mem, w')" by force
  with assms(1) have "length mem = ?n + 1"
    unfolding palloc_law_def by (metis fst_conv)
  from fill_request_line [OF this _ params_built_ok [OF assms(2)] assms(3)] this assms(4)
  show ?thesis
    using mem by (simp add: mfs_tracker_build_request_def Let_def size)
qed

section \<open>Properties\<close>

text \<open>
  C7: for every non-empty parameter list a client can build, as long as the line with its
  terminator fits an \<open>int\<close>, the allocated block is filled exactly: the command, a space, the
  \<open>key=value\<close> fields joined by \<open>&\<close> (after the metadata count, if there is metadata), CR,
  LF and the terminator are all it holds, no store falls outside it, and the size reported is
  that of the line.
\<close>

theorem build_request_correct:
  assumes "palloc_law E" and "params_built ps" and "tp_head ps \<noteq> []"
    and "length (request_line cmd ps) < INT_MAX"
  shows "fst (mfs_tracker_build_request E cmd ps w) =
    (\<lparr>blk_mem = request_line cmd ps @ [NUL], blk_stray = []\<rparr>, length (request_line cmd ps))"
  using build_request_line [OF assms] by simp

definition sample_params :: tracker_request_parameters where
  "sample_params = mfs_tracker_add_meta_data
     (mfs_tracker_add_parameter mfs_tracker_init_parameters ''a&b'' ''c d'') ''m'' ''1'' True"

lemma sample_params_built: "params_built sample_params"
  unfolding sample_params_def by (intro params_built.intros)

theorem build_request_correct_witness:
  "fst (mfs_tracker_build_request sim_apr ''TEST'' sample_params sim0) =
     (\<lparr>blk_mem = ''TEST plugin.meta.keys=1&a%26b=c+d&plugin.meta.key0=m&plugin.meta.value0=1'' @ [CR, LF, NUL],
       blk_stray = []\<rparr>, 75)"
proof -
  let ?line = "''TEST plugin.meta.keys=1&a%26b=c+d&plugin.meta.key0=m&plugin.meta.value0=1'' @ [CR, LF]"
  have ne: "tp_head sample_params \<noteq> []" by code_simp
  have line: "request_line ''TEST'' sample_params = ?line" by code_simp
  have len: "length ?line = 75" by simp
  then have "length (request_line ''TEST'' sample_params) < INT_MAX" by (simp only: line INT_MAX_def)
  from build_request_correct [OF sim_palloc_law sample_params_built ne this, of sim0]
  show ?thesis by (simp only: line len) simp
qed

text \<open>
  C26: no key or value a caller passes can break the request line: among the bytes handed to the
  socket the only CR and LF are the two at the end, and there is no NUL, whatever bytes the
  parameters hold, for every request whose line fits an \<open>int\<close>.
\<close>

theorem request_line_no_injection:
  assumes "palloc_law E" and "params_built ps" and "tp_head ps \<noteq> []" and "set cmd \<inter> {CR, LF, NUL} = {}"
    and "length (request_line cmd ps) < INT_MAX"
    and "fst (mfs_tracker_build_request E cmd ps w) = (request, n)"
  shows "filter (\<lambda>c. c \<in> {CR, LF, NUL}) (take n (blk_mem request)) = [CR, LF]"
proof -
  have "filter (\<lambda>c. c \<in> {CR, LF, NUL}) (params_text ps) = []"
    using params_text_chars [OF params_built_ok [OF assms(2)]] by (auto simp: filter_empty_conv)
  moreover have "filter (\<lambda>c. c \<in> {CR, LF, NUL}) cmd = []"
    using assms(4) by (auto simp: filter_empty_conv)
  moreover have "take n (blk_mem request) = request_line cmd ps"
    using assms(6) build_request_line [OF assms(1-3,5), of w] by auto
  ultimately show ?thesis by (simp add: request_line_def)
qed

definition hostile_params :: tracker_request_parameters where
  "hostile_params = mfs_tracker_add_parameter mfs_tracker_init_parameters ''key'' [CR, LF, CHR ''x'', CR, LF]"

theorem request_line_no_injection_witness:
  "\<exists>request n. fst (mfs_tracker_build_request sim_apr ''delete'' hostile_params sim0) = (request, n)
     \<and> filter (\<lambda>c. c \<in> {CR, LF, NUL}) (take n (blk_mem request)) = [CR, LF]"
proof -
  obtain request n where r: "fst (mfs_tracker_build_request sim_apr ''delete'' hostile_params sim0) = (request, n)"
    by force
  have b: "params_built hostile_params"
    unfolding hostile_params_def by (intro params_built.intros)
  have h: "tp_head hostile_params \<noteq> []" by code_simp
  have "length (request_line ''delete'' hostile_params) = 26" by code_simp
  then have l: "length (request_line ''delete'' hostile_params) < INT_MAX" by (simp add: INT_MAX_def)
  have "filter (\<lambda>c. c \<in> {CR, LF, NUL}) (take n (blk_mem request)) = [CR, LF]"
    by (rule request_line_no_injection [OF sim_palloc_law b h _ l r]) simp
  with r show ?thesis by blast
qed

text \<open>
  C38: with no parameter at all the size computed beforehand is one too small: \<open>apr_palloc\<close>
  is asked for three bytes more than the command, the space, CR and LF fill that block to its
  last byte, the terminator is stored one byte past its end, and the size reported leaves out
  the LF, so the line sent to the tracker is not ended.
\<close>

theorem build_request_empty_overflow:
  assumes "palloc_law E" and "length cmd + 3 < INT_MAX"
  shows "fst (mfs_tracker_build_request E cmd mfs_tracker_init_parameters w) =
    (\<lparr>blk_mem = cmd @ [CHR '' '', CR, LF], blk_stray = [(int (length cmd) + 3, NUL)]\<rparr>, length cmd + 2)"
proof -
  have len: "request_length cmd mfs_tracker_init_parameters = of_nat (length cmd + 2)"
    by (simp add: request_length_def mfs_tracker_init_parameters_def strlen_int_def)
  have size: "size_of_int (request_length cmd mfs_tracker_init_parameters) = length cmd + 2"
      "size_of_int (request_length cmd mfs_tracker_init_parameters + 1) = length cmd + 3"
    using size_of_int_of_nat [of "length cmd + 2"] size_of_int_of_nat [of "length cmd + 3"] assms(2)
    by (simp_all add: len add.commute)
  obtain mem w' where mem: "apr_palloc E (length cmd + 3) w = (mem, w')" by force
  with assms(1) have l: "length mem = length cmd + 3"
    unfolding palloc_law_def by (metis fst_conv)
  define m where "m = put_char (sint (strlen_int cmd)) (CHR '' '')
    (c_strcpy 0 cmd (put_char 0 NUL \<lparr>blk_mem = mem, blk_stray = []\<rparr>))"
  have m: "holds m (length cmd + 3) (cmd @ '' '')"
    unfolding m_def using l assms(2) by (intro build_prefix_holds) simp_all
  from holds_put [OF this, of "int (length cmd) + 1" CR]
  have "holds (put_char (int (length cmd) + 1) CR m) (length cmd + 3) (cmd @ [CHR '' '', CR])" by simp
  from holds_put [OF this, of "int (length cmd) + 2" LF]
  have "holds (put_char (int (length cmd) + 2) LF (put_char (int (length cmd) + 1) CR m))
      (length cmd + 3) (cmd @ [CHR '' '', CR, LF])" by simp
  moreover have "length cmd + 3 = length (cmd @ [CHR '' '', CR, LF])" by simp
  ultimately have whole: "put_char (int (length cmd) + 2) LF (put_char (int (length cmd) + 1) CR m)
      = \<lparr>blk_mem = cmd @ [CHR '' '', CR, LF], blk_stray = []\<rparr>" by (simp only: holds_whole)
  have "fill_request cmd mfs_tracker_init_parameters \<lparr>blk_mem = mem, blk_stray = []\<rparr> =
      put_char (int (length cmd) + 3) NUL
        (put_char (int (length cmd) + 2) LF (put_char (int (length cmd) + 1) CR m))"
    using assms(2) by (simp add: fill_request_def Let_def mfs_tracker_init_parameters_def m_def sint_strlen add.commute)
  also have "\<dots> = \<lparr>blk_mem = cmd @ [CHR '' '', CR, LF], blk_stray = [(int (length cmd) + 3, NUL)]\<rparr>"
    unfolding whole by (simp add: put_char_def)
  finally show ?thesis
    using mem by (simp add: mfs_tracker_build_request_def Let_def size)
qed

theorem build_request_empty_overflow_witness:
  "fst (mfs_tracker_build_request sim_apr ''sleep'' mfs_tracker_init_parameters sim0) =
    (\<lparr>blk_mem = ''sleep'' @ [CHR '' '', CR, LF], blk_stray = [(8, NUL)]\<rparr>, 7)"
  using build_request_empty_overflow [OF sim_palloc_law, of "''sleep''" sim0] by (simp add: INT_MAX_def)

end
