(* ===== verification/Response.thy ===== *)
theory Response
  imports Params
begin

text \<open>
  The tracker's reply: the scanning helpers and \<open>mfs_tracker_parse_response\<close>, lines 311 to 428
  of \<open>src/src/tracker.c\<close>. The reply is a memory block \<open>buf\<close> and the size the caller gives;
  the C strings inside it end at the first NUL.
\<close>

section \<open>The result table\<close>

text \<open>
  \<open>apr_hash_t\<close> with byte-string keys. The values are buffers; reading one as a C string stops
  at its first NUL.
\<close>

type_synonym apr_hash = "string \<rightharpoonup> string"

definition hash_get :: "apr_hash \<Rightarrow> string \<Rightarrow> string option" where
  "hash_get h k = map_option c_str (h k)"

definition hash_set :: "apr_hash \<Rightarrow> string \<Rightarrow> string \<Rightarrow> apr_hash" where
  "hash_set h k v = h(k \<mapsto> v)"

definition MFS_TRACKER_ERROR_CODE :: string where "MFS_TRACKER_ERROR_CODE = ''ERROR_CODE''"
definition MFS_TRACKER_ERROR_DESC :: string where "MFS_TRACKER_ERROR_DESC = ''ERROR_DESC''"

section \<open>Scanning\<close>

text \<open>\<open>while(buf_count < buf_size && P(buf[buf_count])) buf_count++;\<close>\<close>

function scan_loop :: "(char \<Rightarrow> bool) \<Rightarrow> string \<Rightarrow> nat \<Rightarrow> nat \<Rightarrow> nat" where
  "scan_loop P buf buf_size buf_count =
     (if buf_count < buf_size \<and> P (buf ! buf_count)
      then scan_loop P buf buf_size (buf_count + 1) else buf_count)"
  by pat_completeness auto
termination
  by (relation "measure (\<lambda>(P, buf, n, k). n - k)") auto

declare scan_loop.simps [simp del]

definition skip_char :: "string \<Rightarrow> nat \<Rightarrow> char \<Rightarrow> int" where
  "skip_char buf buf_size c =
     (let buf_count = scan_loop (\<lambda>x. x = c) buf buf_size 0
      in if buf_count = buf_size then -1 else int buf_count)"

definition skip_space_or_number :: "string \<Rightarrow> nat \<Rightarrow> int" where
  "skip_space_or_number buf buf_size =
     (let buf_count = scan_loop (\<lambda>x. x = CHR '' '' \<or> isdigit x) buf buf_size 0
      in if buf_count = buf_size then -1 else int buf_count)"

definition skip_not_char :: "string \<Rightarrow> nat \<Rightarrow> char \<Rightarrow> int" where
  "skip_not_char buf buf_size c =
     (let buf_count = scan_loop (\<lambda>x. x \<noteq> c) buf buf_size 0
      in if buf_count = buf_size then -1 else int buf_count)"

text \<open>\<open>skip_not_char_in_str\<close> works on a C string, whose terminator ends the loop.\<close>

definition skip_not_char_in_str :: "string \<Rightarrow> char \<Rightarrow> int" where
  "skip_not_char_in_str s c =
     (let buf_count = scan_loop (\<lambda>x. x \<noteq> c) s (length s) 0
      in if buf_count = length s then -1 else int buf_count)"

lemma drop_take_Cons:
  "k < n \<Longrightarrow> n \<le> length buf \<Longrightarrow> drop k (take n buf) = buf ! k # drop (k + 1) (take n buf)"
  by (metis Suc_eq_plus1 Cons_nth_drop_Suc length_take min.absorb2 nth_take)

lemma scan_loop_takeWhile:
  "k \<le> n \<Longrightarrow> n \<le> length buf \<Longrightarrow>
   scan_loop P buf n k = k + length (takeWhile P (drop k (take n buf)))"
proof (induction P buf n k rule: scan_loop.induct)
  case (1 P buf n k)
  show ?case
  proof (cases "k < n")
    case True
    with 1 drop_take_Cons [of k n buf] show ?thesis
      by (simp add: scan_loop.simps [of P buf n k])
  next
    case False
    with 1 show ?thesis by (auto simp: scan_loop.simps [of P buf n k] scan_loop.simps [of P buf n n])
  qed
qed

lemma scan_loop_prefix:
  assumes "buf = pre @ c # post" and "\<forall>x \<in> set pre. P x" and "\<not> P c" and "length pre < n"
    and "n \<le> length buf"
  shows "scan_loop P buf n 0 = length pre"
proof -
  have "take n buf = pre @ c # take (n - length pre - 1) post"
    using assms(1,4) by (simp add: take_Cons')
  then show ?thesis
    using assms by (simp add: scan_loop_takeWhile takeWhile_append takeWhile_eq_all_conv [THEN iffD2])
qed

lemma scan_loop_all:
  assumes "\<forall>x \<in> set (take n buf). P x" and "n \<le> length buf"
  shows "scan_loop P buf n 0 = n"
  using assms by (simp add: scan_loop_takeWhile takeWhile_eq_all_conv [THEN iffD2])

section \<open>Parsing\<close>

text \<open>The loop over the tokens of the parameters of an OK reply.\<close>

fun parse_pairs :: "string list \<Rightarrow> bool \<Rightarrow> apr_hash \<Rightarrow> apr_status \<times> bool \<times> apr_hash" where
  "parse_pairs [] ok result = (APR_SUCCESS, True, result)"
| "parse_pairs (pair # pairs) ok result =
     (let next_pos = skip_not_char_in_str pair (CHR ''='')
      in if next_pos = -1 then (APR_EFTYPE, ok, result)
         else parse_pairs pairs ok
                (hash_set result (take (nat next_pos) pair)
                   (mfs_tracker_url_decode (drop (nat next_pos + 1) pair))))"

text \<open>
  \<open>ok\<close> and \<open>result\<close> are in-out parameters: the values before the call come in, and an
  error leaves \<open>ok\<close> as it was and \<open>result\<close> as far as it was filled. The two definitions
  below are the branch for \<open>OK\<close> and the branch for \<open>ERR\<close>, after the keyword. The NUL that a
  reply with neither keyword gets at its fourth byte, for the log message, falls into the buffer
  (it has at least four bytes) and is not read again; the result does not show it.
\<close>

definition parse_ok_branch ::
  "'w apr \<Rightarrow> string \<Rightarrow> nat \<Rightarrow> bool \<Rightarrow> apr_hash \<Rightarrow> apr_status \<times> bool \<times> apr_hash" where
  "parse_ok_branch E buf buf_left ok result =
     (let next_pos = skip_space_or_number buf buf_left
      in if next_pos = -1 then (APR_EFTYPE, ok, result)
         else parse_pairs (apr_strtok E (c_str (drop (nat next_pos) buf)) (CHR ''&'')) ok result)"

definition parse_err_branch ::
  "string \<Rightarrow> nat \<Rightarrow> bool \<Rightarrow> apr_hash \<Rightarrow> apr_status \<times> bool \<times> apr_hash" where
  "parse_err_branch buf buf_left ok result =
     (let next_pos = skip_char buf buf_left (CHR '' '')
      in if next_pos = -1 then (APR_EFTYPE, ok, result)
         else let buf = drop (nat next_pos) buf;
                  buf_left = buf_left - nat next_pos;
                  next_pos = skip_not_char buf buf_left (CHR '' '')
              in if next_pos = -1 then (APR_EFTYPE, ok, result)
                 else let error_code = buf[nat next_pos := NUL];
                          buf = drop (nat next_pos + 1) buf;
                          buf_left = buf_left - (nat next_pos + 1);
                          next_pos = skip_char buf buf_left (CHR '' '')
                      in if next_pos = -1 then (APR_EFTYPE, ok, result)
                         else (APR_SUCCESS, False,
                               hash_set (hash_set result MFS_TRACKER_ERROR_CODE
                                   (mfs_tracker_url_decode (c_str error_code)))
                                 MFS_TRACKER_ERROR_DESC
                                 (mfs_tracker_url_decode (c_str (drop (nat next_pos) buf)))))"

definition mfs_tracker_parse_response ::
  "'w apr \<Rightarrow> string \<Rightarrow> nat \<Rightarrow> bool \<Rightarrow> apr_hash \<Rightarrow> apr_status \<times> bool \<times> apr_hash" where
  "mfs_tracker_parse_response E final_buffer final_buffer_size ok result =
     (if final_buffer_size < 4 then (APR_EFTYPE, ok, result)
      else if take 3 final_buffer = ''OK '' then
        parse_ok_branch E (drop 3 final_buffer) (final_buffer_size - 3) ok result
      else if final_buffer_size > 4 \<and> take 4 final_buffer = ''ERR '' then
        parse_err_branch (drop 4 final_buffer) (final_buffer_size - 4) ok result
      else (APR_EFTYPE, ok, result))"

section \<open>Ranges and results\<close>

lemma scan_loop_le: "k \<le> n \<Longrightarrow> scan_loop P buf n k \<le> n"
proof (induction P buf n k rule: scan_loop.induct)
  case (1 P buf n k)
  then show ?case by (simp add: scan_loop.simps [of P buf n k])
qed

lemma scan_loop_less: "scan_loop P buf n 0 \<noteq> n \<Longrightarrow> scan_loop P buf n 0 < n"
  using scan_loop_le [of 0 n P buf] by simp

lemma skip_ranges:
  "skip_char buf n c = -1 \<or> 0 \<le> skip_char buf n c \<and> skip_char buf n c < int n"
  "skip_space_or_number buf n = -1 \<or> 0 \<le> skip_space_or_number buf n \<and> skip_space_or_number buf n < int n"
  "skip_not_char buf n c = -1 \<or> 0 \<le> skip_not_char buf n c \<and> skip_not_char buf n c < int n"
  by (auto simp: skip_char_def skip_space_or_number_def skip_not_char_def Let_def scan_loop_less)

text \<open>
  The three ways a parse can end: an OK reply, an ERR reply with code and description in the
  table, or a malformed reply that leaves \<open>ok\<close> alone.
\<close>

definition reply_outcome :: "bool \<Rightarrow> apr_status \<times> bool \<times> apr_hash \<Rightarrow> bool" where
  "reply_outcome ok r \<longleftrightarrow>
     fst r = APR_SUCCESS \<and> fst (snd r)
     \<or> fst r = APR_SUCCESS \<and> \<not> fst (snd r)
       \<and> MFS_TRACKER_ERROR_CODE \<in> dom (snd (snd r)) \<and> MFS_TRACKER_ERROR_DESC \<in> dom (snd (snd r))
     \<or> fst r = APR_EFTYPE \<and> fst (snd r) = ok"

lemma outcome_if:
  "reply_outcome ok x \<Longrightarrow> reply_outcome ok y \<Longrightarrow> reply_outcome ok (if b then x else y)"
  by simp

lemma outcome_eftype: "reply_outcome ok (APR_EFTYPE, ok, h)"
  by (simp add: reply_outcome_def)

lemma outcome_err:
  "reply_outcome ok (APR_SUCCESS, False,
     hash_set (hash_set h MFS_TRACKER_ERROR_CODE c) MFS_TRACKER_ERROR_DESC d)"
  by (simp add: reply_outcome_def hash_set_def)

lemmas outcome_intros = outcome_if outcome_eftype outcome_err

lemma parse_pairs_outcome: "reply_outcome ok (parse_pairs pairs ok h)"
proof (induction pairs arbitrary: h)
  case Nil
  show ?case by (simp add: reply_outcome_def)
next
  case (Cons pair pairs)
  show ?case
    unfolding parse_pairs.simps Let_def by (intro outcome_intros Cons.IH)
qed

lemma parse_response_outcome: "reply_outcome ok (mfs_tracker_parse_response E buf n ok h)"
  unfolding mfs_tracker_parse_response_def parse_ok_branch_def parse_err_branch_def Let_def
  by (intro outcome_intros parse_pairs_outcome)

section \<open>Replies that parse\<close>

text \<open>The parameters of an OK reply, and what they add to the result table.\<close>

definition reply_text :: "(string \<times> string) list \<Rightarrow> string" where
  "reply_text kvs = join (CHR ''&'') (map (\<lambda>(k, v). url_encode k @ CHR ''='' # url_encode v) kvs)"

definition reply_table :: "(string \<times> string) list \<Rightarrow> apr_hash" where
  "reply_table kvs = map_of (rev (map (\<lambda>(k, v). (url_encode k, v)) kvs))"

lemma reply_table_Cons:
  "h ++ reply_table ((k, v) # kvs) = hash_set h (url_encode k) v ++ reply_table kvs"
  by (rule ext) (simp add: reply_table_def map_add_def hash_set_def split: option.split)

lemma skip_not_char_in_str_field:
  "skip_not_char_in_str (url_encode k @ CHR ''='' # t) (CHR ''='') = int (length (url_encode k))"
proof -
  have "scan_loop (\<lambda>x. x \<noteq> CHR ''='') (url_encode k @ CHR ''='' # t)
      (length (url_encode k @ CHR ''='' # t)) 0 = length (url_encode k)"
    using url.enc_not_mem [of "CHR ''=''" k]
    by (intro scan_loop_prefix [where c = "CHR ''=''" and post = t]) auto
  then show ?thesis by (simp add: skip_not_char_in_str_def)
qed

lemma parse_pairs_fields:
  "parse_pairs (map (\<lambda>(k, v). url_encode k @ CHR ''='' # url_encode v) kvs) ok h =
     (APR_SUCCESS, True, h ++ reply_table kvs)"
proof (induction kvs arbitrary: h)
  case Nil
  then show ?case by (simp add: reply_table_def)
next
  case (Cons kv kvs)
  obtain k v where kv: "kv = (k, v)" by force
  show ?case
    by (simp add: kv skip_not_char_in_str_field url.dec_enc reply_table_Cons Cons.IH)
qed

lemma strtok_fields:
  assumes "strtok_law E"
  shows "apr_strtok E (reply_text kvs) (CHR ''&'') =
    map (\<lambda>(k, v). url_encode k @ CHR ''='' # url_encode v) kvs"
proof -
  let ?fs = "map (\<lambda>(k, v). url_encode k @ CHR ''='' # url_encode v) kvs"
  have "CHR ''&'' \<notin> set x" if "x \<in> set ?fs" for x
    using that url.enc_not_mem [of "CHR ''&''"] by auto
  then have "apr_strtok E (join (CHR ''&'') ?fs) (CHR ''&'') = filter (\<lambda>x. x \<noteq> []) ?fs"
    using assms unfolding strtok_law_def by blast
  moreover have "filter (\<lambda>x. x \<noteq> []) ?fs = ?fs" by (auto simp: filter_id_conv)
  ultimately show ?thesis by (simp add: reply_text_def)
qed

lemma reply_text_no_NUL: "NUL \<notin> set (reply_text kvs)"
  using url.enc_not_mem [of NUL] by (auto simp: reply_text_def dest!: join_chars)

definition fid_char :: "char \<Rightarrow> bool" where
  "fid_char c \<longleftrightarrow> c = CHR '' '' \<or> isdigit c"

lemma skip_fid:
  assumes "\<forall>c \<in> set fid. fid_char c" and "t = [] \<or> \<not> fid_char (hd t)"
    and "length fid + length t < n" and "n \<le> length fid + length t + 1 + length rest"
  shows "skip_space_or_number (fid @ t @ NUL # rest) n = int (length fid)"
proof -
  have "\<exists>c post. t @ NUL # rest = c # post \<and> \<not> fid_char c"
    using assms(2) by (cases t) (auto simp: fid_char_def isdigit_def)
  then obtain c post where c: "t @ NUL # rest = c # post" "\<not> fid_char c" by blast
  have "n \<le> length (fid @ t @ NUL # rest)" using assms(4) by simp
  then have "scan_loop fid_char (fid @ t @ NUL # rest) n 0 = length fid"
    using scan_loop_prefix [of _ fid c post fid_char n] assms(1,3) c by simp
  moreover have "fid_char = (\<lambda>x. x = CHR '' '' \<or> isdigit x)"
    by (rule ext) (simp add: fid_char_def)
  ultimately show ?thesis
    using assms(3) by (simp add: skip_space_or_number_def)
qed

lemma parse_ok_reply:
  assumes "strtok_law E" and "\<forall>c \<in> set fid. fid_char c"
    and "reply_text kvs = [] \<or> \<not> fid_char (hd (reply_text kvs))"
    and "length fid + length (reply_text kvs) + 3 < n"
    and "n \<le> length fid + length (reply_text kvs) + 4 + length rest"
  shows "mfs_tracker_parse_response E (''OK '' @ fid @ reply_text kvs @ NUL # rest) n ok h =
    (APR_SUCCESS, True, h ++ reply_table kvs)"
proof -
  have skip: "skip_space_or_number (fid @ reply_text kvs @ NUL # rest) (n - 3) = int (length fid)"
    by (rule skip_fid) (use assms in auto)
  have "c_str (reply_text kvs @ NUL # rest) = reply_text kvs"
    by (rule c_str_append_NUL) (rule reply_text_no_NUL)
  then have "parse_ok_branch E (fid @ reply_text kvs @ NUL # rest) (n - 3) ok h =
      (APR_SUCCESS, True, h ++ reply_table kvs)"
    by (simp add: parse_ok_branch_def skip strtok_fields [OF assms(1)] parse_pairs_fields)
  moreover have "\<not> n < 4" using assms(4) by simp
  ultimately show ?thesis by (simp add: mfs_tracker_parse_response_def)
qed

lemma skip_char_none:
  "s = c # post \<Longrightarrow> c \<noteq> d \<Longrightarrow> 0 < n \<Longrightarrow> skip_char s n d = 0"
  by (simp add: skip_char_def scan_loop.simps [of _ _ n 0])

lemma skip_not_char_word:
  assumes "d \<notin> set code" and "length code < n" and "n \<le> length code + 1 + length t"
  shows "skip_not_char (code @ d # t) n d = int (length code)"
proof -
  have "scan_loop (\<lambda>x. x \<noteq> d) (code @ d # t) n 0 = length code"
    by (rule scan_loop_prefix [of _ code d t]) (use assms in auto)
  then show ?thesis using assms(2) by (simp add: skip_not_char_def)
qed

lemma parse_err_reply:
  assumes "code \<noteq> []" and "CHR '' '' \<notin> set code" and "NUL \<notin> set code"
    and "desc = [] \<or> hd desc \<noteq> CHR '' ''" and "NUL \<notin> set desc"
    and "length code + length desc + 5 < n"
    and "n \<le> length code + length desc + 6 + length rest"
  shows "mfs_tracker_parse_response E (''ERR '' @ code @ CHR '' '' # desc @ NUL # rest) n ok h =
    (APR_SUCCESS, False, hash_set (hash_set h MFS_TRACKER_ERROR_CODE (mfs_tracker_url_decode code))
                           MFS_TRACKER_ERROR_DESC (mfs_tracker_url_decode desc))"
proof -
  define tail where "tail = desc @ NUL # rest"
  obtain d ds where code: "code = d # ds" "d \<noteq> CHR '' ''" using assms(1,2) by (cases code) auto
  have "\<exists>c post. tail = c # post \<and> c \<noteq> CHR '' ''"
    using assms(4) by (cases desc) (auto simp: tail_def)
  then obtain c post where c: "tail = c # post" "c \<noteq> CHR '' ''" by blast
  have s1: "skip_char (code @ CHR '' '' # tail) (n - 4) (CHR '' '') = 0"
    using code assms(6) by (intro skip_char_none [of _ d "ds @ CHR '' '' # tail"]) auto
  have s2: "skip_not_char (code @ CHR '' '' # tail) (n - 4) (CHR '' '') = int (length code)"
    by (rule skip_not_char_word) (use assms in \<open>auto simp: tail_def\<close>)
  have s3: "skip_char tail (n - 4 - (length code + 1)) (CHR '' '') = 0"
    using c assms(6) by (intro skip_char_none [of _ c post]) auto
  have e: "c_str ((code @ CHR '' '' # tail)[length code := NUL]) = code"
    using assms(3) c_str_append_NUL [of code tail] by simp
  have d: "c_str tail = desc" unfolding tail_def using assms(5) by (rule c_str_append_NUL)
  have "parse_err_branch (code @ CHR '' '' # tail) (n - 4) ok h =
      (APR_SUCCESS, False, hash_set (hash_set h MFS_TRACKER_ERROR_CODE (mfs_tracker_url_decode code))
                             MFS_TRACKER_ERROR_DESC (mfs_tracker_url_decode desc))"
    using s3 e by (simp add: parse_err_branch_def s1 s2 d)
  moreover have "\<not> n < 4" "4 < n" using assms(6) by auto
  ultimately show ?thesis by (simp add: mfs_tracker_parse_response_def tail_def)
qed

end
