(* ===== verification/Tracker.thy ===== *)
theory Tracker
  imports Response
begin

text \<open>
  One tracker: its description, a connection to it and one request over a connection,
  lines 29 to 77, 152 to 216 and 431 to 436 of \<open>src/src/tracker.c\<close>. A request may never
  return (a peer may send for ever without ending the line), so its result is an option;
  \<open>None\<close> is not returning.
\<close>

section \<open>State\<close>

record tracker_info =
  ti_address :: string
  ti_port :: int
  ti_sa :: handle

record tracker_connection =
  tc_tracker :: tracker_info
  tc_connected :: bool
  tc_socket :: handle
  tc_pool :: handle

definition MFS_READ_BUFFER_SIZE :: nat where "MFS_READ_BUFFER_SIZE = 4096"

section \<open>Operations\<close>

text \<open>The structure is filled only when the address resolves.\<close>

definition mfs_tracker_init2 ::
  "'w apr \<Rightarrow> string \<Rightarrow> int \<Rightarrow> tracker_info \<Rightarrow> 'w \<Rightarrow> (apr_status \<times> tracker_info) \<times> 'w" where
  "mfs_tracker_init2 E address port tracker w =
     (case apr_sockaddr_info_get E address port w of
        ((rv, sa), w) \<Rightarrow>
          if rv \<noteq> APR_SUCCESS then ((rv, tracker), w)
          else ((rv, tracker\<lparr>ti_address := address, ti_port := port, ti_sa := sa\<rparr>), w))"

text \<open>\<open>t\<close> is the block \<open>apr_palloc\<close> returned, its contents unspecified.\<close>

definition mfs_tracker_init ::
  "'w apr \<Rightarrow> string \<Rightarrow> int \<Rightarrow> tracker_info \<Rightarrow> 'w \<Rightarrow> (apr_status \<times> tracker_info) \<times> 'w" where
  "mfs_tracker_init E address port t w = mfs_tracker_init2 E address port t w"

text \<open>\<open>pool\<close> is the memory pool the connection will own. \<open>Inl\<close> is the status of a failure.\<close>

definition mfs_tracker_connect ::
  "'w apr \<Rightarrow> tracker_info \<Rightarrow> handle \<Rightarrow> int \<Rightarrow> 'w \<Rightarrow> (apr_status + tracker_connection) \<times> 'w" where
  "mfs_tracker_connect E tracker pool timeout w =
     (case apr_socket_create E w of
        ((rv, s), w) \<Rightarrow>
          if rv \<noteq> APR_SUCCESS then (Inl rv, w)
          else let w = apr_socket_timeout_set E s timeout w
               in case apr_socket_connect E s (ti_sa tracker) w of
                    (rv, w) \<Rightarrow>
                      if rv \<noteq> APR_SUCCESS then (Inl rv, w)
                      else (Inr \<lparr>tc_tracker = tracker, tc_connected = True,
                                 tc_socket = s, tc_pool = pool\<rparr>, w))"

definition mfs_tracker_destroy_connection :: "'w apr \<Rightarrow> tracker_connection \<Rightarrow> 'w \<Rightarrow> 'w" where
  "mfs_tracker_destroy_connection E connection w =
     apr_pool_destroy E (tc_pool connection) (apr_socket_close E (tc_socket connection) w)"

text \<open>
  The receive loop. \<open>fin\<close> is \<open>final_buffer\<close>, \<open>None\<close> for NULL. The result is the
  status of a failure or the complete buffer.
\<close>

partial_function (option) recv_loop ::
  "'w apr \<Rightarrow> handle \<Rightarrow> string option \<Rightarrow> 'w \<Rightarrow> ((apr_status + string) \<times> 'w) option" where
  "recv_loop E s fin w =
     (case apr_socket_recv E s MFS_READ_BUFFER_SIZE w of
        ((rv, buf), w) \<Rightarrow>
          if rv \<noteq> APR_SUCCESS then Some (Inl rv, w)
          else if buf \<noteq> [] \<and> last buf = LF \<and> fin = None then Some (Inr buf, w)
          else if buf = [] then Some (Inl APR_EOF, w)
          else let final = (case fin of None \<Rightarrow> buf | Some b \<Rightarrow> b @ buf)
               in if last final = LF then Some (Inr final, w)
                  else recv_loop E s (Some final) w)"

text \<open>The terminating CR is replaced by NUL; a line without it is refused.\<close>

definition terminate_reply :: "string \<Rightarrow> apr_status + string" where
  "terminate_reply final =
     (if length final > 1 \<and> final ! (length final - 2) = CR
      then Inr (final[length final - 2 := NUL]) else Inl APR_EFTYPE)"

text \<open>Sending the request line: the part before the receive loop.\<close>

definition send_request ::
  "'w apr \<Rightarrow> tracker_connection \<Rightarrow> string \<Rightarrow> tracker_request_parameters \<Rightarrow> int \<Rightarrow> 'w
     \<Rightarrow> apr_status \<times> 'w" where
  "send_request E connection cmd parameters timeout w =
     (let w = apr_socket_timeout_set E (tc_socket connection) timeout w;
          ((request, request_size), w) = mfs_tracker_build_request E cmd parameters w
      in apr_socket_send E (tc_socket connection) (take request_size (blk_mem request)) w)"

definition mfs_tracker_request ::
  "'w apr \<Rightarrow> tracker_connection \<Rightarrow> string \<Rightarrow> tracker_request_parameters \<Rightarrow> bool \<Rightarrow> apr_hash \<Rightarrow> int \<Rightarrow> 'w
     \<Rightarrow> ((apr_status \<times> bool \<times> apr_hash) \<times> 'w) option" where
  "mfs_tracker_request E connection cmd parameters ok result timeout w =
     (case send_request E connection cmd parameters timeout w of
        (rv, w) \<Rightarrow>
          if rv \<noteq> APR_SUCCESS then Some ((rv, ok, result), w)
          else do {
            (r, w) \<leftarrow> recv_loop E (tc_socket connection) None w;
            (case r of
               Inl rv \<Rightarrow> Some ((rv, ok, result), w)
             | Inr final \<Rightarrow>
                 (case terminate_reply final of
                    Inl rv \<Rightarrow> Some ((rv, ok, result), w)
                  | Inr buf \<Rightarrow> Some (mfs_tracker_parse_response E buf (length final) ok result, w)))
          })"

section \<open>The receive loop\<close>

text \<open>\<open>recvs E s w chunks w'\<close>: successive receives from \<open>w\<close> return these chunks.\<close>

fun recvs :: "'w apr \<Rightarrow> handle \<Rightarrow> 'w \<Rightarrow> string list \<Rightarrow> 'w \<Rightarrow> bool" where
  "recvs E s w [] w' = (w = w')"
| "recvs E s w (c # cs) w' =
     (case apr_socket_recv E s MFS_READ_BUFFER_SIZE w of
        ((st, b), w1) \<Rightarrow> st = APR_SUCCESS \<and> b = c \<and> recvs E s w1 cs w')"

lemma recv_loop_step:
  assumes "apr_socket_recv E s MFS_READ_BUFFER_SIZE w = ((APR_SUCCESS, c), w1)"
    and "c \<noteq> []" and "last c \<noteq> LF"
  shows "recv_loop E s fin w = recv_loop E s (Some (case fin of None \<Rightarrow> c | Some b \<Rightarrow> b @ c)) w1"
  using assms by (subst recv_loop.simps) (auto split: option.splits)

lemma recv_loop_last:
  assumes "apr_socket_recv E s MFS_READ_BUFFER_SIZE w = ((APR_SUCCESS, c), w1)"
    and "c \<noteq> []" and "last c = LF"
  shows "recv_loop E s fin w = Some (Inr (case fin of None \<Rightarrow> c | Some b \<Rightarrow> b @ c), w1)"
  using assms by (subst recv_loop.simps) (auto split: option.splits)

lemma recv_loop_chunks:
  assumes "recvs E s w (cs @ [c]) w'" and "\<forall>x \<in> set cs. x \<noteq> [] \<and> last x \<noteq> LF"
    and "c \<noteq> []" and "last c = LF"
  shows "recv_loop E s fin w =
    Some (Inr ((case fin of None \<Rightarrow> [] | Some b \<Rightarrow> b) @ concat cs @ c), w')"
  using assms
proof (induction cs arbitrary: w fin)
  case Nil
  then show ?case
    using recv_loop_last [of E s w c _ fin] by (auto split: prod.splits option.splits)
next
  case (Cons x cs)
  obtain w1 where w1: "apr_socket_recv E s MFS_READ_BUFFER_SIZE w = ((APR_SUCCESS, x), w1)"
      "recvs E s w1 (cs @ [c]) w'"
    using Cons.prems(1) by (auto split: prod.splits)
  with Cons show ?case
    by (auto simp: recv_loop_step [OF w1(1)] split: option.splits)
qed

text \<open>A failing or empty receive ends the loop with a status.\<close>

lemma recv_loop_failure:
  assumes "recvs E s w cs w1" and "\<forall>x \<in> set cs. x \<noteq> [] \<and> last x \<noteq> LF"
    and "apr_socket_recv E s MFS_READ_BUFFER_SIZE w1 = ((st, b), w2)" and "st \<noteq> APR_SUCCESS \<or> b = []"
  shows "recv_loop E s fin w = Some (Inl (if st \<noteq> APR_SUCCESS then st else APR_EOF), w2)"
  using assms
proof (induction cs arbitrary: w fin)
  case Nil
  then show ?case by (subst recv_loop.simps) auto
next
  case (Cons x cs)
  obtain w' where w': "apr_socket_recv E s MFS_READ_BUFFER_SIZE w = ((APR_SUCCESS, x), w')"
      "recvs E s w' cs w1"
    using Cons.prems(1) by (auto split: prod.splits)
  with Cons show ?case by (simp add: recv_loop_step [OF w'(1)])
qed

text \<open>What the loop never does to the world: change the set of memory pools.\<close>

lemma recv_loop_live:
  assumes "pool_law E live" and "recv_loop E s fin w = Some (r, w')"
  shows "live w' = live w"
proof -
  have "(case y of (r, w') \<Rightarrow> live w' = live w)" if "recv_loop E s fin w = Some y" for y
    by (rule recv_loop.raw_induct [where P = "\<lambda>E' s fin w y. E' = E \<longrightarrow> (case y of (r, w') \<Rightarrow> live w' = live w)",
          THEN mp, OF _ that refl])
       (auto simp: Let_def split: prod.splits if_splits option.splits dest!: live_frames(6) [OF assms(1)])
  with assms(2) show ?thesis by auto
qed

lemma connect_live:
  "pool_law E live \<Longrightarrow> mfs_tracker_connect E t q timeout w = (r, w') \<Longrightarrow> live w' = live w"
  by (auto simp: mfs_tracker_connect_def Let_def live_frames split: prod.splits if_splits
      dest!: live_frames(2,4))

lemma send_request_live:
  "pool_law E live \<Longrightarrow> send_request E c cmd ps timeout w = (st, w') \<Longrightarrow> live w' = live w"
  by (auto simp: send_request_def mfs_tracker_build_request_def Let_def live_frames split: prod.splits
      dest!: live_frames(1,5))

lemma tracker_request_live:
  assumes "pool_law E live" and "mfs_tracker_request E c cmd ps ok h timeout w = Some (r, w')"
  shows "live w' = live w"
proof -
  obtain st w1 where send: "send_request E c cmd ps timeout w = (st, w1)" by force
  note live1 = send_request_live [OF assms(1) send]
  show ?thesis
  proof (cases "st = APR_SUCCESS")
    case True
    then obtain x w2 where loop: "recv_loop E (tc_socket c) None w1 = Some (x, w2)"
      using assms(2) send by (auto simp: mfs_tracker_request_def split: bind_splits)
    then have "w' = w2"
      using assms(2) send True by (auto simp: mfs_tracker_request_def split: sum.splits)
    then show ?thesis using recv_loop_live [OF assms(1) loop] live1 by simp
  next
    case False
    then show ?thesis using assms(2) send live1 by (simp add: mfs_tracker_request_def)
  qed
qed

lemma destroy_connection_live:
  "pool_law E live \<Longrightarrow> tc_pool c \<in> live w \<Longrightarrow>
   live (mfs_tracker_destroy_connection E c w) = live w - {tc_pool c}"
  by (simp add: mfs_tracker_destroy_connection_def pool_destroy_live live_frames)

lemma connect_result:
  "mfs_tracker_connect E t q timeout w = (Inr c, w') \<Longrightarrow> tc_pool c = q \<and> tc_tracker c = t"
  by (auto simp: mfs_tracker_connect_def Let_def split: prod.splits if_splits)

section \<open>Whole requests\<close>

lemma chunks_of_line:
  assumes "concat (cs @ [c]) = body @ [LF]" and "LF \<notin> set body" and "\<forall>x \<in> set (cs @ [c]). x \<noteq> []"
  shows "last c = LF" and "\<forall>x \<in> set cs. x \<noteq> [] \<and> last x \<noteq> LF"
proof -
  have c: "c \<noteq> []" using assms(3) by simp
  then show l: "last c = LF" using arg_cong [OF assms(1), of last] by simp
  have "concat cs @ butlast c @ [last c] = body @ [LF]" using c assms(1) by simp
  then have "concat cs @ butlast c = body" by simp
  then have "LF \<notin> set (concat cs)" using assms(2) by auto
  then show "\<forall>x \<in> set cs. x \<noteq> [] \<and> last x \<noteq> LF"
    using assms(3) last_in_set by fastforce
qed

lemma tracker_request_line:
  assumes "send_request E conn cmd ps timeout w = (APR_SUCCESS, w1)"
    and "recvs E (tc_socket conn) w1 chunks w2" and "\<forall>x \<in> set chunks. x \<noteq> []"
    and "concat chunks = line @ [CR, LF]" and "LF \<notin> set line"
  shows "mfs_tracker_request E conn cmd ps ok h timeout w =
    Some (mfs_tracker_parse_response E (line @ [NUL, LF]) (length line + 2) ok h, w2)"
proof -
  have "chunks \<noteq> []" using assms(4) by auto
  then obtain cs c where cs: "chunks = cs @ [c]" by (metis append_butlast_last_id)
  have "concat (cs @ [c]) = (line @ [CR]) @ [LF]" using assms(4) cs by simp
  note split = chunks_of_line [OF this _ assms(3) [unfolded cs]]
  have "LF \<notin> set (line @ [CR])" using assms(5) by simp
  note split = split [OF this]
  then have "recv_loop E (tc_socket conn) None w1 = Some (Inr (concat chunks), w2)"
    using recv_loop_chunks [OF assms(2) [unfolded cs] split(2) _ split(1), of None] assms(3)
    by (simp add: cs)
  moreover have "terminate_reply (line @ [CR, LF]) = Inr (line @ [NUL, LF])"
    by (simp add: terminate_reply_def nth_append)
  ultimately show ?thesis
    using assms(1,4) by (simp add: mfs_tracker_request_def)
qed

lemma request_failure:
  assumes "send_request E conn cmd ps timeout w = (APR_SUCCESS, w1)"
    and "recv_loop E (tc_socket conn) None w1 = Some (Inl st, w2)"
  shows "mfs_tracker_request E conn cmd ps ok h timeout w = Some ((st, ok, h), w2)"
  using assms by (simp add: mfs_tracker_request_def)

lemma reply_line_no_LF:
  assumes "\<forall>c \<in> set fid. fid_char c"
  shows "LF \<notin> set (''OK '' @ fid @ reply_text kvs)"
proof -
  have "\<not> fid_char LF" by (simp add: fid_char_def isdigit_def)
  then have "LF \<notin> set fid" using assms by blast
  moreover have "LF \<notin> set (reply_text kvs)"
    using url.enc_not_mem [of LF] by (auto simp: reply_text_def dest!: join_chars)
  ultimately show ?thesis by simp
qed

text \<open>On the scripted network every exchange returns, because the script is finite.\<close>

definition script_size :: "sim \<Rightarrow> nat" where
  "script_size w = (\<Sum>r \<leftarrow> sim_replies w. length (snd r) + 1)"

lemma sim_recv_loop_returns: "\<exists>y. recv_loop sim_apr s fin w = Some y"
proof (induction "script_size w" arbitrary: fin w rule: less_induct)
  case less
  obtain st b w1 where r: "apr_socket_recv sim_apr s MFS_READ_BUFFER_SIZE w = ((st, b), w1)"
    by (metis prod.exhaust)
  show ?case
  proof (cases "st \<noteq> APR_SUCCESS \<or> b = []")
    case True
    with r show ?thesis by (subst recv_loop.simps) auto
  next
    case False
    then have "script_size w1 < script_size w"
      using r by (auto simp: sim_apr_def sim_recv_def script_size_def MFS_READ_BUFFER_SIZE_def
          split: list.splits prod.splits if_splits)
    then have IH: "\<exists>y. recv_loop sim_apr s fin' w1 = Some y" for fin' by (rule less)
    show ?thesis
      using r IH False by (subst recv_loop.simps) (auto simp: Let_def)
  qed
qed

lemma sim_request_returns: "mfs_tracker_request sim_apr c action ps ok h t w \<noteq> None"
proof -
  obtain st w1 where send: "send_request sim_apr c action ps t w = (st, w1)" by force
  obtain r w2 where loop: "recv_loop sim_apr (tc_socket c) None w1 = Some (r, w2)"
    using sim_recv_loop_returns by (metis prod.exhaust)
  show ?thesis
    by (auto simp: mfs_tracker_request_def send loop split: sum.splits) (metis prod.exhaust)
qed

section \<open>Requests end to end\<close>

definition sample_connection :: tracker_connection where
  "sample_connection = \<lparr>tc_tracker = \<lparr>ti_address = [], ti_port = 0, ti_sa = 0\<rparr>, tc_connected = True, tc_socket = 3, tc_pool = 2\<rparr>"

text \<open>
  C6: A reply \<open>OK FID pairs\<close> yields success, \<open>ok\<close> set, and a table extended with exactly
  the pairs the tracker encoded, values decoded and keys as sent, however the network splits the
  line into chunks, provided the text of the pairs does not begin with a digit or a space, which the
  scan that skips the FID would take for part of it.
\<close>

theorem tracker_request_ok_reply:
  assumes "strtok_law E" and "send_request E conn cmd ps timeout w = (APR_SUCCESS, w1)"
    and "recvs E (tc_socket conn) w1 chunks w2" and "\<forall>x \<in> set chunks. x \<noteq> []"
    and "concat chunks = ''OK '' @ fid @ reply_text kvs @ [CR, LF]"
    and "\<forall>c \<in> set fid. fid_char c"
    and "reply_text kvs = [] \<or> \<not> fid_char (hd (reply_text kvs))"
  shows "mfs_tracker_request E conn cmd ps ok h timeout w = Some ((APR_SUCCESS, True, h ++ reply_table kvs), w2)"
proof -
  let ?line = "''OK '' @ fid @ reply_text kvs"
  have "mfs_tracker_request E conn cmd ps ok h timeout w =
      Some (mfs_tracker_parse_response E (?line @ [NUL, LF]) (length ?line + 2) ok h, w2)"
    using assms reply_line_no_LF [OF assms(6)] by (intro tracker_request_line) auto
  moreover have "mfs_tracker_parse_response E (?line @ [NUL, LF]) (length ?line + 2) ok h =
      (APR_SUCCESS, True, h ++ reply_table kvs)"
    using parse_ok_reply [OF assms(1,6,7), of "length ?line + 2" "[LF]" ok h] by simp
  ultimately show ?thesis by simp
qed

definition sample_network :: sim where
  "sample_network = sim0\<lparr>sim_replies :=
     [(APR_SUCCESS, ''OK 17 pat''), (APR_SUCCESS, ''hs=1&path1=a%2fb'' @ [CR, LF])]\<rparr>"

definition key_params :: tracker_request_parameters where
  "key_params = mfs_tracker_add_parameter mfs_tracker_init_parameters ''key'' ''k''"

lemma sample_send:
  "send_request sim_apr c ''get_paths'' key_params t w =
     (APR_SUCCESS, w\<lparr>sim_sent := sim_sent w @ [''get_paths key=k'' @ [CR, LF]]\<rparr>)"
proof -
  have b: "params_built key_params" unfolding key_params_def by (intro params_built.intros)
  have h: "tp_head key_params \<noteq> []" by code_simp
  have "request_line ''get_paths'' key_params = ''get_paths key=k'' @ [CR, LF]" by code_simp
  then have line: "request_line ''get_paths'' key_params = ''get_paths key=k'' @ [CR, LF]" .
  have "length (request_line ''get_paths'' key_params) < INT_MAX" by (simp add: line INT_MAX_def)
  from build_request_line [OF sim_palloc_law b h this] line show ?thesis
    by (simp add: send_request_def) (simp add: sim_apr_def)
qed

theorem tracker_request_ok_reply_witness:
  "\<exists>w2. mfs_tracker_request sim_apr sample_connection ''get_paths'' key_params False Map.empty 5 sample_network =
     Some ((APR_SUCCESS, True, Map.empty ++ reply_table [(''paths'', ''1''), (''path1'', ''a/b'')]), w2)"
proof -
  let ?w = "sample_network\<lparr>sim_sent := [''get_paths key=k'' @ [CR, LF]]\<rparr>"
  let ?chunks = "[''OK 17 pat'', ''hs=1&path1=a%2fb'' @ [CR, LF]]"
  have txt1: "reply_text [(''paths'', ''1''), (''path1'', ''a/b'')] = ''paths=1&path1=a%2fb''" by code_simp
  have recvs: "recvs sim_apr (tc_socket sample_connection) ?w ?chunks (?w\<lparr>sim_replies := []\<rparr>)"
    by (simp add: sample_network_def sim_apr_def sim_recv_def MFS_READ_BUFFER_SIZE_def)
  have "send_request sim_apr sample_connection ''get_paths'' key_params 5 sample_network = (APR_SUCCESS, ?w)"
    by (simp add: sample_send) (simp add: sample_network_def sim0_def)
  from tracker_request_ok_reply [OF sim_strtok_law this recvs, of "''17 ''" "[(''paths'', ''1''), (''path1'', ''a/b'')]"]
  show ?thesis by (auto simp: txt1 fid_char_def isdigit_def)
qed

text \<open>
  C25: A reply \<open>ERR code description\<close> with a code that is not empty yields success of the exchange, \<open>ok\<close> cleared,
  and the decoded code and description in the table, however the line is split into chunks.
\<close>

theorem tracker_request_err_reply:
  assumes "send_request E conn cmd ps timeout w = (APR_SUCCESS, w1)"
    and "recvs E (tc_socket conn) w1 chunks w2" and "\<forall>x \<in> set chunks. x \<noteq> []"
    and "concat chunks = ''ERR '' @ url_encode code @ CHR '' '' # url_encode desc @ [CR, LF]"
    and "code \<noteq> []"
  shows "mfs_tracker_request E conn cmd ps ok h timeout w =
    Some ((APR_SUCCESS, False, hash_set (hash_set h MFS_TRACKER_ERROR_CODE code)
                                 MFS_TRACKER_ERROR_DESC desc), w2)"
proof -
  let ?line = "''ERR '' @ url_encode code @ CHR '' '' # url_encode desc"
  have enc: "c \<notin> set (url_encode s)" if "c \<in> {CHR '' '', LF, NUL}" for c s
    using that url.enc_not_mem [of c s] by blast
  have "LF \<notin> set ?line" using enc [of LF] by simp
  then have "mfs_tracker_request E conn cmd ps ok h timeout w =
      Some (mfs_tracker_parse_response E (?line @ [NUL, LF]) (length ?line + 2) ok h, w2)"
    using assms by (intro tracker_request_line) auto
  moreover have "url_encode desc = [] \<or> hd (url_encode desc) \<noteq> CHR '' ''"
    using enc [of "CHR '' ''" desc] by (cases "url_encode desc") auto
  moreover have "url_encode code \<noteq> []"
    using assms(5) url.dec_enc [of code] by (metis mfs_tracker_url_decode_def url_decode_loop.simps(1))
  ultimately show ?thesis
    using parse_err_reply [of "url_encode code" "url_encode desc" "length ?line + 2" "[LF]" E ok h] enc
    by (simp add: url.dec_enc)
qed

definition refusing_network :: sim where
  "refusing_network = sim0\<lparr>sim_replies :=
     [(APR_SUCCESS, ''ERR unkno''), (APR_SUCCESS, ''wn_key unknown+key'' @ [CR, LF])]\<rparr>"

theorem tracker_request_err_reply_witness:
  "\<exists>w2. mfs_tracker_request sim_apr sample_connection ''get_paths'' key_params True Map.empty 5 refusing_network =
     Some ((APR_SUCCESS, False, hash_set (hash_set Map.empty MFS_TRACKER_ERROR_CODE ''unknown_key'')
                                  MFS_TRACKER_ERROR_DESC ''unknown key''), w2)"
proof -
  let ?w = "refusing_network\<lparr>sim_sent := [''get_paths key=k'' @ [CR, LF]]\<rparr>"
  let ?chunks = "[''ERR unkno'', ''wn_key unknown+key'' @ [CR, LF]]"
  have enc: "url_encode ''unknown_key'' = ''unknown_key''" "url_encode ''unknown key'' = ''unknown+key''"
    by code_simp+
  have recvs: "recvs sim_apr (tc_socket sample_connection) ?w ?chunks (?w\<lparr>sim_replies := []\<rparr>)"
    by (simp add: refusing_network_def sim_apr_def sim_recv_def MFS_READ_BUFFER_SIZE_def)
  have "send_request sim_apr sample_connection ''get_paths'' key_params 5 refusing_network = (APR_SUCCESS, ?w)"
    by (simp add: sample_send) (simp add: refusing_network_def sim0_def)
  from tracker_request_err_reply [OF this recvs, of "''unknown_key''" "''unknown key''"]
  show ?thesis by (auto simp: enc)
qed

text \<open>
  C32: If the peer fails or closes before the line is complete, the request returns with the
  status of the failure (\<open>APR_EOF\<close> for an empty receive) and leaves \<open>ok\<close> and the
  result table as they were.
\<close>

theorem tracker_request_failure:
  assumes "send_request E conn cmd ps timeout w = (APR_SUCCESS, w1)"
    and "recvs E (tc_socket conn) w1 chunks w2" and "\<forall>x \<in> set chunks. x \<noteq> [] \<and> last x \<noteq> LF"
    and "apr_socket_recv E (tc_socket conn) MFS_READ_BUFFER_SIZE w2 = ((st, b), w3)"
    and "st \<noteq> APR_SUCCESS \<or> b = []"
  shows "mfs_tracker_request E conn cmd ps ok h timeout w =
    Some ((if st \<noteq> APR_SUCCESS then st else APR_EOF, ok, h), w3)"
  by (rule request_failure [OF assms(1) recv_loop_failure [OF assms(2-5)]])

theorem tracker_request_failure_witness:
  "\<exists>w3. mfs_tracker_request sim_apr sample_connection ''get_paths'' key_params True Map.empty 5
       (sim0\<lparr>sim_replies := [(APR_SUCCESS, ''OK 17'')]\<rparr>) = Some ((APR_EOF, True, Map.empty), w3)"
proof -
  let ?w = "sim0\<lparr>sim_replies := [(APR_SUCCESS, ''OK 17'')], sim_sent := [''get_paths key=k'' @ [CR, LF]]\<rparr>"
  have recvs: "recvs sim_apr (tc_socket sample_connection) ?w [''OK 17''] (?w\<lparr>sim_replies := []\<rparr>)"
    by (simp add: sim_apr_def sim_recv_def MFS_READ_BUFFER_SIZE_def)
  have last: "apr_socket_recv sim_apr (tc_socket sample_connection) MFS_READ_BUFFER_SIZE (?w\<lparr>sim_replies := []\<rparr>) =
      ((APR_EOF, []), ?w\<lparr>sim_replies := []\<rparr>)"
    by (simp add: sim_apr_def sim_recv_def)
  have "send_request sim_apr sample_connection ''get_paths'' key_params 5
      (sim0\<lparr>sim_replies := [(APR_SUCCESS, ''OK 17'')]\<rparr>) = (APR_SUCCESS, ?w)"
    by (simp add: sample_send) (simp add: sim0_def)
  from tracker_request_failure [OF this recvs _ last] show ?thesis by auto
qed

text \<open>
  C36: Every parse ends in one of three ways: an OK reply, an ERR reply with code and description
  in the table, or \<open>APR_EFTYPE\<close> with \<open>ok\<close> as it was; in particular a status of success
  with \<open>ok\<close> false always comes with an error code, which callers compare without a check.
\<close>

theorem parse_response_outcomes:
  "reply_outcome ok (mfs_tracker_parse_response E buf n ok h)"
  by (rule parse_response_outcome)

text \<open>
  The scan over the FID also swallows leading digits of the first key: a reply whose first
  key starts with digits is stored under the key without them.
\<close>

theorem parse_response_digit_key:
  assumes "strtok_law E" and "\<forall>c \<in> set digits. isdigit c"
    and "reply_text kvs \<noteq> []" and "\<not> fid_char (hd (reply_text kvs))"
    and "\<forall>c \<in> set fid. fid_char c"
  shows "mfs_tracker_parse_response E (''OK '' @ fid @ digits @ reply_text kvs @ [NUL, LF])
      (length fid + length digits + length (reply_text kvs) + 5) ok h = (APR_SUCCESS, True, h ++ reply_table kvs)"
  using parse_ok_reply [OF assms(1), of "fid @ digits" kvs
      "length fid + length digits + length (reply_text kvs) + 5" "[LF]" ok h] assms(2-5)
  by (auto simp: fid_char_def)

theorem parse_response_digit_key_witness:
  "mfs_tracker_parse_response sim_apr (''OK 17 2a=x'' @ [NUL, LF]) 12 False Map.empty =
     (APR_SUCCESS, True, [''a'' \<mapsto> ''x''])"
proof -
  have t: "reply_text [(''a'', ''x'')] = ''a=x''" and k: "url_encode ''a'' = ''a''" by code_simp+
  from parse_response_digit_key [OF sim_strtok_law, of "''2''" "[(''a'', ''x'')]" "''17 ''" False Map.empty]
  show ?thesis by (simp add: t k isdigit_def fid_char_def reply_table_def)
qed

end
