(* ===== verification/Pool.thy ===== *)
theory Pool
  imports Tracker
begin

text \<open>
  The tracker pool of \<open>src/src/pool.c\<close>: registered trackers, the arrays of active and inactive
  ones, the iteration over a snapshot, and a stack of idle connections per tracker. The arrays
  keep their C shape: a block of fixed capacity and a separate count of the entries in use.
\<close>

section \<open>State\<close>

record tracker_connection_pool_entry =
  e_connection :: tracker_connection
  e_last_used :: int

text \<open>The ring is the list of its entries from \<open>APR_RING_FIRST\<close> to \<open>APR_RING_LAST\<close>.\<close>

record tracker_connection_pool =
  cp_lock :: handle
  cp_connection_count :: int
  cp_stack :: "tracker_connection_pool_entry list"

record tracker_pool =
  pl_trackers :: "tracker_info list"
  pl_tracker_count :: nat
  pl_active_trackers :: "nat list"
  pl_active_tracker_count :: nat
  pl_inactive_trackers :: "nat list"
  pl_inactive_tracker_count :: nat
  pl_max_tracker_count :: nat
  pl_connection_pools :: "tracker_connection_pool list"
  pl_lock :: handle
  pl_pool :: handle
  pl_maintenance_mutex :: handle
  pl_maintenance_cond :: handle
  pl_maintenance_thread :: "handle option"
  pl_pool_running :: bool
  pl_maintenance_thread_running :: bool
  pl_maintenance_thread_check_count :: "32 word"

record tracker_list =
  tl_tracker_indexes :: "nat list"
  tl_tracker_count :: nat
  tl_current_position :: int
  tl_start_postion :: int

section \<open>Creation and registration\<close>

text \<open>Zeroed memory (\<open>apr_pcalloc\<close>), and the contents of a tracker slot nobody has filled.\<close>

definition zero_connection_pool :: tracker_connection_pool where
  "zero_connection_pool = \<lparr>cp_lock = 0, cp_connection_count = 0, cp_stack = []\<rparr>"

definition unset_tracker :: tracker_info where
  "unset_tracker = \<lparr>ti_address = [], ti_port = 0, ti_sa = 0\<rparr>"

definition mfs_pool_init :: "'w apr \<Rightarrow> nat \<Rightarrow> 'w \<Rightarrow> tracker_pool option \<times> 'w" where
  "mfs_pool_init E tracker_count w =
     (let w = c_srand E 1 w
      in case apr_pool_create E w of
        ((rv, p), w) \<Rightarrow>
          if rv \<noteq> APR_SUCCESS then (None, w)
          else case apr_thread_rwlock_create E w of
            ((rv, lock), w) \<Rightarrow>
              if rv \<noteq> APR_SUCCESS then (None, w)
              else let (active, w) = apr_palloc_ints E tracker_count w;
                       (inactive, w) = apr_palloc_ints E tracker_count w;
                       ((_, mutex), w) = apr_thread_mutex_create E w;
                       (cond, w) = apr_thread_cond_create E w
                   in (Some \<lparr>pl_trackers = replicate tracker_count unset_tracker,
                             pl_tracker_count = 0,
                             pl_active_trackers = active,
                             pl_active_tracker_count = 0,
                             pl_inactive_trackers = inactive,
                             pl_inactive_tracker_count = 0,
                             pl_max_tracker_count = tracker_count,
                             pl_connection_pools = replicate tracker_count zero_connection_pool,
                             pl_lock = lock,
                             pl_pool = p,
                             pl_maintenance_mutex = mutex,
                             pl_maintenance_cond = cond,
                             pl_maintenance_thread = None,
                             pl_pool_running = True,
                             pl_maintenance_thread_running = False,
                             pl_maintenance_thread_check_count = 0\<rparr>, w))"

text \<open>\<open>allow\<close> is the global \<open>mfs_allow_maintenance_thread\<close>.\<close>

definition mfs_pool_disable_maintenance :: "bool \<Rightarrow> bool" where
  "mfs_pool_disable_maintenance allow = False"

definition mfs_pool_enable_maintenance :: "bool \<Rightarrow> bool" where
  "mfs_pool_enable_maintenance allow = True"

definition mfs_pool_start_maintenance_thread ::
  "'w apr \<Rightarrow> bool \<Rightarrow> tracker_pool \<Rightarrow> 'w \<Rightarrow> tracker_pool \<times> 'w" where
  "mfs_pool_start_maintenance_thread E allow p w =
     (if allow then
        (case apr_thread_create E w of
           ((rv, t), w) \<Rightarrow> (p\<lparr>pl_pool_running := True, pl_maintenance_thread := t\<rparr>, w))
      else (p, w))"

definition mfs_pool_stop_maintenance_thread ::
  "'w apr \<Rightarrow> tracker_pool \<Rightarrow> 'w \<Rightarrow> tracker_pool \<times> 'w" where
  "mfs_pool_stop_maintenance_thread E p w =
     (case pl_maintenance_thread p of
        None \<Rightarrow> (p, w)
      | Some t \<Rightarrow>
          let p = p\<lparr>pl_pool_running := False\<rparr>;
              w = snd (apr_thread_mutex_lock E (pl_maintenance_mutex p) w);
              w = apr_thread_cond_signal E (pl_maintenance_cond p) w;
              w = snd (apr_thread_mutex_unlock E (pl_maintenance_mutex p) w);
              w = apr_thread_join E t w
          in (p, w))"

definition mfs_pool_register_tracker ::
  "'w apr \<Rightarrow> bool \<Rightarrow> tracker_pool \<Rightarrow> string \<Rightarrow> int \<Rightarrow> 'w \<Rightarrow> tracker_pool \<times> 'w" where
  "mfs_pool_register_tracker E allow p address port w =
     (let n = pl_tracker_count p
      in if n = pl_max_tracker_count p then (p, w)
         else case mfs_tracker_init2 E address port (pl_trackers p ! n) w of
           ((rv, t), w) \<Rightarrow>
             let p = p\<lparr>pl_trackers := (pl_trackers p)[n := t]\<rparr>
             in if rv \<noteq> APR_SUCCESS then (p, w)
                else case apr_thread_mutex_create E w of
                  ((rv, l), w) \<Rightarrow>
                    if rv \<noteq> APR_SUCCESS then (p, w)
                    else let cp = (pl_connection_pools p ! n)\<lparr>cp_lock := l, cp_stack := []\<rparr>;
                             p = p\<lparr>pl_connection_pools := (pl_connection_pools p)[n := cp],
                                   pl_active_trackers := (pl_active_trackers p)[n := n],
                                   pl_active_tracker_count := pl_active_tracker_count p + 1,
                                   pl_tracker_count := n + 1\<rparr>
                         in if pl_tracker_count p = pl_max_tracker_count p
                            then mfs_pool_start_maintenance_thread E allow p w
                            else (p, w))"

section \<open>Snapshots and iteration\<close>

text \<open>
  Rounding to nearest, ties to even, and the rounding of a natural number to the 24 significant
  bits of a \<open>float\<close>. Dividing by \<open>RAND_MAX\<close>, which is \<open>2 ^ 31\<close> as a \<open>float\<close>, only
  moves the exponent, so the numerators below carry the \<open>float\<close> results exactly.
\<close>

definition half_even :: "nat \<Rightarrow> nat \<Rightarrow> nat" where
  "half_even m d =
     (let q = m div d; r = m mod d
      in if 2 * r < d \<or> 2 * r = d \<and> even q then q else q + 1)"

fun bit_count :: "nat \<Rightarrow> nat" where
  "bit_count n = (if n = 0 then 0 else Suc (bit_count (n div 2)))"

declare bit_count.simps [simp del]

definition float32 :: "nat \<Rightarrow> nat" where
  "float32 m = (let k = bit_count m - 24 in half_even m (2 ^ k) * 2 ^ k)"

definition start_position :: "nat \<Rightarrow> nat \<Rightarrow> int" where
  "start_position r tracker_count =
     int (half_even (float32 (float32 r * float32 (tracker_count - 1))) (2 ^ 31))"

text \<open>
  \<open>mfs_pool_list_active_trackers\<close> and \<open>mfs_pool_list_inactive_trackers\<close> run the same code
  on one array or the other.
\<close>

definition list_trackers ::
  "'w apr \<Rightarrow> handle \<Rightarrow> nat list \<Rightarrow> nat \<Rightarrow> 'w \<Rightarrow> tracker_list option \<times> 'w" where
  "list_trackers E lock arr count w =
     (if count = 0 then (None, w)
      else case apr_thread_rwlock_rdlock E lock w of
        (rv, w) \<Rightarrow>
          if rv \<noteq> APR_SUCCESS then (None, w)
          else let indexes = take count arr;
                   (_, w) = apr_thread_rwlock_unlock E lock w;
                   (r, w) = c_rand E w
               in (Some \<lparr>tl_tracker_indexes = indexes, tl_tracker_count = count,
                         tl_current_position = -1,
                         tl_start_postion = start_position r count\<rparr>, w))"

definition mfs_pool_list_active_trackers ::
  "'w apr \<Rightarrow> tracker_pool \<Rightarrow> 'w \<Rightarrow> tracker_list option \<times> 'w" where
  "mfs_pool_list_active_trackers E p w =
     list_trackers E (pl_lock p) (pl_active_trackers p) (pl_active_tracker_count p) w"

definition mfs_pool_list_inactive_trackers ::
  "'w apr \<Rightarrow> tracker_pool \<Rightarrow> 'w \<Rightarrow> tracker_list option \<times> 'w" where
  "mfs_pool_list_inactive_trackers E p w =
     list_trackers E (pl_lock p) (pl_inactive_trackers p) (pl_inactive_tracker_count p) w"

definition mfs_pool_current_tracker_index :: "tracker_list \<Rightarrow> nat" where
  "mfs_pool_current_tracker_index l =
     (if tl_current_position l = -1 then tl_tracker_indexes l ! nat (tl_start_postion l)
      else tl_tracker_indexes l ! nat (tl_current_position l))"

definition mfs_pool_next_tracker ::
  "tracker_list \<Rightarrow> tracker_pool \<Rightarrow> tracker_info option \<times> tracker_list" where
  "mfs_pool_next_tracker l p =
     (if tl_current_position l = -1 then
        let l = l\<lparr>tl_current_position := tl_start_postion l\<rparr>
        in (Some (pl_trackers p ! mfs_pool_current_tracker_index l), l)
      else
        let pos = tl_current_position l + 1;
            pos = (if pos \<ge> int (tl_tracker_count l) then 0 else pos);
            l = l\<lparr>tl_current_position := pos\<rparr>
        in if pos = tl_start_postion l then (None, l)
           else (Some (pl_trackers p ! mfs_pool_current_tracker_index l), l))"

section \<open>Activation\<close>

text \<open>
  \<open>remove_from_array\<close> shifts the entries after the one found. At the last index it reads one
  entry further, which is outside the block when the array is full; \<open>beyond\<close> is what it finds
  there.
\<close>

definition read_int :: "nat \<Rightarrow> nat list \<Rightarrow> nat \<Rightarrow> nat" where
  "read_int beyond values i = (if i < length values then values ! i else beyond)"

function remove_loop :: "nat \<Rightarrow> nat list \<Rightarrow> nat \<Rightarrow> nat \<Rightarrow> bool \<Rightarrow> nat \<Rightarrow> nat list \<times> bool" where
  "remove_loop beyond values n test found i =
     (if i < n then
        if found then
          remove_loop beyond (values[i := read_int beyond values (i + 1)]) n test True (i + 1)
        else if read_int beyond values i = test then
          remove_loop beyond (values[i := read_int beyond values (i + 1)]) n test True (i + 1)
        else remove_loop beyond values n test False (i + 1)
      else (values, found))"
  by pat_completeness auto
termination
  by (relation "measure (\<lambda>(b, v, n, t, f, i). n - i)") auto

declare remove_loop.simps [simp del]

definition remove_from_array :: "nat \<Rightarrow> nat list \<Rightarrow> nat \<Rightarrow> nat \<Rightarrow> nat list \<times> bool" where
  "remove_from_array beyond values n test = remove_loop beyond values n test False 0"

text \<open>
  The critical sections of \<open>mfs_pool_activate\<close> and \<open>mfs_pool_deactivate\<close>: what happens under
  the write lock. The second says whether the tracker was removed from the active ones.
\<close>

definition activate_critical :: "nat \<Rightarrow> tracker_pool \<Rightarrow> nat \<Rightarrow> tracker_pool" where
  "activate_critical beyond p tracker_index =
     (let (arr, removed) = remove_from_array beyond (pl_inactive_trackers p)
                             (pl_inactive_tracker_count p) tracker_index;
          p = p\<lparr>pl_inactive_trackers := arr\<rparr>
      in if removed then
           p\<lparr>pl_inactive_tracker_count := pl_inactive_tracker_count p - 1,
             pl_active_trackers := (pl_active_trackers p)[pl_active_tracker_count p := tracker_index],
             pl_active_tracker_count := pl_active_tracker_count p + 1\<rparr>
         else p)"

definition deactivate_critical :: "nat \<Rightarrow> tracker_pool \<Rightarrow> nat \<Rightarrow> bool \<times> tracker_pool" where
  "deactivate_critical beyond p tracker_index =
     (let (arr, removed) = remove_from_array beyond (pl_active_trackers p)
                             (pl_active_tracker_count p) tracker_index;
          p = p\<lparr>pl_active_trackers := arr\<rparr>
      in (removed,
          if removed then
            p\<lparr>pl_active_tracker_count := pl_active_tracker_count p - 1,
              pl_inactive_trackers :=
                (pl_inactive_trackers p)[pl_inactive_tracker_count p := tracker_index],
              pl_inactive_tracker_count := pl_inactive_tracker_count p + 1\<rparr>
          else p))"

definition mfs_pool_activate :: "'w apr \<Rightarrow> tracker_pool \<Rightarrow> nat \<Rightarrow> 'w \<Rightarrow> tracker_pool \<times> 'w" where
  "mfs_pool_activate E p tracker_index w =
     (case apr_thread_rwlock_wrlock E (pl_lock p) w of
        (rv, w) \<Rightarrow>
          if rv \<noteq> APR_SUCCESS then (p, w)
          else let p = activate_critical (c_mem_after E) p tracker_index;
                   (_, w) = apr_thread_rwlock_unlock E (pl_lock p) w
               in (p, w))"

definition deactivate_locked ::
  "'w apr \<Rightarrow> tracker_pool \<Rightarrow> nat \<Rightarrow> 'w \<Rightarrow> bool \<times> tracker_pool \<times> 'w" where
  "deactivate_locked E p tracker_index w =
     (case apr_thread_rwlock_wrlock E (pl_lock p) w of
        (rv, w) \<Rightarrow>
          if rv \<noteq> APR_SUCCESS then (False, p, w)
          else let (removed, p) = deactivate_critical (c_mem_after E) p tracker_index;
                   (_, w) = apr_thread_rwlock_unlock E (pl_lock p) w
               in (removed, p, w))"

section \<open>Connections\<close>

definition set_connection_pool ::
  "tracker_pool \<Rightarrow> nat \<Rightarrow> tracker_connection_pool \<Rightarrow> tracker_pool" where
  "set_connection_pool p i cp = p\<lparr>pl_connection_pools := (pl_connection_pools p)[i := cp]\<rparr>"

text \<open>The critical section that pops the ring. An index outside the array has no ring.\<close>

definition pop_entry ::
  "tracker_pool \<Rightarrow> nat \<Rightarrow> tracker_connection_pool_entry option \<times> tracker_pool" where
  "pop_entry p i =
     (if i < length (pl_connection_pools p) then
        let cp = pl_connection_pools p ! i
        in case cp_stack cp of
             [] \<Rightarrow> (None, p)
           | e # es \<Rightarrow>
               (Some e, set_connection_pool p i
                  (cp\<lparr>cp_stack := es, cp_connection_count := cp_connection_count cp - 1\<rparr>))
      else (None, p))"

text \<open>
  The first half of \<open>mfs_pool_get_connection_ex\<close>: lock, pop, unlock. The flag says whether the
  lock was taken; without it the function returns NULL at once.
\<close>

definition pop_locked ::
  "'w apr \<Rightarrow> tracker_pool \<Rightarrow> nat \<Rightarrow> 'w \<Rightarrow>
     (bool \<times> tracker_connection_pool_entry option) \<times> tracker_pool \<times> 'w" where
  "pop_locked E p i w =
     (case apr_thread_mutex_lock E (cp_lock (pl_connection_pools p ! i)) w of
        (rv, w) \<Rightarrow>
          if rv \<noteq> APR_SUCCESS then ((False, None), p, w)
          else let (entry, p) = pop_entry p i;
                   (_, w) = apr_thread_mutex_unlock E (cp_lock (pl_connection_pools p ! i)) w
               in ((True, entry), p, w))"

definition mfs_pool_destroy_connection :: "'w apr \<Rightarrow> tracker_connection_pool_entry \<Rightarrow> 'w \<Rightarrow> 'w" where
  "mfs_pool_destroy_connection E entry w = mfs_tracker_destroy_connection E (e_connection entry) w"

text \<open>
  The loop that empties a ring, \<open>while((entry = mfs_pool_get_connection(..., false, ...)) != NULL)\<close>:
  without \<open>create_new\<close>, \<open>mfs_pool_get_connection\<close> is \<open>pop_locked\<close>.
\<close>

lemma pop_entry_shorter:
  "pop_entry p i = (Some e, p') \<Longrightarrow>
     length (cp_stack (pl_connection_pools p' ! i)) < length (cp_stack (pl_connection_pools p ! i))"
  by (auto simp: pop_entry_def set_connection_pool_def Let_def split: if_splits list.splits)

lemma pop_locked_shorter:
  "pop_locked E p i w = ((b, Some e), p', w') \<Longrightarrow>
     length (cp_stack (pl_connection_pools p' ! i)) < length (cp_stack (pl_connection_pools p ! i))"
  by (auto simp: pop_locked_def Let_def split: prod.splits if_splits intro: pop_entry_shorter)

function drain_connections ::
  "'w apr \<Rightarrow> tracker_pool \<Rightarrow> nat \<Rightarrow> 'w \<Rightarrow> tracker_pool \<times> 'w" where
  "drain_connections E p i w =
     (case pop_locked E p i w of
        ((_, None), p, w) \<Rightarrow> (p, w)
      | ((_, Some e), p, w) \<Rightarrow> drain_connections E p i (mfs_pool_destroy_connection E e w))"
  by pat_completeness auto
termination
  by (relation "measure (\<lambda>(E, p, i, w). length (cp_stack (pl_connection_pools p ! i)))")
     (auto dest: pop_locked_shorter [OF sym])

declare drain_connections.simps [simp del]

definition mfs_pool_deactivate :: "'w apr \<Rightarrow> tracker_pool \<Rightarrow> nat \<Rightarrow> 'w \<Rightarrow> tracker_pool \<times> 'w" where
  "mfs_pool_deactivate E p tracker_index w =
     (case deactivate_locked E p tracker_index w of
        (tracker_removed, p, w) \<Rightarrow>
          if tracker_removed then drain_connections E p tracker_index w else (p, w))"

text \<open>
  \<open>create_new\<close> is an in-out parameter: the result carries its value after the call.
\<close>

definition mfs_pool_get_connection_ex ::
  "'w apr \<Rightarrow> tracker_pool \<Rightarrow> nat \<Rightarrow> bool \<Rightarrow> int \<Rightarrow> 'w \<Rightarrow>
     (tracker_connection_pool_entry option \<times> bool) \<times> tracker_pool \<times> 'w" where
  "mfs_pool_get_connection_ex E p i create_new timeout w =
     (case pop_locked E p i w of
        ((locked, entry), p, w) \<Rightarrow>
          if \<not> locked then ((None, create_new), p, w)
          else if \<not> create_new \<or> entry \<noteq> None then ((entry, False), p, w)
          else case apr_pool_create E w of
            ((rv, c_pool), w) \<Rightarrow>
              if rv \<noteq> APR_SUCCESS then ((None, create_new), p, w)
              else case mfs_tracker_connect E (pl_trackers p ! i) c_pool timeout w of
                (Inl rv, w) \<Rightarrow>
                  let w = apr_pool_destroy E c_pool w;
                      (p, w) = mfs_pool_deactivate E p i w
                  in ((None, create_new), p, w)
              | (Inr connection, w) \<Rightarrow>
                  ((Some \<lparr>e_connection = connection, e_last_used = 0\<rparr>, True), p, w))"

definition mfs_pool_get_connection ::
  "'w apr \<Rightarrow> tracker_pool \<Rightarrow> nat \<Rightarrow> bool \<Rightarrow> int \<Rightarrow> 'w \<Rightarrow>
     tracker_connection_pool_entry option \<times> tracker_pool \<times> 'w" where
  "mfs_pool_get_connection E p i create_new timeout w =
     (case mfs_pool_get_connection_ex E p i create_new timeout w of
        ((entry, _), p, w) \<Rightarrow> (entry, p, w))"

text \<open>The critical section that inserts at the head of the ring.\<close>

definition push_entry :: "tracker_pool \<Rightarrow> nat \<Rightarrow> tracker_connection_pool_entry \<Rightarrow> tracker_pool" where
  "push_entry p i entry =
     (let cp = pl_connection_pools p ! i
      in set_connection_pool p i
           (cp\<lparr>cp_stack := entry # cp_stack cp, cp_connection_count := cp_connection_count cp + 1\<rparr>))"

definition mfs_pool_return_connection ::
  "'w apr \<Rightarrow> tracker_pool \<Rightarrow> nat \<Rightarrow> tracker_connection_pool_entry \<Rightarrow> 'w \<Rightarrow> tracker_pool \<times> 'w" where
  "mfs_pool_return_connection E p i entry w =
     (let (now, w) = apr_time_now E w;
          entry = entry\<lparr>e_last_used := now\<rparr>;
          lock = cp_lock (pl_connection_pools p ! i)
      in case apr_thread_mutex_lock E lock w of
        (rv, w) \<Rightarrow>
          if rv \<noteq> APR_SUCCESS then (p, w)
          else let p = push_entry p i entry;
                   (_, w) = apr_thread_mutex_unlock E lock w
               in (p, w))"

section \<open>Destruction and the quick constructor\<close>

text \<open>
  A slot nobody registered is zeroed memory, so its mutex is NULL, the handle 0. Locking it
  dereferences NULL: the result is \<open>None\<close>. The other callers of \<open>drain_connections\<close> reach only
  slots of registered trackers.
\<close>

definition mfs_destroy_connection_pool ::
  "'w apr \<Rightarrow> tracker_pool \<Rightarrow> nat \<Rightarrow> 'w \<Rightarrow> (tracker_pool \<times> 'w) option" where
  "mfs_destroy_connection_pool E p i w =
     (if cp_lock (pl_connection_pools p ! i) = 0 then None
      else let (p, w) = drain_connections E p i w
           in Some (p, apr_thread_mutex_destroy E (cp_lock (pl_connection_pools p ! i)) w))"

text \<open>\<open>for(i=0; i < pool->max_tracker_count; i++)\<close> over the indexes \<open>is\<close>.\<close>

fun destroy_connection_pools ::
  "'w apr \<Rightarrow> tracker_pool \<Rightarrow> nat list \<Rightarrow> 'w \<Rightarrow> (tracker_pool \<times> 'w) option" where
  "destroy_connection_pools E p [] w = Some (p, w)"
| "destroy_connection_pools E p (i # is) w =
     do { (p, w) \<leftarrow> mfs_destroy_connection_pool E p i w; destroy_connection_pools E p is w }"

definition mfs_destroy_pool :: "'w apr \<Rightarrow> tracker_pool \<Rightarrow> 'w \<Rightarrow> 'w option" where
  "mfs_destroy_pool E p w =
     do { (p, w) \<leftarrow> destroy_connection_pools E p [0..<pl_max_tracker_count p] w;
          let w = apr_thread_mutex_destroy E (pl_maintenance_mutex p) w;
          let w = apr_thread_cond_destroy E (pl_maintenance_cond p) w;
          let w = apr_thread_rwlock_destroy E (pl_lock p) w;
          Some (apr_pool_destroy E (pl_pool p) w) }"

text \<open>
  The loop over the tokens of the tracker list. A token without a colon makes the function
  return NULL, whatever was registered before.
\<close>

fun register_tokens ::
  "'w apr \<Rightarrow> bool \<Rightarrow> tracker_pool \<Rightarrow> string list \<Rightarrow> 'w \<Rightarrow> tracker_pool option \<times> 'w" where
  "register_tokens E allow p [] w = (Some p, w)"
| "register_tokens E allow p (token # tokens) w =
     (if CHR '':'' \<notin> set token then (None, w)
      else let address = takeWhile (\<lambda>c. c \<noteq> CHR '':'') token;
               port = drop (length address + 1) token;
               (p, w) = mfs_pool_register_tracker E allow p address (atoi port) w
           in register_tokens E allow p tokens w)"

text \<open>
  NULL from \<open>mfs_pool_init\<close> is not checked by the code: the first token with a colon is then
  registered in the pool NULL, and the result is \<open>None\<close> for the crash. Without a token, or with
  a first token that has no colon, NULL is returned.
\<close>

definition mfs_pool_init_quick ::
  "'w apr \<Rightarrow> bool \<Rightarrow> string \<Rightarrow> 'w \<Rightarrow> (tracker_pool option \<times> 'w) option" where
  "mfs_pool_init_quick E allow tracker_list w =
     (let tokens = apr_strtok E tracker_list (CHR '','')
      in case mfs_pool_init E (count_list tracker_list (CHR '','') + 1) w of
        (None, w) \<Rightarrow>
          (if tokens \<noteq> [] \<and> CHR '':'' \<in> set (hd tokens) then None else Some (None, w))
      | (Some p, w) \<Rightarrow> Some (register_tokens E allow p tokens w))"

section \<open>Removing from an array\<close>

text \<open>The C loop and \<open>remove1\<close> on the entries in use.\<close>

lemma remove_loop_found:
  assumes "i \<le> n" and "n \<le> length vs"
  shows "remove_loop beyond vs n test True i =
    (take i vs @ map (\<lambda>k. read_int beyond vs (k + 1)) [i..<n] @ drop n vs, True)"
  using assms
proof (induction "n - i" arbitrary: i vs)
  case 0
  then show ?case by (subst remove_loop.simps) simp
next
  case (Suc m)
  let ?v = "vs[i := read_int beyond vs (i + 1)]"
  have i: "i < n" using Suc by simp
  have IH: "remove_loop beyond ?v n test True (i + 1) =
      (take (i + 1) ?v @ map (\<lambda>k. read_int beyond ?v (k + 1)) [i + 1..<n] @ drop n ?v, True)"
    using Suc by (intro Suc.hyps) auto
  have "map (\<lambda>k. read_int beyond ?v (k + 1)) [i + 1..<n] =
      map (\<lambda>k. read_int beyond vs (k + 1)) [i + 1..<n]"
    by (auto simp: read_int_def)
  moreover have "take (i + 1) ?v = take i vs @ [read_int beyond vs (i + 1)]"
    using i Suc.prems by (simp add: take_Suc_conv_app_nth)
  moreover have "[i..<n] = i # [i + 1..<n]" using i by (simp add: upt_conv_Cons)
  ultimately have eq: "take (i + 1) ?v @ map (\<lambda>k. read_int beyond ?v (k + 1)) [i + 1..<n] @ drop n ?v =
      take i vs @ map (\<lambda>k. read_int beyond vs (k + 1)) [i..<n] @ drop n vs"
    using i by simp
  have "remove_loop beyond vs n test True i = remove_loop beyond ?v n test True (i + 1)"
    using i by (subst remove_loop.simps) simp
  then show ?case by (simp only: IH eq)
qed

lemma remove_loop_absent:
  "i \<le> n \<Longrightarrow> n \<le> length vs \<Longrightarrow> test \<notin> set (drop i (take n vs)) \<Longrightarrow>
   remove_loop beyond vs n test False i = (vs, False)"
proof (induction "n - i" arbitrary: i)
  case 0
  then show ?case by (subst remove_loop.simps) simp
next
  case (Suc m)
  then have i: "i < n" by simp
  then have "drop i (take n vs) = vs ! i # drop (i + 1) (take n vs)"
    using Suc.prems by (rule_tac drop_take_Cons) auto
  then show ?case
    using Suc i by (simp add: remove_loop.simps [of beyond vs n test False i] read_int_def)
qed

lemma remove_loop_search:
  "i \<le> k \<Longrightarrow> k < n \<Longrightarrow> n \<le> length vs \<Longrightarrow> vs ! k = test \<Longrightarrow> \<forall>j. i \<le> j \<and> j < k \<longrightarrow> vs ! j \<noteq> test \<Longrightarrow>
   remove_loop beyond vs n test False i =
     (take k vs @ map (\<lambda>k. read_int beyond vs (k + 1)) [k..<n] @ drop n vs, True)"
proof (induction "k - i" arbitrary: i)
  case 0
  then have i: "i = k" by simp
  let ?v = "vs[k := read_int beyond vs (k + 1)]"
  have "remove_loop beyond vs n test False k = remove_loop beyond vs n test True k"
    using 0 i by (simp add: remove_loop.simps [of beyond vs n test _ k] read_int_def)
  then show ?case using 0 i remove_loop_found [of k n vs beyond test] by simp
next
  case (Suc m)
  then have "i < k" "vs ! i \<noteq> test" by auto
  then show ?case
    using Suc by (simp add: remove_loop.simps [of beyond vs n test False i] read_int_def)
qed

lemma remove1_at:
  "k < length xs \<Longrightarrow> xs ! k = x \<Longrightarrow> \<forall>j<k. xs ! j \<noteq> x \<Longrightarrow>
   remove1 x xs = take k xs @ drop (Suc k) xs"
proof -
  assume k: "k < length xs" "xs ! k = x" "\<forall>j<k. xs ! j \<noteq> x"
  then have "x \<notin> set (take k xs)" by (auto simp: in_set_conv_nth)
  moreover have "xs = take k xs @ x # drop (Suc k) xs"
    using id_take_nth_drop [OF k(1)] k(2) by simp
  ultimately show ?thesis by (metis remove1_append remove1.simps(2))
qed

text \<open>
  What the C loop leaves in the entries in use is \<open>remove1\<close>, and the word read past the end
  of a full block only lands in the entry that falls out of use.
\<close>

lemma remove_from_array_present:
  assumes "n \<le> length vs" and "test \<in> set (take n vs)"
    and "remove_from_array beyond vs n test = (vs', found)"
  shows "found" and "take (n - 1) vs' = remove1 test (take n vs)" and "length vs' = length vs"
proof -
  have ex: "\<exists>k. k < n \<and> vs ! k = test"
    using assms(1,2) by (auto simp: in_set_conv_nth)
  define k where "k = (LEAST k. k < n \<and> vs ! k = test)"
  have k: "k < n" "vs ! k = test" using LeastI_ex [OF ex] by (auto simp: k_def)
  have least: "vs ! j \<noteq> test" if "j < k" for j
    using not_less_Least [of j "\<lambda>k. k < n \<and> vs ! k = test"] that k(1) by (auto simp: k_def)
  have res: "vs' = take k vs @ map (\<lambda>k. read_int beyond vs (k + 1)) [k..<n] @ drop n vs" "found"
    using remove_loop_search [of 0 k n vs test beyond] k least assms(1,3)
    by (auto simp: remove_from_array_def)
  show found by (rule res(2))
  show "length vs' = length vs" using res(1) assms(1) k(1) by simp
  have "map (\<lambda>k. read_int beyond vs (k + 1)) [k..<n - 1] = drop (Suc k) (take n vs)"
  proof (rule nth_equalityI)
    show "length (map (\<lambda>k. read_int beyond vs (k + 1)) [k..<n - 1]) = length (drop (Suc k) (take n vs))"
      using assms(1) by simp
  qed (use assms(1) in \<open>auto simp: read_int_def\<close>)
  moreover have "[k..<n] = [k..<n - 1] @ [n - 1]"
    using k(1) by (cases n) auto
  ultimately have "take (n - 1) vs' = take k vs @ drop (Suc k) (take n vs)"
    using res(1) k(1) assms(1) by simp
  also have "\<dots> = remove1 test (take n vs)"
    using remove1_at [of k "take n vs" test] k least assms(1) by (simp add: min_def)
  finally show "take (n - 1) vs' = remove1 test (take n vs)" .
qed

lemma remove_from_array_absent:
  "n \<le> length vs \<Longrightarrow> test \<notin> set (take n vs) \<Longrightarrow> remove_from_array beyond vs n test = (vs, False)"
  by (simp add: remove_from_array_def remove_loop_absent)

lemma remove_from_array_found_iff:
  assumes "n \<le> length vs"
  shows "snd (remove_from_array beyond vs n test) \<longleftrightarrow> test \<in> set (take n vs)"
proof (cases "test \<in> set (take n vs)")
  case True
  obtain vs' found where "remove_from_array beyond vs n test = (vs', found)" by force
  with remove_from_array_present(1) [OF assms True this] True show ?thesis by simp
next
  case False
  then show ?thesis using remove_from_array_absent [OF assms False] by simp
qed

end
