(* ===== verification/PoolInv.thy ===== *)
theory PoolInv
  imports Pool
begin

text \<open>
  The invariant of the tracker pool and what its operations do to the two sets of trackers and
  to the connection stacks. The abstract view of the arrays is the list of entries in use.
\<close>

section \<open>The abstract view and the invariant\<close>

definition actives :: "tracker_pool \<Rightarrow> nat list" where
  "actives p = take (pl_active_tracker_count p) (pl_active_trackers p)"

definition inactives :: "tracker_pool \<Rightarrow> nat list" where
  "inactives p = take (pl_inactive_tracker_count p) (pl_inactive_trackers p)"

definition stack_of :: "tracker_pool \<Rightarrow> nat \<Rightarrow> tracker_connection_pool_entry list" where
  "stack_of p i = cp_stack (pl_connection_pools p ! i)"

definition pool_ok :: "tracker_pool \<Rightarrow> bool" where
  "pool_ok p \<longleftrightarrow>
     length (pl_trackers p) = pl_max_tracker_count p
     \<and> length (pl_active_trackers p) = pl_max_tracker_count p
     \<and> length (pl_inactive_trackers p) = pl_max_tracker_count p
     \<and> length (pl_connection_pools p) = pl_max_tracker_count p
     \<and> pl_tracker_count p \<le> pl_max_tracker_count p
     \<and> pl_active_tracker_count p + pl_inactive_tracker_count p = pl_tracker_count p
     \<and> distinct (actives p @ inactives p)
     \<and> set (actives p @ inactives p) = {..<pl_tracker_count p}"

lemma take_snoc_update:
  "n < length xs \<Longrightarrow> take (Suc n) (xs[n := x]) = take n xs @ [x]"
  by (simp add: take_Suc_conv_app_nth)

lemma activate_critical_view:
  assumes "pool_ok p"
  shows "actives (activate_critical b p i) = (if i \<in> set (inactives p) then actives p @ [i] else actives p)"
    and "inactives (activate_critical b p i) = remove1 i (inactives p)"
    and "i \<notin> set (inactives p) \<Longrightarrow> activate_critical b p i = p"
    and "pool_ok (activate_critical b p i)"
proof -
  obtain arr removed where r: "remove_from_array b (pl_inactive_trackers p)
      (pl_inactive_tracker_count p) i = (arr, removed)" by force
  have n: "pl_inactive_tracker_count p \<le> length (pl_inactive_trackers p)"
    using assms by (simp add: pool_ok_def)
  show abs: "i \<notin> set (inactives p) \<Longrightarrow> activate_critical b p i = p"
    using remove_from_array_absent [OF n, of i b] r
    by (simp add: activate_critical_def inactives_def)
  have in_case: "actives (activate_critical b p i) = actives p @ [i]
      \<and> inactives (activate_critical b p i) = remove1 i (inactives p)
      \<and> pool_ok (activate_critical b p i)" if i: "i \<in> set (inactives p)"
  proof -
    note rem = remove_from_array_present [OF n i [unfolded inactives_def] r]
    have lt: "0 < pl_inactive_tracker_count p" using i by (cases "pl_inactive_tracker_count p") (auto simp: inactives_def)
    then have a: "pl_active_tracker_count p < length (pl_active_trackers p)"
      using assms by (simp add: pool_ok_def)
    have av: "actives (activate_critical b p i) = actives p @ [i]"
      using r rem(1) take_snoc_update [OF a]
      by (simp add: activate_critical_def actives_def)
    have iv: "inactives (activate_critical b p i) = remove1 i (inactives p)"
      using r rem(1,2) by (simp add: activate_critical_def inactives_def)
    have d: "distinct (inactives p)" "i \<notin> set (actives p)"
      using assms i by (auto simp: pool_ok_def)
    have "pool_ok (activate_critical b p i)"
      unfolding pool_ok_def av iv using assms r rem(1,3) lt d i
      by (auto simp: activate_critical_def pool_ok_def set_remove1_eq distinct_remove1)
    with av iv show ?thesis by blast
  qed
  show "actives (activate_critical b p i) = (if i \<in> set (inactives p) then actives p @ [i] else actives p)"
    using in_case abs by auto
  show "inactives (activate_critical b p i) = remove1 i (inactives p)"
    using in_case abs by (cases "i \<in> set (inactives p)") (auto simp: remove1_idem)
  show "pool_ok (activate_critical b p i)"
    using in_case abs assms by (cases "i \<in> set (inactives p)") auto
qed

lemma deactivate_critical_view:
  assumes "pool_ok p" and "deactivate_critical b p i = (removed, p')"
  shows "removed \<longleftrightarrow> i \<in> set (actives p)"
    and "inactives p' = (if i \<in> set (actives p) then inactives p @ [i] else inactives p)"
    and "actives p' = remove1 i (actives p)"
    and "i \<notin> set (actives p) \<Longrightarrow> p' = p"
    and "pool_ok p'"
proof -
  obtain arr rem where r: "remove_from_array b (pl_active_trackers p)
      (pl_active_tracker_count p) i = (arr, rem)" by force
  have rm: "rem = removed" using assms(2) r by (simp add: deactivate_critical_def Let_def)
  have n: "pl_active_tracker_count p \<le> length (pl_active_trackers p)"
    using assms by (simp add: pool_ok_def)
  show iff: "removed \<longleftrightarrow> i \<in> set (actives p)"
    using remove_from_array_found_iff [OF n, of b i] r rm by (simp add: actives_def)
  show abs: "i \<notin> set (actives p) \<Longrightarrow> p' = p"
    using remove_from_array_absent [OF n, of i b] r assms(2)
    by (simp add: deactivate_critical_def actives_def)
  have in_case: "inactives p' = inactives p @ [i] \<and> actives p' = remove1 i (actives p) \<and> pool_ok p'"
    if i: "i \<in> set (actives p)"
  proof -
    note res = remove_from_array_present [OF n i [unfolded actives_def] r]
    have lt: "0 < pl_active_tracker_count p" using i by (cases "pl_active_tracker_count p") (auto simp: actives_def)
    then have a: "pl_inactive_tracker_count p < length (pl_inactive_trackers p)"
      using assms(1) by (simp add: pool_ok_def)
    have p': "p' = p\<lparr>pl_active_trackers := arr,
        pl_active_tracker_count := pl_active_tracker_count p - 1,
        pl_inactive_trackers := (pl_inactive_trackers p)[pl_inactive_tracker_count p := i],
        pl_inactive_tracker_count := pl_inactive_tracker_count p + 1\<rparr>"
      using assms(2) r res(1) by (simp add: deactivate_critical_def)
    have iv: "inactives p' = inactives p @ [i]"
      using take_snoc_update [OF a] by (simp add: p' inactives_def)
    have av: "actives p' = remove1 i (actives p)"
      using res(2) by (simp add: p' actives_def)
    have d: "distinct (actives p)" "i \<notin> set (inactives p)"
      using assms(1) i by (auto simp: pool_ok_def)
    have "pool_ok p'"
      unfolding pool_ok_def av iv using assms(1) res(3) lt d i
      by (auto simp: p' pool_ok_def set_remove1_eq distinct_remove1)
    with av iv show ?thesis by blast
  qed
  show "inactives p' = (if i \<in> set (actives p) then inactives p @ [i] else inactives p)"
    using in_case abs by auto
  show "actives p' = remove1 i (actives p)"
    using in_case abs by (cases "i \<in> set (actives p)") (auto simp: remove1_idem)
  show "pool_ok p'"
    using in_case abs assms(1) by (cases "i \<in> set (actives p)") auto
qed

section \<open>Activation as an interface\<close>

text \<open>
  What the clients of the pool (the request loop and the maintenance thread) rely on when they
  switch trackers on and off: two lists that partition the members, moved between by
  \<open>act\<close> and \<open>deact\<close>.
\<close>

locale activation =
  fixes act :: "'s \<Rightarrow> nat \<Rightarrow> 's"
    and deact :: "'s \<Rightarrow> nat \<Rightarrow> 's"
    and on :: "'s \<Rightarrow> nat list"
    and off :: "'s \<Rightarrow> nat list"
    and invar :: "'s \<Rightarrow> bool"
  assumes act_on: "invar s \<Longrightarrow> on (act s i) = (if i \<in> set (off s) then on s @ [i] else on s)"
    and act_off: "invar s \<Longrightarrow> off (act s i) = remove1 i (off s)"
    and deact_on: "invar s \<Longrightarrow> on (deact s i) = remove1 i (on s)"
    and deact_off: "invar s \<Longrightarrow> off (deact s i) = (if i \<in> set (on s) then off s @ [i] else off s)"
    and act_invar: "invar s \<Longrightarrow> invar (act s i)"
    and deact_invar: "invar s \<Longrightarrow> invar (deact s i)"
    and partition: "invar s \<Longrightarrow> distinct (on s @ off s)"
begin

definition apply_op :: "'s \<Rightarrow> bool \<times> nat \<Rightarrow> 's" where
  "apply_op s op = (if fst op then act s (snd op) else deact s (snd op))"

lemma apply_op_invar: "invar s \<Longrightarrow> invar (apply_op s op)"
  by (simp add: apply_op_def act_invar deact_invar)

lemma apply_op_members:
  "invar s \<Longrightarrow> set (on (apply_op s op)) \<union> set (off (apply_op s op)) = set (on s) \<union> set (off s)"
  using partition [of s]
  by (auto simp: apply_op_def act_on act_off deact_on deact_off set_remove1_eq split: if_splits)

lemma apply_op_on:
  "invar s \<Longrightarrow> i \<in> set (on s) \<union> set (off s) \<Longrightarrow>
   i \<in> set (on (apply_op s op)) \<longleftrightarrow> (if snd op = i then fst op else i \<in> set (on s))"
  using partition [of s]
  by (auto simp: apply_op_def act_on deact_on set_remove1_eq split: if_splits)

lemma run_invar: "invar s \<Longrightarrow> invar (foldl apply_op s ops)"
  by (induction ops arbitrary: s) (auto intro: apply_op_invar)

lemma run_members:
  "invar s \<Longrightarrow> set (on (foldl apply_op s ops)) \<union> set (off (foldl apply_op s ops)) = set (on s) \<union> set (off s)"
  by (induction ops arbitrary: s) (auto simp: apply_op_invar apply_op_members)

lemma last_operation_wins:
  "invar s \<Longrightarrow> i \<in> set (on s) \<union> set (off s) \<Longrightarrow>
   i \<in> set (on (foldl apply_op s ops)) \<longleftrightarrow>
     (case filter (\<lambda>op. snd op = i) (rev ops) of [] \<Rightarrow> i \<in> set (on s) | op # _ \<Rightarrow> fst op)"
proof (induction ops rule: rev_induct)
  case Nil
  then show ?case by simp
next
  case (snoc op ops)
  then have "i \<in> set (on (foldl apply_op s ops)) \<union> set (off (foldl apply_op s ops))"
    by (simp only: run_members)
  with snoc show ?case by (simp add: apply_op_on run_invar)
qed

end

definition activate_step :: "nat \<Rightarrow> tracker_pool \<Rightarrow> nat \<Rightarrow> tracker_pool" where
  "activate_step b p i = activate_critical b p i"

definition deactivate_step :: "nat \<Rightarrow> tracker_pool \<Rightarrow> nat \<Rightarrow> tracker_pool" where
  "deactivate_step b p i = snd (deactivate_critical b p i)"

lemma deactivate_step_view:
  assumes "pool_ok p"
  shows "inactives (deactivate_step b p i) = (if i \<in> set (actives p) then inactives p @ [i] else inactives p)"
    and "actives (deactivate_step b p i) = remove1 i (actives p)"
    and "pool_ok (deactivate_step b p i)"
proof -
  obtain removed p' where d: "deactivate_critical b p i = (removed, p')" by force
  note view = deactivate_critical_view [OF assms d]
  have s: "deactivate_step b p i = p'" by (simp add: deactivate_step_def d)
  show "inactives (deactivate_step b p i) = (if i \<in> set (actives p) then inactives p @ [i] else inactives p)"
    unfolding s by (rule view(2))
  show "actives (deactivate_step b p i) = remove1 i (actives p)"
    unfolding s by (rule view(3))
  show "pool_ok (deactivate_step b p i)"
    unfolding s by (rule view(5))
qed

interpretation pool_act: activation "activate_step b" "deactivate_step b" actives inactives pool_ok
  for b
  by unfold_locales
     (simp_all add: activate_step_def activate_critical_view deactivate_step_view, simp add: pool_ok_def)

end
