(* ===== verification/PoolIter.thy ===== *)
theory PoolIter
  imports PoolInv
begin

text \<open>
  Iteration over a snapshot of the trackers: the random start lies in the snapshot, and the loop
  \<open>while((tracker = mfs_pool_next_tracker(list, trackers)) != NULL)\<close> meets every tracker of
  the snapshot once, in the rotation that begins at the start, and then ends.
\<close>

section \<open>The start position\<close>

lemma half_even_le: "m \<le> c * d \<Longrightarrow> 0 < d \<Longrightarrow> half_even m d \<le> c"
proof -
  assume m: "m \<le> c * d" and d: "0 < d"
  show ?thesis
  proof (cases "m = c * d")
    case True
    then show ?thesis using d by (simp add: half_even_def)
  next
    case False
    with m d have "m div d < c" by (simp add: div_less_iff_less_mult)
    then show ?thesis by (simp add: half_even_def Let_def)
  qed
qed

lemma bit_count_eqs: "bit_count 0 = 0" "0 < n \<Longrightarrow> bit_count n = Suc (bit_count (n div 2))"
  by (simp_all add: bit_count.simps [of 0] bit_count.simps [of n])

lemma bit_count_le: "m < 2 ^ j \<Longrightarrow> bit_count m \<le> j"
proof (induction m arbitrary: j rule: bit_count.induct)
  case (1 m)
  show ?case
  proof (cases "m = 0")
    case True
    then show ?thesis by (simp add: bit_count.simps [of 0])
  next
    case False
    then obtain j' where j: "j = Suc j'" using 1(2) by (cases j) auto
    then have "m div 2 < 2 ^ j'" using 1(2) by auto
    then have "bit_count (m div 2) \<le> j'" using 1(1) False by blast
    then show ?thesis using False j by (simp add: bit_count.simps [of m])
  qed
qed

lemma float32_le:
  assumes "m \<le> c * 2 ^ e" and "c < 2 ^ 24"
  shows "float32 m \<le> c * 2 ^ e"
proof -
  define k where "k = bit_count m - 24"
  have "m < 2 ^ (24 + e)"
    using le_less_trans [OF assms(1) mult_strict_right_mono [OF assms(2), of "2 ^ e"]]
    by (simp add: power_add)
  then have k: "k \<le> e" using bit_count_le [of m "24 + e"] by (simp add: k_def)
  then have split: "(2::nat) ^ e = 2 ^ (e - k) * 2 ^ k" by (simp add: power_add [symmetric])
  have "half_even m (2 ^ k) \<le> c * 2 ^ (e - k)"
    by (rule half_even_le) (use assms(1) split in \<open>simp_all add: mult.assoc\<close>)
  then have "half_even m (2 ^ k) * 2 ^ k \<le> c * 2 ^ (e - k) * 2 ^ k" by simp
  then show ?thesis by (simp add: float32_def k_def [symmetric] Let_def split mult.assoc)
qed

lemma start_position_bounds:
  assumes "r \<le> RAND_MAX" and "0 < n" and "n \<le> 2 ^ 24"
  shows "0 \<le> start_position r n \<and> start_position r n < int n"
proof -
  have "float32 r \<le> 1 * 2 ^ 31"
    by (rule float32_le) (use assms(1) in \<open>simp_all add: RAND_MAX_def\<close>)
  moreover have "float32 (n - 1) \<le> (n - 1) * 2 ^ 0"
    by (rule float32_le) (use assms(2,3) in auto)
  ultimately have "float32 r * float32 (n - 1) \<le> (n - 1) * 2 ^ 31"
    using mult_le_mono [of "float32 r" "2 ^ 31" "float32 (n - 1)" "n - 1"] by (simp add: mult.commute)
  then have "float32 (float32 r * float32 (n - 1)) \<le> (n - 1) * 2 ^ 31"
    by (rule float32_le) (use assms(2,3) in auto)
  then have "half_even (float32 (float32 r * float32 (n - 1))) (2 ^ 31) \<le> n - 1"
    by (rule half_even_le) simp
  then show ?thesis using assms(2) by (simp add: start_position_def)
qed

section \<open>Well-formed lists\<close>

definition list_ok :: "tracker_list \<Rightarrow> bool" where
  "list_ok l \<longleftrightarrow> tl_tracker_count l = length (tl_tracker_indexes l)
     \<and> 0 \<le> tl_start_postion l \<and> tl_start_postion l < int (tl_tracker_count l)
     \<and> tl_current_position l = -1"

lemma list_trackers_ok:
  assumes "rand_law E" and "list_trackers E lock arr count w = (Some l, w')"
    and "count \<le> length arr" and "count \<le> 2 ^ 24"
  shows "list_ok l" and "tl_tracker_indexes l = take count arr" and "0 < count"
proof -
  obtain st w1 where rd: "apr_thread_rwlock_rdlock E lock w = (st, w1)" by force
  obtain st2 w2 where un: "apr_thread_rwlock_unlock E lock w1 = (st2, w2)" by force
  obtain r w3 where rand: "c_rand E w2 = (r, w3)" by force
  have r: "r \<le> RAND_MAX" using assms(1) rand unfolding rand_law_def by (metis fst_conv)
  have c: "0 < count" using assms(2) by (cases count) (auto simp: list_trackers_def)
  have st: "st = APR_SUCCESS" using assms(2) rd c by (auto simp: list_trackers_def split: if_splits)
  then have l: "l = \<lparr>tl_tracker_indexes = take count arr, tl_tracker_count = count,
      tl_current_position = -1, tl_start_postion = start_position r count\<rparr>"
    using assms(2) rd un rand c by (auto simp: list_trackers_def)
  show "0 < count" by (rule c)
  show "tl_tracker_indexes l = take count arr" by (simp add: l)
  show "list_ok l" using start_position_bounds [OF r c assms(4)] assms(3) by (simp add: list_ok_def l)
qed

section \<open>The loop\<close>

text \<open>
  The loop over a list, with the extra condition \<open>go\<close> on the state that the request loop has.
  \<open>pool_of\<close> finds the tracker pool in the loop's state; the body gets the current index.
\<close>

partial_function (option) tracker_loop ::
  "('s \<Rightarrow> bool) \<Rightarrow> ('s \<Rightarrow> tracker_pool) \<Rightarrow> (nat \<Rightarrow> 's \<Rightarrow> 's option) \<Rightarrow> tracker_list \<Rightarrow> 's \<Rightarrow> 's option" where
  "tracker_loop go pool_of body l s =
     (if go s then
        (case mfs_pool_next_tracker l (pool_of s) of
           (None, l) \<Rightarrow> Some s
         | (Some tracker, l) \<Rightarrow> do {
             s \<leftarrow> body (mfs_pool_current_tracker_index l) s;
             tracker_loop go pool_of body l s
           })
      else Some s)"

fun visit :: "('s \<Rightarrow> bool) \<Rightarrow> (nat \<Rightarrow> 's \<Rightarrow> 's option) \<Rightarrow> nat list \<Rightarrow> 's \<Rightarrow> 's option" where
  "visit go body [] s = Some s"
| "visit go body (i # is) s =
     (if go s then Option.bind (body i s) (visit go body is) else Some s)"

text \<open>The indexes the loop has still to meet when it stands at position \<open>k\<close>.\<close>

definition remaining :: "nat list \<Rightarrow> nat \<Rightarrow> nat \<Rightarrow> nat list" where
  "remaining is start k = (if start \<le> k then drop (k + 1) is @ take start is
                           else drop (k + 1) (take start is))"

lemma remaining_next:
  assumes "start < length is" and "k < length is"
  defines "k' \<equiv> (if k + 1 \<ge> length is then 0 else k + 1)"
  shows "remaining is start k = (if k' = start then [] else is ! k' # remaining is start k')"
proof (cases "start \<le> k")
  case True
  show ?thesis
  proof (cases "k + 1 \<ge> length is")
    case True
    have "take start is = (if start = 0 then [] else is ! 0 # drop 1 (take start is))"
      using assms(1) by (cases "is"; cases start) auto
    then show ?thesis
      using True \<open>start \<le> k\<close> assms by (auto simp: remaining_def)
  next
    case False
    then have "drop (k + 1) is = is ! (k + 1) # drop (k + 1 + 1) is"
      using Cons_nth_drop_Suc [of "k + 1" "is"] by simp
    then show ?thesis using False True assms by (auto simp: remaining_def)
  qed
next
  case False
  then have k': "k' = k + 1" using assms by auto
  show ?thesis
  proof (cases "k + 1 = start")
    case True
    then show ?thesis using False k' by (simp add: remaining_def)
  next
    case False
    then have "drop (k + 1) (take start is) = is ! (k + 1) # drop (k + 1 + 1) (take start is)"
      using assms(1) \<open>\<not> start \<le> k\<close> drop_take_Cons [of "k + 1" start "is"] by simp
    then show ?thesis using False k' \<open>\<not> start \<le> k\<close> by (simp add: remaining_def)
  qed
qed

lemma tracker_loop_visit_from:
  assumes "tl_tracker_count l = length is" and "tl_tracker_indexes l = is"
    and "tl_start_postion l = int start" and "start < length is"
    and "tl_current_position l = int k" and "k < length is"
  shows "tracker_loop go pool_of body l s = visit go body (remaining is start k) s"
  using assms
proof (induction "length (remaining is start k)" arbitrary: l k s)
  case 0
  define k' where "k' = (if k + 1 \<ge> length is then 0 else k + 1)"
  have "remaining is start k = []" using 0 by simp
  then have "k' = start"
    using remaining_next [OF 0(5) 0(7)] by (auto simp: k'_def split: if_splits)
  then have "fst (mfs_pool_next_tracker l (pool_of s)) = None"
    using 0 by (auto simp: mfs_pool_next_tracker_def Let_def k'_def split: if_splits)
  then show ?case
    using \<open>remaining is start k = []\<close>
    by (subst tracker_loop.simps) (auto split: prod.splits option.splits)
next
  case (Suc n)
  define k' where "k' = (if k + 1 \<ge> length is then 0 else k + 1)"
  have rem: "k' \<noteq> start" "remaining is start k = is ! k' # remaining is start k'"
    using remaining_next [OF Suc(6) Suc(8)] Suc(2) by (auto simp: k'_def split: if_splits)
  define l' where "l' = l\<lparr>tl_current_position := int k'\<rparr>"
  have next_t: "mfs_pool_next_tracker l (pool_of s) =
      (Some (pl_trackers (pool_of s) ! (is ! k')), l')"
    using Suc.prems rem(1)
    by (cases "k + 1 \<ge> length is")
      (auto simp: mfs_pool_next_tracker_def mfs_pool_current_tracker_index_def Let_def k'_def l'_def nat_add_distrib)
  have idx: "mfs_pool_current_tracker_index l' = is ! k'"
    using Suc.prems by (simp add: mfs_pool_current_tracker_index_def l'_def)
  have "k' < length is" using Suc.prems by (auto simp: k'_def)
  then have IH: "tracker_loop go pool_of body l' = visit go body (remaining is start k')"
    using Suc.hyps(2) rem(2) Suc.prems by (intro ext Suc.hyps(1)) (simp_all add: l'_def)
  show ?case
    by (subst tracker_loop.simps) (simp add: next_t idx IH rem(2))
qed

lemma tracker_loop_visit:
  assumes "list_ok l"
  shows "tracker_loop go pool_of body l s =
    visit go body (rotate (nat (tl_start_postion l)) (tl_tracker_indexes l)) s"
proof -
  define start where "start = nat (tl_start_postion l)"
  let ?is = "tl_tracker_indexes l"
  have s: "tl_start_postion l = int start" "start < length ?is" "tl_tracker_count l = length ?is"
    using assms by (auto simp: list_ok_def start_def)
  define l' where "l' = l\<lparr>tl_current_position := int start\<rparr>"
  have next_t: "mfs_pool_next_tracker l (pool_of s) = (Some (pl_trackers (pool_of s) ! (?is ! start)), l')"
    using assms s by (simp add: list_ok_def mfs_pool_next_tracker_def mfs_pool_current_tracker_index_def l'_def)
  have idx: "mfs_pool_current_tracker_index l' = ?is ! start"
    by (simp add: mfs_pool_current_tracker_index_def l'_def)
  have from_start: "tracker_loop go pool_of body l' = visit go body (remaining ?is start start)"
    by (intro ext tracker_loop_visit_from) (use s in \<open>simp_all add: l'_def\<close>)
  have "rotate start ?is = ?is ! start # remaining ?is start start"
    using s(2) by (simp add: rotate_drop_take remaining_def Cons_nth_drop_Suc [symmetric])
  then show ?thesis
    unfolding start_def [symmetric] by (subst tracker_loop.simps) (simp add: next_t idx from_start)
qed

text \<open>Loop rules: an invariant of the body is one of the loop, and a body that returns makes it return.\<close>

lemma visit_invariant:
  assumes "\<And>i s s'. i \<in> set is \<Longrightarrow> I s \<Longrightarrow> go s \<Longrightarrow> body i s = Some s' \<Longrightarrow> I s'"
    and "I s" and "visit go body is s = Some s'"
  shows "I s'"
  using assms
proof (induction "is" arbitrary: s)
  case (Cons i "is")
  show ?case
  proof (cases "go s")
    case True
    then obtain s1 where "body i s = Some s1" "visit go body is s1 = Some s'"
      using Cons.prems(3) by (auto split: bind_splits)
    with Cons True show ?thesis by (meson list.set_intros)
  next
    case False
    with Cons show ?thesis by simp
  qed
qed simp

lemma visit_stopped: "\<not> go s \<Longrightarrow> visit go body is s = Some s"
  by (cases "is") auto

lemma visit_total:
  assumes "\<And>i s. i \<in> set is \<Longrightarrow> I s \<Longrightarrow> go s \<Longrightarrow> \<exists>s'. body i s = Some s' \<and> I s'" and "I s"
  shows "\<exists>s'. visit go body is s = Some s' \<and> I s'"
  using assms
proof (induction "is" arbitrary: s)
  case (Cons i "is")
  show ?case
  proof (cases "go s")
    case True
    with Cons.prems obtain s1 where s1: "body i s = Some s1" "I s1" by (meson list.set_intros(1))
    then have "\<exists>s'. visit go body is s1 = Some s' \<and> I s'"
      by (intro Cons.IH) (auto intro: Cons.prems(1))
    with s1 True show ?thesis by simp
  next
    case False
    with Cons show ?thesis by simp
  qed
qed simp

section \<open>Snapshots of the pool\<close>

lemma list_active_ok:
  assumes "rand_law E" and "pool_ok p" and "pl_max_tracker_count p \<le> 2 ^ 24"
    and "mfs_pool_list_active_trackers E p w = (Some l, w')"
  shows "list_ok l" and "tl_tracker_indexes l = actives p"
  using list_trackers_ok [OF assms(1) assms(4) [unfolded mfs_pool_list_active_trackers_def]] assms(2,3)
  by (auto simp: pool_ok_def actives_def)

lemma list_inactive_ok:
  assumes "rand_law E" and "pool_ok p" and "pl_max_tracker_count p \<le> 2 ^ 24"
    and "mfs_pool_list_inactive_trackers E p w = (Some l, w')"
  shows "list_ok l" and "tl_tracker_indexes l = inactives p"
  using list_trackers_ok [OF assms(1) assms(4) [unfolded mfs_pool_list_inactive_trackers_def]] assms(2,3)
  by (auto simp: pool_ok_def inactives_def)

lemma visit_collect: "visit (\<lambda>_. True) (\<lambda>i s. Some (s @ [i])) is s = Some (s @ is)"
  by (induction "is" arbitrary: s) auto

text \<open>
 The random start lies in the list: rounding the \<open>float\<close> product never reaches the
  number of trackers, even when \<open>rand()\<close> returns \<open>RAND_MAX\<close>.
\<close>

theorem start_position_in_list:
  "r \<le> RAND_MAX \<Longrightarrow> 0 < n \<Longrightarrow> n \<le> 2 ^ 24 \<Longrightarrow> 0 \<le> start_position r n \<and> start_position r n < int n"
  by (rule start_position_bounds)

theorem start_position_in_list_witness:
  "0 \<le> start_position RAND_MAX 3 \<and> start_position RAND_MAX 3 < 3"
  using start_position_in_list [of RAND_MAX 3] by simp

text \<open>
  C18: Iterating over a snapshot of the active trackers meets each of them exactly once, in the
  rotation that begins at the random start, and then returns NULL: the loop terminates.
\<close>

theorem iteration_meets_every_tracker_once:
  assumes "rand_law E" and "pool_ok p" and "pl_max_tracker_count p \<le> 2 ^ 24"
    and "mfs_pool_list_active_trackers E p w = (Some l, w')"
  shows "tracker_loop (\<lambda>_. True) (\<lambda>_. p) (\<lambda>i s. Some (s @ [i])) l [] =
      Some (rotate (nat (tl_start_postion l)) (actives p))
    \<and> distinct (rotate (nat (tl_start_postion l)) (actives p))"
proof
  note ok = list_active_ok [OF assms]
  show "tracker_loop (\<lambda>_. True) (\<lambda>_. p) (\<lambda>i s. Some (s @ [i])) l [] =
      Some (rotate (nat (tl_start_postion l)) (actives p))"
    by (simp add: tracker_loop_visit [OF ok(1)] ok(2) visit_collect)
  show "distinct (rotate (nat (tl_start_postion l)) (actives p))"
    using assms(2) by (simp add: pool_ok_def)
qed

text \<open>A pool of three trackers, two of them active, each with a mutex and an empty ring.\<close>

definition sample_pool :: tracker_pool where
  "sample_pool = \<lparr>pl_trackers = [unset_tracker, unset_tracker, unset_tracker], pl_tracker_count = 3,
     pl_active_trackers = [2, 0, 0], pl_active_tracker_count = 2,
     pl_inactive_trackers = [1, 0, 0], pl_inactive_tracker_count = 1, pl_max_tracker_count = 3,
     pl_connection_pools = replicate 3 \<lparr>cp_lock = 7, cp_connection_count = 0, cp_stack = []\<rparr>,
     pl_lock = 5, pl_pool = 4, pl_maintenance_mutex = 6, pl_maintenance_cond = 8,
     pl_maintenance_thread = None, pl_pool_running = True,
     pl_maintenance_thread_running = False, pl_maintenance_thread_check_count = 0\<rparr>"

lemma sample_pool_ok: "pool_ok sample_pool"
  by (auto simp: pool_ok_def sample_pool_def actives_def inactives_def)

lemma sample_pool_lists: "actives sample_pool = [2, 0]" "inactives sample_pool = [1]"
  by (simp_all add: sample_pool_def actives_def inactives_def)

theorem iteration_meets_every_tracker_once_witness:
  "\<exists>l w'. mfs_pool_list_active_trackers sim_apr sample_pool (sim0\<lparr>sim_rands := [RAND_MAX]\<rparr>) = (Some l, w')
     \<and> tracker_loop (\<lambda>_. True) (\<lambda>_. sample_pool) (\<lambda>i s. Some (s @ [i])) l [] = Some [0, 2]"
proof -
  have s: "start_position RAND_MAX 2 = 1"
    by (simp add: start_position_def float32_def RAND_MAX_def bit_count_eqs half_even_def Let_def)
  let ?l = "\<lparr>tl_tracker_indexes = [2, 0], tl_tracker_count = 2, tl_current_position = -1,
      tl_start_postion = 1\<rparr>"
  have l: "mfs_pool_list_active_trackers sim_apr sample_pool (sim0\<lparr>sim_rands := [RAND_MAX]\<rparr>) = (Some ?l, sim0)"
    by (simp add: mfs_pool_list_active_trackers_def list_trackers_def sample_pool_def sim_apr_def
        sim_rand_def s) (simp add: sim0_def)
  have "pl_max_tracker_count sample_pool \<le> 2 ^ 24" by (simp add: sample_pool_def)
  from iteration_meets_every_tracker_once [OF sim_rand_law sample_pool_ok this l] l
  show ?thesis by (auto simp: sample_pool_lists)
qed

end
