(* ===== verification/PoolConn.thy ===== *)
theory PoolConn
  imports PoolIter "HOL-Library.Multiset"
begin

text \<open>
  Ownership of connections. Every tracker connection owns a memory pool and is at any time either
  idle in one of the stacks or held by the caller of \<open>mfs_pool_get_connection_ex\<close>; the
  invariant below says that the memory pools alive are exactly those, each owned once, plus the
  pools that do not belong to connections. Nothing leaks and nothing is closed twice.
\<close>

section \<open>The invariant\<close>

definition entry_pool :: "tracker_connection_pool_entry \<Rightarrow> handle" where
  "entry_pool e = tc_pool (e_connection e)"

definition conns :: "tracker_connection_pool \<Rightarrow> handle multiset" where
  "conns cp = mset (map entry_pool (cp_stack cp))"

definition idle :: "tracker_pool \<Rightarrow> handle multiset" where
  "idle p = (\<Sum>cp \<leftarrow> pl_connection_pools p. conns cp)"

text \<open>\<open>H\<close> is what callers hold and \<open>X\<close> the memory pools that are not connections.\<close>

definition conn_inv ::
  "('w \<Rightarrow> handle set) \<Rightarrow> handle set \<Rightarrow> tracker_pool \<Rightarrow> 'w \<Rightarrow> handle multiset \<Rightarrow> bool" where
  "conn_inv live X p w H \<longleftrightarrow>
     (\<forall>q. count (idle p + H) q \<le> 1)
     \<and> live w = X \<union> set_mset (idle p + H)
     \<and> X \<inter> set_mset (idle p + H) = {}"

definition only_stacks :: "tracker_pool \<Rightarrow> tracker_pool \<Rightarrow> bool" where
  "only_stacks p p' \<longleftrightarrow> p' = p\<lparr>pl_connection_pools := pl_connection_pools p'\<rparr>
     \<and> length (pl_connection_pools p') = length (pl_connection_pools p)"

lemma only_stacks_refl: "only_stacks p p"
  by (simp add: only_stacks_def)

lemma only_stacks_trans: "only_stacks p q \<Longrightarrow> only_stacks q r \<Longrightarrow> only_stacks p r"
  unfolding only_stacks_def by (metis tracker_pool.update_convs(8) tracker_pool.surjective tracker_pool.select_convs(8))

lemma idle_set_connection_pool:
  assumes "i < length (pl_connection_pools p)"
  shows "idle (set_connection_pool p i cp) + conns (pl_connection_pools p ! i) = idle p + conns cp"
proof -
  let ?xs = "pl_connection_pools p"
  have "?xs = take i ?xs @ ?xs ! i # drop (Suc i) ?xs"
    using assms by (rule id_take_nth_drop)
  then have "idle p = (\<Sum>x \<leftarrow> take i ?xs @ ?xs ! i # drop (Suc i) ?xs. conns x)"
    by (simp add: idle_def)
  moreover have "?xs[i := cp] = take i ?xs @ cp # drop (Suc i) ?xs"
    using assms by (rule upd_conv_take_nth_drop)
  ultimately show ?thesis by (simp add: idle_def set_connection_pool_def)
qed

lemma conn_inv_frame: "conn_inv live X p w H \<Longrightarrow> live w' = live w \<Longrightarrow> conn_inv live X p w' H"
  by (simp add: conn_inv_def)

lemma conn_inv_move:
  "conn_inv live X p w H \<Longrightarrow> idle p + H = idle p' + H' \<Longrightarrow> conn_inv live X p' w H'"
  by (simp add: conn_inv_def)

section \<open>Pushing and popping\<close>

lemma pop_entry_some:
  assumes "pop_entry p i = (Some e, p')" and "i < length (pl_connection_pools p)"
  shows "idle p = add_mset (entry_pool e) (idle p')" and "only_stacks p p'"
proof -
  let ?cp = "pl_connection_pools p ! i"
  obtain es where es: "cp_stack ?cp = e # es"
    and p': "p' = set_connection_pool p i
        (?cp\<lparr>cp_stack := es, cp_connection_count := cp_connection_count ?cp - 1\<rparr>)"
    using assms by (auto simp: pop_entry_def Let_def split: list.splits if_splits)
  show "idle p = add_mset (entry_pool e) (idle p')"
    using idle_set_connection_pool [OF assms(2), of "?cp\<lparr>cp_stack := es,
        cp_connection_count := cp_connection_count ?cp - 1\<rparr>"] es
    by (simp add: p' conns_def)
  show "only_stacks p p'" by (simp add: p' only_stacks_def set_connection_pool_def)
qed

lemma pop_entry_none: "pop_entry p i = (None, p') \<Longrightarrow> p' = p"
  by (auto simp: pop_entry_def Let_def split: list.splits if_splits)

lemma push_entry_idle:
  assumes "i < length (pl_connection_pools p)"
  shows "idle (push_entry p i e) = add_mset (entry_pool e) (idle p)" and "only_stacks p (push_entry p i e)"
proof -
  let ?cp = "pl_connection_pools p ! i"
  show "idle (push_entry p i e) = add_mset (entry_pool e) (idle p)"
    using idle_set_connection_pool [OF assms, of "?cp\<lparr>cp_stack := e # cp_stack ?cp,
        cp_connection_count := cp_connection_count ?cp + 1\<rparr>"]
    by (simp add: push_entry_def Let_def conns_def)
  show "only_stacks p (push_entry p i e)"
    by (simp add: push_entry_def Let_def only_stacks_def set_connection_pool_def)
qed

section \<open>Whole operations\<close>

definition held :: "tracker_connection_pool_entry option \<Rightarrow> handle multiset" where
  "held eo = (case eo of None \<Rightarrow> {#} | Some e \<Rightarrow> {#entry_pool e#})"

lemma held_simps [simp]: "held None = {#}" "held (Some e) = {#entry_pool e#}"
  by (simp_all add: held_def)

lemma pop_locked_conn:
  assumes "pool_law E live" and "pop_locked E p i w = ((locked, eo), p', w')"
    and "i < length (pl_connection_pools p)" and "conn_inv live X p w H"
  shows "conn_inv live X p' w' (held eo + H)" and "only_stacks p p'" and "live w' = live w"
    and "\<not> locked \<Longrightarrow> eo = None"
proof -
  obtain st w1 where lock: "apr_thread_mutex_lock E (cp_lock (pl_connection_pools p ! i)) w = (st, w1)"
    by force
  note live1 = live_frames(11) [OF assms(1) lock]
  have "conn_inv live X p' w' (held eo + H) \<and> only_stacks p p' \<and> live w' = live w \<and> (\<not> locked \<longrightarrow> eo = None)"
  proof (cases "st = APR_SUCCESS")
    case False
    then show ?thesis
      using assms(2,4) lock live1 by (auto simp: pop_locked_def only_stacks_refl intro: conn_inv_frame)
  next
    case True
    obtain eo' q where pop: "pop_entry p i = (eo', q)" by force
    obtain st2 w2 where un: "apr_thread_mutex_unlock E (cp_lock (pl_connection_pools q ! i)) w1 = (st2, w2)"
      by force
    have r: "eo = eo'" "p' = q" "w' = w2" "locked"
      using assms(2) lock pop un True by (auto simp: pop_locked_def)
    have live2: "live w' = live w" using live1 live_frames(12) [OF assms(1) un] r by simp
    have "idle p + H = idle q + (held eo' + H) \<and> only_stacks p q"
    proof (cases eo')
      case None
      then show ?thesis using pop_entry_none [of p i q] pop only_stacks_refl [of p] by simp
    next
      case (Some e)
      then show ?thesis using pop_entry_some [OF pop [unfolded Some] assms(3)] by simp
    qed
    then show ?thesis
      using conn_inv_frame [OF conn_inv_move [OF assms(4)] live2] live2 r by auto
  qed
  then show "conn_inv live X p' w' (held eo + H)" "only_stacks p p'" "live w' = live w"
    "\<not> locked \<Longrightarrow> eo = None" by auto
qed

lemma destroy_conn:
  assumes "pool_law E live" and "conn_inv live X p w (held (Some e) + H)"
  shows "conn_inv live X p (mfs_pool_destroy_connection E e w) H"
proof -
  let ?q = "entry_pool e"
  have "?q \<in> live w" using assms(2) by (simp add: conn_inv_def)
  then have "live (mfs_pool_destroy_connection E e w) = live w - {?q}"
    by (simp add: mfs_pool_destroy_connection_def destroy_connection_live [OF assms(1)] entry_pool_def)
  moreover have inv: "\<forall>q. count (add_mset ?q (idle p + H)) q \<le> 1"
      "live w = X \<union> insert ?q (set_mset (idle p + H))" "?q \<notin> X" "X \<inter> set_mset (idle p + H) = {}"
    using assms(2) by (auto simp: conn_inv_def)
  moreover have c: "\<forall>q. count (idle p + H) q \<le> 1"
    using inv(1) by (metis count_add_mset le_Suc_eq Suc_leD One_nat_def)
  moreover have "?q \<notin># idle p + H"
    using inv(1) [rule_format, of ?q] by (simp add: not_in_iff)
  ultimately show ?thesis
    unfolding conn_inv_def by auto
qed

lemma drain_conn:
  "drain_connections E p i w = (p', w') \<Longrightarrow> pool_law E live \<Longrightarrow> i < length (pl_connection_pools p) \<Longrightarrow>
   conn_inv live X p w H \<Longrightarrow> conn_inv live X p' w' H \<and> only_stacks p p'"
proof (induction E p i w arbitrary: p' w' rule: drain_connections.induct)
  case (1 E p i w)
  obtain locked eo q w1 where pop: "pop_locked E p i w = ((locked, eo), q, w1)"
    by (metis prod.exhaust)
  note popped = pop_locked_conn [OF 1(3) pop 1(4,5)]
  show ?case
  proof (cases eo)
    case None
    then show ?thesis
      using 1(2) pop popped by (simp add: drain_connections.simps [of E p i w])
  next
    case (Some e)
    have res: "drain_connections E q i (mfs_pool_destroy_connection E e w1) = (p', w')"
      using 1(2) pop Some by (simp add: drain_connections.simps [of E p i w])
    have len: "i < length (pl_connection_pools q)" using popped(2) 1(4) by (simp add: only_stacks_def)
    have "conn_inv live X q (mfs_pool_destroy_connection E e w1) H"
      using destroy_conn [OF 1(3)] popped(1) Some by simp
    from 1(1) [OF pop [symmetric] refl Some refl res 1(3) len this] popped(2)
    show ?thesis using only_stacks_trans by blast
  qed
qed

lemma same_conns_inv:
  "pl_connection_pools p' = pl_connection_pools p \<Longrightarrow> conn_inv live X p' w H = conn_inv live X p w H"
  by (simp add: conn_inv_def idle_def)

lemma activate_critical_conns: "pl_connection_pools (activate_critical b p i) = pl_connection_pools p"
  by (simp add: activate_critical_def Let_def split: prod.split)

lemma deactivate_critical_conns: "pl_connection_pools (snd (deactivate_critical b p i)) = pl_connection_pools p"
  by (simp add: deactivate_critical_def Let_def split: prod.split)

text \<open>
  Deactivating a tracker closes its idle connections; apart from the stacks the pool becomes what
  the critical section makes of it, or stays as it was if the lock cannot be taken.
\<close>

lemma pool_deactivate_conn:
  assumes "pool_law E live" and "mfs_pool_deactivate E p i w = (p', w')"
    and "i < length (pl_connection_pools p)" and "conn_inv live X p w H"
  shows "conn_inv live X p' w' H"
    and "only_stacks p p' \<or> only_stacks (deactivate_step (c_mem_after E) p i) p'"
    and "(\<forall>l w. fst (apr_thread_rwlock_wrlock E l w) = APR_SUCCESS) \<Longrightarrow>
         only_stacks (deactivate_step (c_mem_after E) p i) p'"
proof -
  let ?q = "deactivate_step (c_mem_after E) p i"
  obtain st w1 where lock: "apr_thread_rwlock_wrlock E (pl_lock p) w = (st, w1)" by force
  note live1 = live_frames(9) [OF assms(1) lock]
  have "conn_inv live X p' w' H \<and> (if st = APR_SUCCESS then only_stacks ?q p' else only_stacks p p')"
  proof (cases "st = APR_SUCCESS")
    case False
    then have "p' = p" "w' = w1"
      using assms(2) lock by (auto simp: mfs_pool_deactivate_def deactivate_locked_def)
    then show ?thesis using False conn_inv_frame [OF assms(4) live1] by (simp add: only_stacks_refl)
  next
    case True
    obtain removed q where crit: "deactivate_critical (c_mem_after E) p i = (removed, q)" by force
    have q: "?q = q" by (simp add: deactivate_step_def crit)
    obtain st2 w2 where un: "apr_thread_rwlock_unlock E (pl_lock q) w1 = (st2, w2)" by force
    have conns: "pl_connection_pools q = pl_connection_pools p"
      using deactivate_critical_conns [of "c_mem_after E" p i] crit by simp
    have lk: "pl_lock q = pl_lock p"
      using crit by (auto simp: deactivate_critical_def Let_def split: prod.splits if_splits)
    have inv: "conn_inv live X q w2 H"
      using conn_inv_frame [OF assms(4), of w2] live1 live_frames(10) [OF assms(1) un]
      by (simp add: same_conns_inv [OF conns])
    have res: "(if removed then drain_connections E q i w2 else (q, w2)) = (p', w')"
      using assms(2) lock crit un True lk
      by (simp add: mfs_pool_deactivate_def deactivate_locked_def split: if_splits)
    show ?thesis
    proof (cases removed)
      case True
      with res have "drain_connections E q i w2 = (p', w')" by simp
      from drain_conn [OF this assms(1) _ inv] assms(3) conns \<open>st = APR_SUCCESS\<close> q
      show ?thesis by simp
    next
      case False
      with res inv \<open>st = APR_SUCCESS\<close> q show ?thesis by (simp add: only_stacks_refl)
    qed
  qed
  then show "conn_inv live X p' w' H" "only_stacks p p' \<or> only_stacks ?q p'"
    "(\<forall>l w. fst (apr_thread_rwlock_wrlock E l w) = APR_SUCCESS) \<Longrightarrow> only_stacks ?q p'"
    using lock by (auto split: if_splits) (metis fst_conv)
qed

section \<open>Getting and returning connections\<close>

lemma held_new:
  assumes "conn_inv live X p w H" and "live w' = insert q (live w)" and "q \<notin> live w"
  shows "conn_inv live X p w' (add_mset q H)"
proof -
  have "q \<notin># idle p + H" "q \<notin> X" using assms(1,3) by (auto simp: conn_inv_def)
  moreover from this have "count (idle p + H) q = 0" by (simp add: not_in_iff)
  ultimately show ?thesis using assms(1,2) by (auto simp: conn_inv_def)
qed

lemma conn_inv_drop:
  assumes "conn_inv live X p w (add_mset q H)" and "live w' = live w - {q}"
  shows "conn_inv live X p w' H"
proof -
  have inv: "\<forall>x. count (add_mset q (idle p + H)) x \<le> 1"
      "live w = X \<union> insert q (set_mset (idle p + H))" "q \<notin> X" "X \<inter> set_mset (idle p + H) = {}"
    using assms(1) by (auto simp: conn_inv_def)
  have "\<forall>x. count (idle p + H) x \<le> 1" using inv(1) by (metis count_add_mset le_Suc_eq Suc_leD One_nat_def)
  moreover have "q \<notin># idle p + H" using inv(1) [rule_format, of q] by (simp add: not_in_iff)
  ultimately show ?thesis using inv assms(2) unfolding conn_inv_def by auto
qed

lemma get_connection_ex_conn:
  assumes "pool_law E live" and "mfs_pool_get_connection_ex E p i c timeout w = ((eo, is_new), p', w')"
    and "i < length (pl_connection_pools p)" and "conn_inv live X p w H"
  shows "conn_inv live X p' w' (held eo + H)"
    and "only_stacks p p' \<or> eo = None \<and> only_stacks (deactivate_step (c_mem_after E) p i) p'"
proof -
  obtain locked eo1 p1 w1 where pop: "pop_locked E p i w = ((locked, eo1), p1, w1)"
    by (metis prod.exhaust)
  note popped = pop_locked_conn [OF assms(1) pop assms(3,4)]
  have "conn_inv live X p' w' (held eo + H) \<and>
      (only_stacks p p' \<or> eo = None \<and> only_stacks (deactivate_step (c_mem_after E) p i) p')"
  proof (cases "\<not> locked \<or> \<not> c \<or> eo1 \<noteq> None")
    case True
    then have "eo = eo1" "p' = p1" "w' = w1"
      using assms(2) pop popped(4) by (auto simp: mfs_pool_get_connection_ex_def split: if_splits)
    then show ?thesis using popped by simp
  next
    case False
    have pl: "p1 = p" using pop False
      by (auto simp: pop_locked_def split: prod.splits if_splits dest: pop_entry_none)
    have inv1: "conn_inv live X p w1 H" using popped(1) False pl by simp
    obtain st q w2 where create: "apr_pool_create E w1 = ((st, q), w2)" by (metis prod.exhaust)
    note new = pool_create_live [OF assms(1) create]
    show ?thesis
    proof (cases "st = APR_SUCCESS")
      case False
      then have "eo = None" "p' = p" "w' = w2"
        using assms(2) pop \<open>\<not> (\<not> locked \<or> \<not> c \<or> eo1 \<noteq> None)\<close> create pl
        by (auto simp: mfs_pool_get_connection_ex_def)
      then show ?thesis using conn_inv_frame [OF inv1 new(2) [OF False]] by (simp add: only_stacks_refl)
    next
      case True
      obtain res w3 where con: "mfs_tracker_connect E (pl_trackers p ! i) q timeout w2 = (res, w3)" by force
      have inv3: "conn_inv live X p w3 (add_mset q H)"
        using held_new [OF inv1] new(1) [OF True] connect_live [OF assms(1) con] by simp
      show ?thesis
      proof (cases res)
        case (Inr cn)
        then have "eo = Some \<lparr>e_connection = cn, e_last_used = 0\<rparr>" "p' = p" "w' = w3"
          using assms(2) pop \<open>\<not> (\<not> locked \<or> \<not> c \<or> eo1 \<noteq> None)\<close> create con pl True
          by (auto simp: mfs_pool_get_connection_ex_def)
        then show ?thesis
          using inv3 connect_result [OF con [unfolded Inr]] by (simp add: entry_pool_def only_stacks_refl)
      next
        case (Inl st2)
        let ?w = "apr_pool_destroy E q w3"
        obtain p4 w4 where deact: "mfs_pool_deactivate E p i ?w = (p4, w4)" by force
        have r: "eo = None" "p' = p4" "w' = w4"
          using assms(2) pop \<open>\<not> (\<not> locked \<or> \<not> c \<or> eo1 \<noteq> None)\<close> create con pl True Inl deact
          by (auto simp: mfs_pool_get_connection_ex_def)
        have "q \<in> live w3" using inv3 by (simp add: conn_inv_def)
        then have "conn_inv live X p ?w H"
          by (rule conn_inv_drop [OF inv3 pool_destroy_live [OF assms(1)]])
        from pool_deactivate_conn(1,2) [OF assms(1) deact assms(3) this] show ?thesis
          unfolding r held_simps add_0 by blast
      qed
    qed
  qed
  then show "conn_inv live X p' w' (held eo + H)"
    "only_stacks p p' \<or> eo = None \<and> only_stacks (deactivate_step (c_mem_after E) p i) p'" by auto
qed

text \<open>Locking an initialised mutex succeeds.\<close>

definition mutex_law :: "'w apr \<Rightarrow> bool" where
  "mutex_law E \<longleftrightarrow> (\<forall>l w. fst (apr_thread_mutex_lock E l w) = APR_SUCCESS)"

lemma return_connection_conn:
  assumes "pool_law E live" and "mutex_law E" and "mfs_pool_return_connection E p i e w = (p', w')"
    and "i < length (pl_connection_pools p)" and "conn_inv live X p w (held (Some e) + H)"
  shows "conn_inv live X p' w' H" and "only_stacks p p'"
proof -
  obtain now w1 where now: "apr_time_now E w = (now, w1)" by force
  obtain st w2 where lock: "apr_thread_mutex_lock E (cp_lock (pl_connection_pools p ! i)) w1 = (st, w2)" by force
  obtain st2 w3 where un: "apr_thread_mutex_unlock E (cp_lock (pl_connection_pools p ! i)) w2 = (st2, w3)" by force
  have "st = APR_SUCCESS" using assms(2) lock unfolding mutex_law_def by (metis fst_conv)
  then have r: "p' = push_entry p i (e\<lparr>e_last_used := now\<rparr>)" "w' = w3"
    using assms(3) now lock un by (auto simp: mfs_pool_return_connection_def Let_def)
  have live3: "live w3 = live w"
    using live_frames(13) [OF assms(1) now] live_frames(11) [OF assms(1) lock]
      live_frames(12) [OF assms(1) un] by simp
  note push = push_entry_idle [OF assms(4), of "e\<lparr>e_last_used := now\<rparr>"]
  have "idle p + (held (Some e) + H) = idle p' + H"
    using push(1) r by (simp add: entry_pool_def)
  from conn_inv_frame [OF conn_inv_move [OF assms(5) this] live3] r push(2)
  show "conn_inv live X p' w' H" "only_stacks p p'" by auto
qed

section \<open>The pool as a provider of connections\<close>

text \<open>
  The contract that every client of the pool relies on: the request loop, the maintenance
  thread, and the watcher. \<open>inv p w H\<close> says the system is sound while the caller holds
  \<open>H\<close>; \<open>same w w'\<close> that talking over a connection changed nothing the pool depends on.
\<close>

locale connection_provider =
  fixes inv :: "'p \<Rightarrow> 'w \<Rightarrow> handle multiset \<Rightarrow> bool"
    and valid :: "'p \<Rightarrow> nat \<Rightarrow> bool"
    and same :: "'w \<Rightarrow> 'w \<Rightarrow> bool"
    and get :: "'p \<Rightarrow> nat \<Rightarrow> bool \<Rightarrow> int \<Rightarrow> 'w \<Rightarrow> (tracker_connection_pool_entry option \<times> bool) \<times> 'p \<times> 'w"
    and put :: "'p \<Rightarrow> nat \<Rightarrow> tracker_connection_pool_entry \<Rightarrow> 'w \<Rightarrow> 'p \<times> 'w"
    and close :: "tracker_connection_pool_entry \<Rightarrow> 'w \<Rightarrow> 'w"
  assumes get_inv: "inv p w H \<Longrightarrow> valid p i \<Longrightarrow> get p i c t w = ((eo, is_new), p', w') \<Longrightarrow>
      inv p' w' (held eo + H) \<and> (\<forall>j. valid p' j = valid p j)"
    and put_inv: "inv p w (held (Some e) + H) \<Longrightarrow> valid p i \<Longrightarrow> put p i e w = (p', w') \<Longrightarrow>
      inv p' w' H \<and> (\<forall>j. valid p' j = valid p j)"
    and close_inv: "inv p w (held (Some e) + H) \<Longrightarrow> inv p (close e w) H"
    and same_inv: "inv p w H \<Longrightarrow> same w w' \<Longrightarrow> inv p w' H"
begin

text \<open>A session: get a connection, talk over it, then give it back or close it.\<close>

lemma session_none:
  "inv p w H \<Longrightarrow> valid p i \<Longrightarrow> get p i c t w = ((None, is_new), p1, w1) \<Longrightarrow>
   inv p1 w1 H \<and> (\<forall>j. valid p1 j = valid p j)"
  using get_inv [of p w H i c t None is_new p1 w1] by simp

lemma session_open:
  "inv p w H \<Longrightarrow> valid p i \<Longrightarrow> get p i c t w = ((Some e, is_new), p1, w1) \<Longrightarrow> same w1 w2 \<Longrightarrow>
   inv p1 w2 (held (Some e) + H) \<and> (\<forall>j. valid p1 j = valid p j)"
  using get_inv same_inv by blast

lemma session_close:
  assumes "inv p w H" and "valid p i" and "get p i c t w = ((Some e, is_new), p1, w1)" and "same w1 w2"
  shows "inv p1 (close e w2) H \<and> (\<forall>j. valid p1 j = valid p j)"
  using session_open [OF assms] close_inv by blast

lemma session_put:
  assumes "inv p w H" and "valid p i" and "get p i c t w = ((Some e, is_new), p1, w1)" and "same w1 w2"
    and "put p1 i e w2 = (p2, w3)"
  shows "inv p2 w3 H \<and> (\<forall>j. valid p2 j = valid p j)"
  using session_open [OF assms(1-4)] put_inv [OF _ _ assms(5)] assms(2) by blast

end

text \<open>
  The pool's side of the contract. The invariant includes the laws of the environment, so the
  interpretation holds for every environment.
\<close>

definition sys_inv ::
  "'w apr \<Rightarrow> ('w \<Rightarrow> handle set) \<Rightarrow> handle set \<Rightarrow> tracker_pool \<Rightarrow> 'w \<Rightarrow> handle multiset \<Rightarrow> bool" where
  "sys_inv E live X p w H \<longleftrightarrow>
     pool_law E live \<and> mutex_law E \<and> rand_law E \<and> pl_max_tracker_count p \<le> 2 ^ 24
     \<and> pool_ok p \<and> conn_inv live X p w H"

definition registered :: "tracker_pool \<Rightarrow> nat \<Rightarrow> bool" where
  "registered p i \<longleftrightarrow> i < pl_tracker_count p"

lemma only_stacks_same:
  assumes "only_stacks p p'"
  shows "pool_ok p' = pool_ok p" and "actives p' = actives p" and "inactives p' = inactives p"
    and "pl_tracker_count p' = pl_tracker_count p" and "pl_max_tracker_count p' = pl_max_tracker_count p"
proof -
  have p': "p' = p\<lparr>pl_connection_pools := pl_connection_pools p'\<rparr>"
    and len: "length (pl_connection_pools p') = length (pl_connection_pools p)"
    using assms by (simp_all add: only_stacks_def)
  have "actives p' = actives p \<and> inactives p' = inactives p \<and> pl_tracker_count p' = pl_tracker_count p
      \<and> pl_max_tracker_count p' = pl_max_tracker_count p \<and> pool_ok p' = pool_ok p"
    by (subst (1 2 3 4 5) p') (simp add: actives_def inactives_def pool_ok_def len)
  then show "pool_ok p' = pool_ok p" "actives p' = actives p" "inactives p' = inactives p"
    "pl_tracker_count p' = pl_tracker_count p" "pl_max_tracker_count p' = pl_max_tracker_count p"
    by auto
qed

lemma deactivate_step_counts:
  "pl_tracker_count (deactivate_step b p i) = pl_tracker_count p"
  "pl_max_tracker_count (deactivate_step b p i) = pl_max_tracker_count p"
  by (simp_all add: deactivate_step_def deactivate_critical_def Let_def split: prod.split)

lemma registered_index: "pool_ok p \<Longrightarrow> registered p i \<Longrightarrow> i < length (pl_connection_pools p)"
  by (simp add: pool_ok_def registered_def)

lemma get_connection_sys:
  assumes "sys_inv E live X p w H" and "registered p i"
    and "mfs_pool_get_connection_ex E p i c t w = ((eo, is_new), p', w')"
  shows "sys_inv E live X p' w' (held eo + H) \<and> (\<forall>j. registered p' j = registered p j)"
proof -
  have laws: "pool_law E live" "pool_ok p" "conn_inv live X p w H"
    using assms(1) by (simp_all add: sys_inv_def)
  note conn = get_connection_ex_conn [OF laws(1) assms(3) registered_index [OF laws(2) assms(2)] laws(3)]
  have "pool_ok p' \<and> pl_tracker_count p' = pl_tracker_count p \<and> pl_max_tracker_count p' = pl_max_tracker_count p"
    using conn(2) laws(2) deactivate_step_view(3) [OF laws(2), of "c_mem_after E" i] only_stacks_same
    by (metis deactivate_step_counts)
  with assms(1) conn(1) show ?thesis by (simp add: sys_inv_def registered_def)
qed

lemma return_connection_sys:
  assumes "sys_inv E live X p w (held (Some e) + H)" and "registered p i"
    and "mfs_pool_return_connection E p i e w = (p', w')"
  shows "sys_inv E live X p' w' H \<and> (\<forall>j. registered p' j = registered p j)"
proof -
  have laws: "pool_law E live" "mutex_law E" "pool_ok p" "conn_inv live X p w (held (Some e) + H)"
    using assms(1) by (simp_all add: sys_inv_def)
  note conn = return_connection_conn [OF laws(1,2) assms(3) registered_index [OF laws(3) assms(2)] laws(4)]
  from only_stacks_same [OF conn(2)] conn(1) assms(1) show ?thesis
    by (simp add: sys_inv_def registered_def)
qed

interpretation pool_connections: connection_provider "sys_inv E live X" registered
  "\<lambda>w w'. live w' = live w" "mfs_pool_get_connection_ex E" "mfs_pool_return_connection E"
  "mfs_pool_destroy_connection E" for E live X
proof unfold_locales
  fix p w H w'
  assume "sys_inv E live X p w H" and "live w' = live w"
  then show "sys_inv E live X p w' H"
    using conn_inv_frame by (auto simp: sys_inv_def)
next
  fix p w e H
  assume "sys_inv E live X p w (held (Some e) + H)"
  then show "sys_inv E live X p (mfs_pool_destroy_connection E e w) H"
    using destroy_conn [of E live X p w e H] by (simp add: sys_inv_def)
qed (rule get_connection_sys return_connection_sys; assumption)+

section \<open>Facts for the clients\<close>

lemma active_registered: "pool_ok p \<Longrightarrow> i \<in> set (actives p) \<Longrightarrow> registered p i"
  by (auto simp: pool_ok_def registered_def)

lemma inactive_registered: "pool_ok p \<Longrightarrow> i \<in> set (inactives p) \<Longrightarrow> registered p i"
  by (auto simp: pool_ok_def registered_def)

lemma list_trackers_live:
  assumes "pool_law E live" and "list_trackers E lock arr n w = (r, w')"
  shows "live w' = live w"
proof -
  obtain st w1 where rd: "apr_thread_rwlock_rdlock E lock w = (st, w1)" by force
  obtain st2 w2 where un: "apr_thread_rwlock_unlock E lock w1 = (st2, w2)" by force
  obtain x w3 where rand: "c_rand E w2 = (x, w3)" by force
  have "w' = w \<or> w' = w1 \<or> w' = w3"
    using assms(2) rd un rand by (auto simp: list_trackers_def split: if_splits)
  then show ?thesis
    using live_frames(8) [OF assms(1) rd] live_frames(10) [OF assms(1) un] live_frames(14) [OF assms(1) rand]
    by auto
qed

lemma list_active_live:
  "pool_law E live \<Longrightarrow> mfs_pool_list_active_trackers E p w = (r, w') \<Longrightarrow> live w' = live w"
  unfolding mfs_pool_list_active_trackers_def by (rule list_trackers_live)

lemma list_inactive_live:
  "pool_law E live \<Longrightarrow> mfs_pool_list_inactive_trackers E p w = (r, w') \<Longrightarrow> live w' = live w"
  unfolding mfs_pool_list_inactive_trackers_def by (rule list_trackers_live)

lemma sys_inv_world: "sys_inv E live X p w H \<Longrightarrow> live w' = live w \<Longrightarrow> sys_inv E live X p w' H"
  by (rule pool_connections.same_inv)

text \<open>A memory pool of the caller's own, made and freed while the pool of connections is in use.\<close>

lemma sys_inv_create:
  assumes "sys_inv E live X p w H" and "apr_pool_create E w = ((APR_SUCCESS, q), w')"
  shows "sys_inv E live (insert q X) p w' H" and "q \<notin> X"
proof -
  have "pool_law E live" using assms(1) by (simp add: sys_inv_def)
  from pool_create_live(1) [OF this assms(2) refl] assms(1)
  show "sys_inv E live (insert q X) p w' H" "q \<notin> X" by (auto simp: sys_inv_def conn_inv_def)
qed

lemma sys_inv_destroy:
  assumes "sys_inv E live (insert q X) p w H" and "q \<notin> X"
  shows "sys_inv E live X p (apr_pool_destroy E q w) H"
proof -
  have law: "pool_law E live" "q \<in> live w" using assms(1) by (simp_all add: sys_inv_def conn_inv_def)
  from pool_destroy_live [OF this] assms show ?thesis by (auto simp: sys_inv_def conn_inv_def)
qed

lemma sample_sys: "sim_pools w = [] \<Longrightarrow> sys_inv sim_apr sim_live {} sample_pool w {#}"
  using sample_pool_ok
  by (auto simp: sys_inv_def sim_pool_law sim_rand_law mutex_law_def conn_inv_def idle_def conns_def
      sample_pool_def sim_live_def numeral_3_eq_3) (simp add: sim_apr_def)

end
