(* ===== verification/Maintenance.thy ===== *)
theory Maintenance
  imports PoolConn
begin

text \<open>
  The maintenance thread of the pool, lines 369 to 470 of \<open>src/src/pool.c\<close>: expiring idle
  connections, testing inactive trackers, and the thread's loop.
\<close>

section \<open>Expiring connections\<close>

definition apr_time_from_sec :: "int \<Rightarrow> int" where
  "apr_time_from_sec s = s * 1000000"

definition MFS_CONNECTION_EXPIRE_TIME :: int where "MFS_CONNECTION_EXPIRE_TIME = 60"
definition MFS_POOL_MAINTENANCE_POLL_TIME :: int where "MFS_POOL_MAINTENANCE_POLL_TIME = 2"
definition DEFAULT_TRACKER_TIMEOUT :: int where "DEFAULT_TRACKER_TIMEOUT = 2000000"

text \<open>
  The scan from \<open>APR_RING_LAST\<close> backwards. \<open>k\<close> is one more than the position of
  \<open>connection_entry\<close>, 0 for the sentinel; \<open>mark\<close> is the position of \<open>last_entry\<close>.
\<close>

fun expire_scan :: "tracker_connection_pool_entry list \<Rightarrow> int \<Rightarrow> nat \<Rightarrow> nat option \<Rightarrow> nat option" where
  "expire_scan stack cutoff 0 mark = mark"
| "expire_scan stack cutoff (Suc k) mark =
     (if e_last_used (stack ! k) < cutoff then expire_scan stack cutoff k (Some k) else mark)"

text \<open>
  The critical section: the entries from \<open>last_entry\<close> to the end leave the ring;
  \<open>connection_count\<close> is not touched. The chain returned ends with a NULL link.
\<close>

definition expire_critical ::
  "tracker_connection_pool \<Rightarrow> int \<Rightarrow> tracker_connection_pool_entry list \<times> tracker_connection_pool" where
  "expire_critical cp cutoff =
     (case expire_scan (cp_stack cp) cutoff (length (cp_stack cp)) None of
        None \<Rightarrow> ([], cp)
      | Some k \<Rightarrow> (drop k (cp_stack cp), cp\<lparr>cp_stack := take k (cp_stack cp)\<rparr>))"

definition mfs_pool_get_expired_trackers ::
  "'w apr \<Rightarrow> tracker_connection_pool \<Rightarrow> 'w \<Rightarrow>
     tracker_connection_pool_entry list \<times> tracker_connection_pool \<times> 'w" where
  "mfs_pool_get_expired_trackers E cp w =
     (let (now, w) = apr_time_now E w;
          cutoff = now - apr_time_from_sec MFS_CONNECTION_EXPIRE_TIME
      in case apr_thread_mutex_lock E (cp_lock cp) w of
        (rv, w) \<Rightarrow>
          if rv \<noteq> APR_SUCCESS then ([], cp, w)
          else let (expired, cp) = expire_critical cp cutoff;
                   (_, w) = apr_thread_mutex_unlock E (cp_lock cp) w
               in (expired, cp, w))"

text \<open>\<open>while(last_entry != NULL)\<close>: the links are followed before each entry is destroyed.\<close>

fun destroy_entries :: "'w apr \<Rightarrow> tracker_connection_pool_entry list \<Rightarrow> 'w \<Rightarrow> 'w" where
  "destroy_entries E [] w = w"
| "destroy_entries E (e # es) w = destroy_entries E es (mfs_pool_destroy_connection E e w)"

definition expire_tracker ::
  "'w apr \<Rightarrow> nat \<Rightarrow> tracker_pool \<times> 'w \<Rightarrow> (tracker_pool \<times> 'w) option" where
  "expire_tracker E i s =
     (case s of
        (p, w) \<Rightarrow>
          let (expired, cp, w) = mfs_pool_get_expired_trackers E (pl_connection_pools p ! i) w
          in Some (set_connection_pool p i cp, destroy_entries E expired w))"

definition mfs_pool_expire_active_trackers ::
  "'w apr \<Rightarrow> tracker_pool \<Rightarrow> 'w \<Rightarrow> (tracker_pool \<times> 'w) option" where
  "mfs_pool_expire_active_trackers E p w =
     (case mfs_pool_list_active_trackers E p w of
        (None, w) \<Rightarrow> Some (p, w)
      | (Some active, w) \<Rightarrow> tracker_loop (\<lambda>_. True) fst (expire_tracker E) active (p, w))"

section \<open>Testing inactive trackers\<close>

definition ping_params :: tracker_request_parameters where
  "ping_params =
     (let params = mfs_tracker_init_parameters;
          params = mfs_tracker_add_parameter params ''domain'' ''ping_domain'';
          params = mfs_tracker_add_parameter params ''key'' ''ping_key''
      in mfs_tracker_add_parameter params ''noverify'' ''1'')"

text \<open>
  One round of the loop. The state carries the \<open>result\<close> table, which is shared by all rounds;
  \<open>ok\<close> is a fresh uninitialised variable in each round and only ever written.
\<close>

definition test_tracker ::
  "'w apr \<Rightarrow> nat \<Rightarrow> tracker_pool \<times> apr_hash \<times> 'w \<Rightarrow> (tracker_pool \<times> apr_hash \<times> 'w) option" where
  "test_tracker E i s =
     (case s of
        (p, result, w) \<Rightarrow>
          (case mfs_pool_get_connection E p i True DEFAULT_TRACKER_TIMEOUT w of
             (None, p, w) \<Rightarrow> Some (p, result, w)
           | (Some entry, p, w) \<Rightarrow>
               (case mfs_tracker_request E (e_connection entry) ''get_paths'' ping_params False result
                       DEFAULT_TRACKER_TIMEOUT w of
                  None \<Rightarrow> None
                | Some ((rv, ok, result), w) \<Rightarrow>
                    if rv = APR_SUCCESS then
                      let (p, w) = mfs_pool_activate E p i w;
                          (p, w) = mfs_pool_return_connection E p i entry w
                      in Some (p, result, w)
                    else Some (p, result, mfs_pool_destroy_connection E entry w))))"

definition mfs_pool_test_inactive_trackers ::
  "'w apr \<Rightarrow> tracker_pool \<Rightarrow> 'w \<Rightarrow> (tracker_pool \<times> 'w) option" where
  "mfs_pool_test_inactive_trackers E p w =
     (case mfs_pool_list_inactive_trackers E p w of
        (None, w) \<Rightarrow> Some (p, w)
      | (Some inactive, w) \<Rightarrow>
          (case tracker_loop (\<lambda>_. True) fst (test_tracker E) inactive (p, Map.empty, w) of
             None \<Rightarrow> None
           | Some (p, result, w) \<Rightarrow> Some (p, w)))"

section \<open>The thread\<close>

text \<open>
  The counter and the wait at the end of a round. The condition variable releases the mutex, so
  other threads run during the wait; \<open>others\<close> is what they do to the pool.
\<close>

definition next_check_count :: "32 word \<Rightarrow> 32 word" where
  "next_check_count c = (let c = c + 1 in if c = - 1 then 0 else c)"

definition maintenance_wait ::
  "'w apr \<Rightarrow> ('w \<Rightarrow> tracker_pool \<Rightarrow> tracker_pool) \<Rightarrow> tracker_pool \<Rightarrow> 'w \<Rightarrow> tracker_pool \<times> 'w" where
  "maintenance_wait E others p w =
     (let w = snd (apr_thread_mutex_lock E (pl_maintenance_mutex p) w);
          w = apr_thread_cond_timedwait E (pl_maintenance_cond p) (pl_maintenance_mutex p)
                (apr_time_from_sec MFS_POOL_MAINTENANCE_POLL_TIME) w;
          p = others w p;
          w = snd (apr_thread_mutex_unlock E (pl_maintenance_mutex p) w)
      in (p, w))"

definition maintenance_round ::
  "'w apr \<Rightarrow> tracker_pool \<Rightarrow> 'w \<Rightarrow> (tracker_pool \<times> 'w) option" where
  "maintenance_round E p w =
     (case apr_pool_create E w of
        ((rv, pool), w) \<Rightarrow>
          if rv \<noteq> APR_SUCCESS then Some (p, w)
          else do {
            (p, w) \<leftarrow> mfs_pool_test_inactive_trackers E p w;
            (p, w) \<leftarrow> mfs_pool_expire_active_trackers E p w;
            Some (p, apr_pool_destroy E pool w)
          })"

partial_function (option) maintenance_loop ::
  "'w apr \<Rightarrow> ('w \<Rightarrow> tracker_pool \<Rightarrow> tracker_pool) \<Rightarrow> tracker_pool \<Rightarrow> 'w \<Rightarrow> (tracker_pool \<times> 'w) option" where
  "maintenance_loop E others p w =
     (if pl_pool_running p then
        Option.bind (maintenance_round E p w) (\<lambda>(p, w).
          let p = p\<lparr>pl_maintenance_thread_check_count :=
                      next_check_count (pl_maintenance_thread_check_count p)\<rparr>;
              (p, w) = maintenance_wait E others p w
          in maintenance_loop E others p w)
      else Some (p, w))"

definition mfs_pool_maintenance ::
  "'w apr \<Rightarrow> ('w \<Rightarrow> tracker_pool \<Rightarrow> tracker_pool) \<Rightarrow> tracker_pool \<Rightarrow> 'w \<Rightarrow> (tracker_pool \<times> 'w) option" where
  "mfs_pool_maintenance E others p w =
     maintenance_loop E others (p\<lparr>pl_maintenance_thread_running := True\<rparr>) w"

section \<open>What expires\<close>

lemma expire_scan_spec:
  assumes "k \<le> length stack"
  shows "expire_scan stack cutoff k mark =
    (let es = take k stack;
         n = length (takeWhile (\<lambda>e. e_last_used e < cutoff) (rev es))
     in if n = 0 then mark else Some (k - n))"
  using assms
proof (induction k arbitrary: mark)
  case 0
  then show ?case by simp
next
  case (Suc k)
  then have r: "rev (take (Suc k) stack) = stack ! k # rev (take k stack)"
    by (simp add: take_Suc_conv_app_nth)
  show ?case
    unfolding Let_def expire_scan.simps r using Suc by (simp add: Let_def)
qed

text \<open>The ring splits into the entries kept and the longest tail that is older than the cutoff.\<close>

lemma expire_critical_split:
  "expire_critical cp cutoff = (expired, cp') \<Longrightarrow>
   cp' = cp\<lparr>cp_stack := rev (dropWhile (\<lambda>e. e_last_used e < cutoff) (rev (cp_stack cp)))\<rparr>
   \<and> expired = rev (takeWhile (\<lambda>e. e_last_used e < cutoff) (rev (cp_stack cp)))"
proof -
  assume e: "expire_critical cp cutoff = (expired, cp')"
  let ?P = "\<lambda>e. e_last_used e < cutoff"
  let ?n = "length (takeWhile ?P (rev (cp_stack cp)))"
  have split: "cp_stack cp = rev (dropWhile ?P (rev (cp_stack cp))) @ rev (takeWhile ?P (rev (cp_stack cp)))"
    by (metis rev_append rev_rev_ident takeWhile_dropWhile_id)
  have n: "?n \<le> length (cp_stack cp)" using length_takeWhile_le [of ?P "rev (cp_stack cp)"] by simp
  have k: "length (rev (dropWhile ?P (rev (cp_stack cp)))) = length (cp_stack cp) - ?n"
    using arg_cong [OF split, of length] by simp
  have "take (length (cp_stack cp) - ?n) (cp_stack cp) = rev (dropWhile ?P (rev (cp_stack cp)))"
    by (subst (2) split) (simp add: k [symmetric] del: length_rev)
  moreover have "drop (length (cp_stack cp) - ?n) (cp_stack cp) = rev (takeWhile ?P (rev (cp_stack cp)))"
    by (subst (2) split) (simp add: k [symmetric] del: length_rev)
  ultimately show ?thesis
    using e by (auto simp: expire_critical_def expire_scan_spec Let_def split: if_splits)
qed

lemma expired_split:
  assumes "expire_critical cp cutoff = (expired, cp')"
  shows "cp_stack cp = cp_stack cp' @ expired" and "cp_lock cp' = cp_lock cp"
    and "cp_connection_count cp' = cp_connection_count cp"
proof -
  let ?P = "\<lambda>e. e_last_used e < cutoff"
  note split = expire_critical_split [OF assms]
  show "cp_stack cp = cp_stack cp' @ expired"
    using split by simp (metis rev_append rev_rev_ident takeWhile_dropWhile_id)
  show "cp_lock cp' = cp_lock cp" "cp_connection_count cp' = cp_connection_count cp"
    using split by simp_all
qed

lemma takeWhile_filter_sorted:
  "sorted_wrt (\<lambda>a b. f a \<le> f b) xs \<Longrightarrow>
   takeWhile (\<lambda>x. f x < c) xs = filter (\<lambda>x. f x < c) xs \<and> dropWhile (\<lambda>x. f x < c) xs = filter (\<lambda>x. \<not> f x < c) xs"
  for f :: "'a \<Rightarrow> int"
proof (induction xs)
  case (Cons x xs)
  have "filter (\<lambda>y. f y < c) xs = [] \<and> filter (\<lambda>y. \<not> f y < c) xs = xs" if "\<not> f x < c"
    using Cons.prems that by (auto simp: filter_empty_conv filter_id_conv)
  with Cons show ?case by auto
qed simp

section \<open>Conservation\<close>

lemma destroy_entries_conn:
  "pool_law E live \<Longrightarrow> conn_inv live X p w (mset (map entry_pool es) + H) \<Longrightarrow>
   conn_inv live X p (destroy_entries E es w) H"
proof (induction es arbitrary: w)
  case (Cons e es)
  then have "conn_inv live X p w (held (Some e) + (mset (map entry_pool es) + H))" by (simp add: ac_simps)
  from destroy_conn [OF Cons.prems(1) this] Cons show ?case by simp
qed simp

lemma get_expired_conn:
  assumes "pool_law E live" and "mfs_pool_get_expired_trackers E cp w = (expired, cp', w')"
  shows "conns cp = conns cp' + mset (map entry_pool expired)" and "live w' = live w"
proof -
  obtain now w1 where now: "apr_time_now E w = (now, w1)" by force
  obtain st w2 where lock: "apr_thread_mutex_lock E (cp_lock cp) w1 = (st, w2)" by force
  note lives = live_frames(13) [OF assms(1) now] live_frames(11) [OF assms(1) lock]
  have "conns cp = conns cp' + mset (map entry_pool expired) \<and> live w' = live w"
  proof (cases "st = APR_SUCCESS")
    case False
    then show ?thesis using assms(2) now lock lives by (simp add: mfs_pool_get_expired_trackers_def)
  next
    case True
    obtain ex q where crit: "expire_critical cp (now - apr_time_from_sec MFS_CONNECTION_EXPIRE_TIME) = (ex, q)"
      by force
    obtain st2 w3 where un: "apr_thread_mutex_unlock E (cp_lock q) w2 = (st2, w3)" by force
    have "expired = ex" "cp' = q" "w' = w3"
      using assms(2) now lock True crit un by (auto simp: mfs_pool_get_expired_trackers_def)
    then show ?thesis
      using expired_split(1) [OF crit] live_frames(12) [OF assms(1) un] lives by (simp add: conns_def)
  qed
  then show "conns cp = conns cp' + mset (map entry_pool expired)" "live w' = live w" by auto
qed

lemma expire_tracker_sys:
  assumes "sys_inv E live X p w {#}" and "registered p i"
  shows "\<exists>p' w'. expire_tracker E i (p, w) = Some (p', w') \<and> sys_inv E live X p' w' {#} \<and> only_stacks p p'"
proof -
  have laws: "pool_law E live" "pool_ok p" "conn_inv live X p w {#}" using assms(1) by (simp_all add: sys_inv_def)
  obtain expired cp w1 where ex: "mfs_pool_get_expired_trackers E (pl_connection_pools p ! i) w = (expired, cp, w1)"
    by (metis prod.exhaust)
  note conn = get_expired_conn [OF laws(1) ex]
  let ?p = "set_connection_pool p i cp"
  have only: "only_stacks p ?p" by (simp add: only_stacks_def set_connection_pool_def)
  have "idle p + {#} = idle ?p + mset (map entry_pool expired)"
    using idle_set_connection_pool [OF registered_index [OF laws(2) assms(2)], of cp] conn(1) by simp
  then have "conn_inv live X ?p w1 (mset (map entry_pool expired) + {#})"
    using conn_inv_frame [OF conn_inv_move [OF laws(3)] conn(2)] by simp
  from destroy_entries_conn [OF laws(1) this] assms(1) only_stacks_same [OF only]
  have "sys_inv E live X ?p (destroy_entries E expired w1) {#}" by (simp add: sys_inv_def)
  with only ex show ?thesis by (simp add: expire_tracker_def)
qed

lemma expire_active_sys:
  assumes "sys_inv E live X p w {#}"
  shows "\<exists>p' w'. mfs_pool_expire_active_trackers E p w = Some (p', w')
    \<and> sys_inv E live X p' w' {#} \<and> only_stacks p p'"
proof -
  have laws: "pool_law E live" "rand_law E" "pool_ok p" "pl_max_tracker_count p \<le> 2 ^ 24"
    using assms by (simp_all add: sys_inv_def)
  obtain lo w1 where l: "mfs_pool_list_active_trackers E p w = (lo, w1)" by force
  have sys1: "sys_inv E live X p w1 {#}" by (rule sys_inv_world [OF assms list_active_live [OF laws(1) l]])
  show ?thesis
  proof (cases lo)
    case None
    with l sys1 show ?thesis by (simp add: mfs_pool_expire_active_trackers_def only_stacks_refl)
  next
    case (Some l1)
    let ?I = "\<lambda>s. sys_inv E live X (fst s) (snd s) {#} \<and> only_stacks p (fst s)"
    note ok = list_active_ok [OF laws(2-4) l [unfolded Some]]
    have "\<exists>s'. visit (\<lambda>_. True) (expire_tracker E) (rotate (nat (tl_start_postion l1)) (actives p)) (p, w1) = Some s' \<and> ?I s'"
    proof (rule visit_total [where I = ?I])
      fix i s assume i: "i \<in> set (rotate (nat (tl_start_postion l1)) (actives p))" and s: "?I s"
      have "registered (fst s) i"
        using active_registered [OF laws(3), of i] i only_stacks_same(4) [of p "fst s"] s by (simp add: registered_def)
      from expire_tracker_sys [OF s [THEN conjunct1] this] s
      show "\<exists>s'. expire_tracker E i s = Some s' \<and> ?I s'"
        using only_stacks_trans by fastforce
    qed (simp add: sys1 only_stacks_refl)
    then show ?thesis
      using l Some by (auto simp: mfs_pool_expire_active_trackers_def tracker_loop_visit [OF ok(1)] ok(2))
  qed
qed

lemma activate_only_lists:
  "pl_tracker_count (activate_critical b p i) = pl_tracker_count p"
  "pl_max_tracker_count (activate_critical b p i) = pl_max_tracker_count p"
  by (simp_all add: activate_critical_def Let_def split: prod.split)

lemma pool_activate_sys:
  assumes "sys_inv E live X p w H" and "mfs_pool_activate E p i w = (p', w')"
  shows "sys_inv E live X p' w' H" and "\<forall>j. registered p' j = registered p j"
    and "set (actives p) \<subseteq> set (actives p')"
proof -
  have laws: "pool_law E live" "pool_ok p" "conn_inv live X p w H" using assms(1) by (simp_all add: sys_inv_def)
  obtain st w1 where lock: "apr_thread_rwlock_wrlock E (pl_lock p) w = (st, w1)" by force
  let ?q = "activate_critical (c_mem_after E) p i"
  obtain st2 w2 where un: "apr_thread_rwlock_unlock E (pl_lock ?q) w1 = (st2, w2)" by force
  note lives = live_frames(9) [OF laws(1) lock] live_frames(10) [OF laws(1) un]
  have "sys_inv E live X p' w' H \<and> (\<forall>j. registered p' j = registered p j) \<and> set (actives p) \<subseteq> set (actives p')"
  proof (cases "st = APR_SUCCESS")
    case False
    then show ?thesis
      using assms lock lives sys_inv_world [OF assms(1)] by (simp add: mfs_pool_activate_def)
  next
    case True
    then have r: "p' = ?q" "w' = w2" using assms(2) lock un by (simp_all add: mfs_pool_activate_def Let_def)
    note view = activate_critical_view [OF laws(2), of "c_mem_after E" i]
    have "conn_inv live X ?q w2 H"
      using conn_inv_frame [OF laws(3), of w2] lives by (simp add: same_conns_inv [OF activate_critical_conns])
    then show ?thesis
      using assms(1) view(1,4) by (auto simp: r sys_inv_def registered_def activate_only_lists)
  qed
  then show "sys_inv E live X p' w' H" "\<forall>j. registered p' j = registered p j"
    "set (actives p) \<subseteq> set (actives p')" by auto
qed

text \<open>What the loop over the inactive trackers keeps: soundness, and every tracker active before.\<close>

abbreviation sound_test ::
  "'w apr \<Rightarrow> ('w \<Rightarrow> handle set) \<Rightarrow> handle set \<Rightarrow> tracker_pool \<Rightarrow> tracker_pool \<Rightarrow> 'w \<Rightarrow> bool" where
  "sound_test E live X p0 p w \<equiv> sys_inv E live X p w {#} \<and> (\<forall>j. registered p j = registered p0 j)
     \<and> set (actives p0) \<subseteq> set (actives p)"

lemma get_connection_actives:
  assumes "sys_inv E live X p w H" and "registered p i"
    and "mfs_pool_get_connection_ex E p i c t w = ((eo, is_new), p', w')"
  shows "set (actives p) - {i} \<subseteq> set (actives p')"
proof -
  have laws: "pool_law E live" "pool_ok p" "conn_inv live X p w H" using assms(1) by (simp_all add: sys_inv_def)
  have d: "distinct (actives p)" using laws(2) by (simp add: pool_ok_def)
  have "actives p' = actives p \<or> actives p' = actives (deactivate_step (c_mem_after E) p i)"
    using get_connection_ex_conn(2) [OF laws(1) assms(3) registered_index [OF laws(2) assms(2)] laws(3)]
      only_stacks_same(2) by blast
  then show ?thesis
    using deactivate_step_view(2) [OF laws(2), of "c_mem_after E" i] set_remove1_eq [OF d] by auto
qed

lemma test_tracker_sound:
  assumes "test_tracker E i (p, h, w) = Some (p', h', w')" and "sound_test E live X p0 p w"
    and "registered p0 i" and "i \<notin> set (actives p0)"
  shows "sound_test E live X p0 p' w'"
proof -
  have sys: "sys_inv E live X p w {#}" and law: "pool_law E live" using assms(2) by (simp_all add: sys_inv_def)
  have reg: "registered p i" using assms(2,3) by simp
  obtain eo nw p1 w1 where get: "mfs_pool_get_connection_ex E p i True DEFAULT_TRACKER_TIMEOUT w = ((eo, nw), p1, w1)"
    by (metis prod.exhaust)
  have acts: "set (actives p0) \<subseteq> set (actives p1)"
    using get_connection_actives [OF sys reg get] assms(2,4) by blast
  show ?thesis
  proof (cases eo)
    case None
    then show ?thesis
      using pool_connections.session_none [OF sys reg get [unfolded None]] assms(1,2) acts get
      by (simp add: test_tracker_def mfs_pool_get_connection_def)
  next
    case (Some e)
    note get = get [unfolded Some]
    obtain rv ok h1 w2 where req: "mfs_tracker_request E (e_connection e) ''get_paths'' ping_params False h
        DEFAULT_TRACKER_TIMEOUT w1 = Some ((rv, ok, h1), w2)"
      using assms(1) get by (auto simp: test_tracker_def mfs_pool_get_connection_def split: option.splits)
    have same: "live w2 = live w1" by (rule tracker_request_live [OF law req])
    show ?thesis
    proof (cases "rv = APR_SUCCESS")
      case True
      obtain p2 w3 where act: "mfs_pool_activate E p1 i w2 = (p2, w3)" by force
      obtain p3 w4 where put: "mfs_pool_return_connection E p2 i e w3 = (p3, w4)" by force
      have r: "p' = p3" "w' = w4"
        using assms(1) get req True act put by (simp_all add: test_tracker_def mfs_pool_get_connection_def)
      have opened: "sys_inv E live X p1 w2 (held (Some e) + {#})" "\<forall>j. registered p1 j = registered p j"
        using pool_connections.session_open [OF sys reg get same] by auto
      note act_sys = pool_activate_sys [OF opened(1) act]
      have "registered p2 i" using act_sys(2) opened(2) reg by simp
      note put_sys = return_connection_sys [OF act_sys(1) this put]
      have "pool_law E live \<and> mutex_law E \<and> pool_ok p2 \<and> conn_inv live X p2 w3 (held (Some e) + {#})"
        using act_sys(1) by (simp add: sys_inv_def)
      then have "actives p3 = actives p2"
        using return_connection_conn(2) [of E live p2 i e w3 p3 w4 X "{#}"] put only_stacks_same(2)
          registered_index [OF _ \<open>registered p2 i\<close>] by blast
      then show ?thesis
        using put_sys act_sys(2,3) opened(2) assms(2) acts by (auto simp: r)
    next
      case False
      then have r: "p' = p1" "w' = mfs_pool_destroy_connection E e w2"
        using assms(1) get req by (simp_all add: test_tracker_def mfs_pool_get_connection_def)
      show ?thesis
        using pool_connections.session_close [OF sys reg get same] assms(2) acts by (simp add: r)
    qed
  qed
qed

lemma test_inactive_sound:
  assumes "sys_inv E live X p w {#}" and "mfs_pool_test_inactive_trackers E p w = Some (p', w')"
  shows "sound_test E live X p p' w'"
proof -
  have laws: "pool_law E live" "rand_law E" "pool_ok p" "pl_max_tracker_count p \<le> 2 ^ 24"
    using assms(1) by (simp_all add: sys_inv_def)
  obtain lo w1 where l: "mfs_pool_list_inactive_trackers E p w = (lo, w1)" by force
  have sys1: "sys_inv E live X p w1 {#}" by (rule sys_inv_world [OF assms(1) list_inactive_live [OF laws(1) l]])
  show ?thesis
  proof (cases lo)
    case None
    with l sys1 assms(2) show ?thesis by (simp add: mfs_pool_test_inactive_trackers_def)
  next
    case (Some l1)
    let ?I = "\<lambda>s. sound_test E live X p (fst s) (snd (snd s))"
    note ok = list_inactive_ok [OF laws(2-4) l [unfolded Some]]
    obtain h' where v: "visit (\<lambda>_. True) (test_tracker E) (rotate (nat (tl_start_postion l1)) (inactives p))
        (p, Map.empty, w1) = Some (p', h', w')"
      using assms(2) l Some
      by (auto simp: mfs_pool_test_inactive_trackers_def tracker_loop_visit [OF ok(1)] ok(2) split: option.splits)
    have "?I (p', h', w')"
    proof (rule visit_invariant [where I = ?I, OF _ _ v])
      fix i s s' assume i: "i \<in> set (rotate (nat (tl_start_postion l1)) (inactives p))" and s: "?I s"
        and t: "test_tracker E i s = Some s'"
      obtain q h w q' h' w' where q: "s = (q, h, w)" "s' = (q', h', w')" by (metis prod.exhaust)
      have "i \<notin> set (actives p)" using laws(3) i by (auto simp: pool_ok_def)
      moreover have "registered p i" using inactive_registered [OF laws(3), of i] i by simp
      ultimately have "sound_test E live X p q' w'"
        using s by (intro test_tracker_sound [OF t [unfolded q]]) (simp_all add: q)
      then show "?I s'" by (simp add: q)
    qed (simp add: sys1)
    then show ?thesis by simp
  qed
qed

section \<open>Returning\<close>

lemma test_tracker_returns:
  assumes "\<And>c h w. mfs_tracker_request E c ''get_paths'' ping_params False h DEFAULT_TRACKER_TIMEOUT w \<noteq> None"
  shows "\<exists>s'. test_tracker E i s = Some s'"
proof -
  obtain p h w where s: "s = (p, h, w)" by (metis prod.exhaust)
  obtain eo p1 w1 where get: "mfs_pool_get_connection E p i True DEFAULT_TRACKER_TIMEOUT w = (eo, p1, w1)"
    by (metis prod.exhaust)
  show ?thesis
  proof (cases eo)
    case None
    with get show ?thesis by (simp add: test_tracker_def s)
  next
    case (Some e)
    obtain rv ok h' w2 where "mfs_tracker_request E (e_connection e) ''get_paths'' ping_params False h
        DEFAULT_TRACKER_TIMEOUT w1 = Some ((rv, ok, h'), w2)"
      using assms [of "e_connection e" h w1] by (auto simp: not_None_eq)
    with get Some show ?thesis by (auto simp: test_tracker_def s split: prod.split)
  qed
qed

lemma test_inactive_returns:
  assumes "sys_inv E live X p w {#}"
    and "\<And>c h w. mfs_tracker_request E c ''get_paths'' ping_params False h DEFAULT_TRACKER_TIMEOUT w \<noteq> None"
  shows "\<exists>p' w'. mfs_pool_test_inactive_trackers E p w = Some (p', w')"
proof -
  have laws: "rand_law E" "pool_ok p" "pl_max_tracker_count p \<le> 2 ^ 24"
    using assms(1) by (simp_all add: sys_inv_def)
  obtain lo w1 where l: "mfs_pool_list_inactive_trackers E p w = (lo, w1)" by force
  show ?thesis
  proof (cases lo)
    case None
    with l show ?thesis by (simp add: mfs_pool_test_inactive_trackers_def)
  next
    case (Some l1)
    note ok = list_inactive_ok [OF laws l [unfolded Some]]
    have "\<exists>s'. visit (\<lambda>_. True) (test_tracker E) (rotate (nat (tl_start_postion l1)) (inactives p))
        (p, Map.empty, w1) = Some s' \<and> True"
      by (rule visit_total [where I = "\<lambda>_. True"]) (use test_tracker_returns [OF assms(2)] in blast, rule TrueI)
    with l Some show ?thesis
      by (auto simp: mfs_pool_test_inactive_trackers_def tracker_loop_visit [OF ok(1)] ok(2))
  qed
qed

lemma maintenance_round_sys:
  assumes "sys_inv E live X p w {#}"
    and "\<And>c h w. mfs_tracker_request E c ''get_paths'' ping_params False h DEFAULT_TRACKER_TIMEOUT w \<noteq> None"
  shows "\<exists>p' w'. maintenance_round E p w = Some (p', w') \<and> sound_test E live X p p' w'"
proof -
  have laws: "pool_law E live" "conn_inv live X p w {#}" using assms(1) by (simp_all add: sys_inv_def)
  obtain st q w0 where create: "apr_pool_create E w = ((st, q), w0)" by (metis prod.exhaust)
  note new = pool_create_live [OF laws(1) create]
  show ?thesis
  proof (cases "st = APR_SUCCESS")
    case False
    then show ?thesis
      using create sys_inv_world [OF assms(1) new(2)] by (simp add: maintenance_round_def)
  next
    case True
    note sys0 = sys_inv_create [OF assms(1) create [unfolded True]]
    obtain p1 w1 where tested: "mfs_pool_test_inactive_trackers E p w0 = Some (p1, w1)"
      using test_inactive_returns [OF sys0(1) assms(2)] by blast
    note s1 = test_inactive_sound [OF sys0(1) tested]
    obtain p2 w2 where ex: "mfs_pool_expire_active_trackers E p1 w1 = Some (p2, w2)"
      "sys_inv E live (insert q X) p2 w2 {#}" "only_stacks p1 p2"
      using expire_active_sys [OF s1 [THEN conjunct1]] by blast
    with s1 sys_inv_destroy [OF ex(2) sys0(2)] only_stacks_same(2,4) [OF ex(3)] create True tested ex(1) show ?thesis
      by (simp add: maintenance_round_def registered_def)
  qed
qed

section \<open>Properties\<close>

text \<open>
  C31: On a stack in the order of use (most recently used first) expiring takes out exactly the
  connections not used for a minute and keeps the others in order; the connection counter is left
  as it was, so from then on it is too high by the number of connections expired.
\<close>

theorem expired_are_the_stale_ones:
  assumes "apr_time_now E w = (now, w1)" and "apr_thread_mutex_lock E (cp_lock cp) w1 = (APR_SUCCESS, w2)"
    and "sorted_wrt (\<lambda>a b. e_last_used a \<ge> e_last_used b) (cp_stack cp)"
    and "mfs_pool_get_expired_trackers E cp w = (expired, cp', w')"
  shows "expired = filter (\<lambda>e. e_last_used e < now - 60000000) (cp_stack cp)
    \<and> cp_stack cp' = filter (\<lambda>e. \<not> e_last_used e < now - 60000000) (cp_stack cp)
    \<and> cp_connection_count cp' = cp_connection_count cp"
proof -
  let ?c = "now - apr_time_from_sec MFS_CONNECTION_EXPIRE_TIME"
  have c: "?c = now - 60000000" by (simp add: apr_time_from_sec_def MFS_CONNECTION_EXPIRE_TIME_def)
  have crit: "expire_critical cp ?c = (expired, cp')"
    using assms(1,2,4) by (auto simp: mfs_pool_get_expired_trackers_def split: prod.splits)
  have "sorted_wrt (\<lambda>a b. e_last_used a \<le> e_last_used b) (rev (cp_stack cp))"
    using assms(3) by (simp add: sorted_wrt_rev)
  note sorted = takeWhile_filter_sorted [OF this, of ?c]
  show ?thesis
    using expire_critical_split [OF crit] sorted by (simp add: c rev_filter [symmetric])
qed

definition aged :: "int \<Rightarrow> tracker_connection_pool_entry" where
  "aged t = \<lparr>e_connection = sample_connection, e_last_used = t\<rparr>"

theorem expired_are_the_stale_ones_witness:
  "\<exists>expired cp' w'. mfs_pool_get_expired_trackers sim_apr \<lparr>cp_lock = 1, cp_connection_count = 3,
       cp_stack = [aged 90000000, aged 50000000, aged 10000000]\<rparr> (sim0\<lparr>sim_clock := 100000000\<rparr>) = (expired, cp', w')
     \<and> expired = [aged 10000000] \<and> cp_stack cp' = [aged 90000000, aged 50000000] \<and> cp_connection_count cp' = 3"
proof -
  let ?w = "sim0\<lparr>sim_clock := 100000000\<rparr>"
  let ?cp = "\<lparr>cp_lock = 1, cp_connection_count = 3, cp_stack = [aged 90000000, aged 50000000, aged 10000000]\<rparr>"
  have now: "apr_time_now sim_apr ?w = (100000000, ?w)" and lock: "apr_thread_mutex_lock sim_apr (cp_lock ?cp) ?w = (APR_SUCCESS, ?w)"
    by (simp_all add: sim_apr_def)
  obtain expired cp' w' where r: "mfs_pool_get_expired_trackers sim_apr ?cp ?w = (expired, cp', w')"
    by (metis prod.exhaust)
  from expired_are_the_stale_ones [OF now lock _ r] r show ?thesis by (auto simp: aged_def)
qed

text \<open>
  C27: A round of the maintenance thread returns if every exchange does; it keeps the pool's
  invariant, leaks no connection, destroys the memory pool it worked in, and takes no tracker out
  of the active set.
\<close>

theorem maintenance_round_sound:
  assumes "sys_inv E live X p w {#}"
    and "\<And>c h w. mfs_tracker_request E c ''get_paths'' ping_params False h DEFAULT_TRACKER_TIMEOUT w \<noteq> None"
  shows "\<exists>p' w'. maintenance_round E p w = Some (p', w') \<and> sys_inv E live X p' w' {#}
    \<and> set (actives p) \<subseteq> set (actives p')"
  using maintenance_round_sys [OF assms] by blast

theorem maintenance_round_sound_witness:
  "\<exists>p' w'. maintenance_round sim_apr sample_pool sim0 = Some (p', w') \<and> sys_inv sim_apr sim_live {} p' w' {#}
     \<and> set (actives sample_pool) \<subseteq> set (actives p')"
  by (rule maintenance_round_sound [OF sample_sys sim_request_returns]) (simp add: sim0_def)

text \<open>
  C33: The maintenance thread ends: once \<open>pool_running\<close> has been cleared while it waits, which
  is what \<open>mfs_pool_stop_maintenance_thread\<close> does before it signals the condition, the loop is
  left after the round in progress.
\<close>

theorem maintenance_stops:
  assumes "sys_inv E live X p w {#}" and "\<And>w p. \<not> pl_pool_running (others w p)"
    and "\<And>c h w. mfs_tracker_request E c ''get_paths'' ping_params False h DEFAULT_TRACKER_TIMEOUT w \<noteq> None"
  shows "\<exists>p' w'. mfs_pool_maintenance E others p w = Some (p', w') \<and> \<not> pl_pool_running p'"
proof -
  let ?p = "p\<lparr>pl_maintenance_thread_running := True\<rparr>"
  have "sys_inv E live X ?p w {#}"
    using assms(1) by (simp add: sys_inv_def pool_ok_def actives_def inactives_def conn_inv_def idle_def)
  from maintenance_round_sys [OF this assms(3)] obtain p1 w1 where
    round: "maintenance_round E ?p w = Some (p1, w1)" by blast
  obtain p2 w2 where wait: "maintenance_wait E others (p1\<lparr>pl_maintenance_thread_check_count :=
      next_check_count (pl_maintenance_thread_check_count p1)\<rparr>) w1 = (p2, w2)" by force
  have "\<not> pl_pool_running p2"
    using wait assms(2) by (auto simp: maintenance_wait_def Let_def)
  then have "maintenance_loop E others p2 w2 = Some (p2, w2)" by (subst maintenance_loop.simps) simp
  then have "maintenance_loop E others ?p w = Some (if pl_pool_running p then (p2, w2) else (?p, w))"
    by (subst maintenance_loop.simps) (simp add: round wait)
  with \<open>\<not> pl_pool_running p2\<close> show ?thesis by (auto simp: mfs_pool_maintenance_def)
qed

theorem maintenance_stops_witness:
  "\<exists>p' w'. mfs_pool_maintenance sim_apr (\<lambda>w p. p\<lparr>pl_pool_running := False\<rparr>) sample_pool sim0 = Some (p', w')
     \<and> \<not> pl_pool_running p'"
  by (rule maintenance_stops [OF sample_sys _ sim_request_returns]) (simp_all add: sim0_def)

end
