(* ===== verification/PoolSteps.thy ===== *)
theory PoolSteps
  imports Maintenance
begin

text \<open>
  The pool under any interleaving. Each critical section of \<open>src/src/pool.c\<close> is one step: what
  a thread does while it holds the pool's write lock or a stack's mutex, or while it opens or
  closes a connection that it alone holds. Request threads and the maintenance thread take these
  steps in any order; the invariant holds in every state they reach.
\<close>

section \<open>Steps\<close>

text \<open>The state: the pool, the memory pools alive, and the connections held by some thread.\<close>

type_synonym pool_state = "tracker_pool \<times> handle set \<times> handle multiset"

inductive pool_step :: "nat \<Rightarrow> pool_state \<Rightarrow> pool_state \<Rightarrow> bool" for b where
  step_activate: "pool_step b (p, L, H) (activate_critical b p i, L, H)"
| step_deactivate: "pool_step b (p, L, H) (snd (deactivate_critical b p i), L, H)"
| step_pop: "pop_entry p i = (Some e, p') \<Longrightarrow> registered p i \<Longrightarrow>
    pool_step b (p, L, H) (p', L, add_mset (entry_pool e) H)"
| step_push: "entry_pool e \<in># H \<Longrightarrow> registered p i \<Longrightarrow>
    pool_step b (p, L, H) (push_entry p i e, L, H - {#entry_pool e#})"
| step_connect: "q \<notin> L \<Longrightarrow> pool_step b (p, L, H) (p, insert q L, add_mset q H)"
| step_close: "q \<in># H \<Longrightarrow> pool_step b (p, L, H) (p, L - {q}, H - {#q#})"
| step_expire: "expire_critical (pl_connection_pools p ! i) cutoff = (expired, cp) \<Longrightarrow> registered p i \<Longrightarrow>
    pool_step b (p, L, H) (set_connection_pool p i cp, L, mset (map entry_pool expired) + H)"

inductive_cases pool_stepE: "pool_step b s s'"

section \<open>The invariant\<close>

text \<open>The counter of a stack is never below its size; it drifts upwards when connections expire.\<close>

definition counts_ok :: "tracker_pool \<Rightarrow> bool" where
  "counts_ok p \<longleftrightarrow> (\<forall>cp \<in> set (pl_connection_pools p). int (length (cp_stack cp)) \<le> cp_connection_count cp)"

definition steps_inv :: "handle set \<Rightarrow> nat \<Rightarrow> pool_state \<Rightarrow> bool" where
  "steps_inv X n s \<longleftrightarrow>
     (case s of (p, L, H) \<Rightarrow> pool_ok p \<and> pl_tracker_count p = n \<and> counts_ok p \<and> conn_inv (\<lambda>L. L) X p L H)"

lemma counts_ok_set:
  "counts_ok p \<Longrightarrow> int (length (cp_stack cp)) \<le> cp_connection_count cp \<Longrightarrow> counts_ok (set_connection_pool p i cp)"
  using set_update_subset_insert [of "pl_connection_pools p" i cp]
  by (auto simp: counts_ok_def set_connection_pool_def)

lemma counts_ok_same: "pl_connection_pools p' = pl_connection_pools p \<Longrightarrow> counts_ok p' = counts_ok p"
  by (simp add: counts_ok_def)

lemma counts_ok_nth: "counts_ok p \<Longrightarrow> i < length (pl_connection_pools p) \<Longrightarrow>
  int (length (cp_stack (pl_connection_pools p ! i))) \<le> cp_connection_count (pl_connection_pools p ! i)"
  by (simp add: counts_ok_def)

lemma pop_counts: "counts_ok p \<Longrightarrow> pop_entry p i = (Some e, p') \<Longrightarrow> counts_ok p'"
  using counts_ok_nth [of p i]
  by (auto simp: pop_entry_def Let_def split: if_splits list.splits intro!: counts_ok_set)

lemma push_counts: "counts_ok p \<Longrightarrow> i < length (pl_connection_pools p) \<Longrightarrow> counts_ok (push_entry p i e)"
  using counts_ok_nth [of p i] by (auto simp: push_entry_def Let_def intro!: counts_ok_set)

lemma step_invariant:
  assumes "pool_step b s s'" and "steps_inv X n s"
  shows "steps_inv X n s'"
  using assms
proof (cases rule: pool_step.cases)
  case (step_activate p L H i)
  then have p: "pool_ok p" using assms(2) by (simp add: steps_inv_def)
  show ?thesis
    using assms(2) activate_critical_view(4) [OF p, of b i] step_activate
    by (simp add: steps_inv_def activate_only_lists counts_ok_same [OF activate_critical_conns]
        same_conns_inv [OF activate_critical_conns])
next
  case (step_deactivate p L H i)
  then have p: "pool_ok p" using assms(2) by (simp add: steps_inv_def)
  show ?thesis
    using assms(2) deactivate_step_view(3) [OF p, of b i] deactivate_step_counts(1) [of b p i] step_deactivate
    by (simp add: steps_inv_def deactivate_step_def counts_ok_same [OF deactivate_critical_conns]
        same_conns_inv [OF deactivate_critical_conns])
next
  case (step_pop p i e p' L H)
  then have inv: "pool_ok p" "counts_ok p" "conn_inv (\<lambda>L. L) X p L H" "pl_tracker_count p = n"
    using assms(2) by (simp_all add: steps_inv_def)
  note popped = pop_entry_some [OF step_pop(3) registered_index [OF inv(1) step_pop(4)]]
  have "conn_inv (\<lambda>L. L) X p' L (add_mset (entry_pool e) H)"
    by (rule conn_inv_move [OF inv(3)]) (simp add: popped(1))
  then show ?thesis
    using inv pop_counts [OF inv(2) step_pop(3)] only_stacks_same [OF popped(2)] step_pop
    by (simp add: steps_inv_def)
next
  case (step_push e H p i L)
  then have inv: "pool_ok p" "counts_ok p" "conn_inv (\<lambda>L. L) X p L H" "pl_tracker_count p = n"
    using assms(2) by (simp_all add: steps_inv_def)
  note idx = registered_index [OF inv(1) step_push(4)]
  note pushed = push_entry_idle [OF idx, of e]
  have "conn_inv (\<lambda>L. L) X (push_entry p i e) L (H - {#entry_pool e#})"
    by (rule conn_inv_move [OF inv(3)]) (use step_push(3) in \<open>simp add: pushed(1)\<close>)
  then show ?thesis
    using inv push_counts [OF inv(2) idx] only_stacks_same [OF pushed(2)] step_push
    by (simp add: steps_inv_def)
next
  case (step_connect q L p H)
  then have inv: "conn_inv (\<lambda>L. L) X p L H" using assms(2) by (simp add: steps_inv_def)
  show ?thesis
    using assms(2) held_new [OF inv, of "insert q L" q] step_connect by (simp add: steps_inv_def)
next
  case (step_close q H p L)
  then have "conn_inv (\<lambda>L. L) X p L (add_mset q (H - {#q#}))" using assms(2) by (simp add: steps_inv_def)
  from conn_inv_drop [OF this, of "L - {q}"] show ?thesis
    using assms(2) step_close by (simp add: steps_inv_def)
next
  case (step_expire p i cutoff expired cp L H)
  then have inv: "pool_ok p" "counts_ok p" "conn_inv (\<lambda>L. L) X p L H" "pl_tracker_count p = n"
    using assms(2) by (simp_all add: steps_inv_def)
  let ?p = "set_connection_pool p i cp"
  note idx = registered_index [OF inv(1) step_expire(4)]
  note split = expired_split [OF step_expire(3)]
  have "conns (pl_connection_pools p ! i) = conns cp + mset (map entry_pool expired)"
    by (simp add: conns_def split(1))
  then have "idle p + H = idle ?p + (mset (map entry_pool expired) + H)"
    using idle_set_connection_pool [OF idx, of cp] by (simp add: ac_simps)
  from conn_inv_move [OF inv(3) this] have "conn_inv (\<lambda>L. L) X ?p L (mset (map entry_pool expired) + H)" .
  moreover have "counts_ok ?p"
    using counts_ok_nth [OF inv(2) idx] split by (intro counts_ok_set [OF inv(2)]) simp
  moreover have "only_stacks p ?p" by (simp add: only_stacks_def set_connection_pool_def)
  ultimately show ?thesis
    using inv only_stacks_same [of p ?p] step_expire by (simp add: steps_inv_def)
qed

text \<open>
  C4: Whatever the interleaving of request threads and maintenance thread, in every state they
  reach the active and inactive trackers partition the registered ones, every live connection is
  idle in exactly one stack or held by exactly one thread, and no stack is larger than its counter.
\<close>

theorem interleaving_safe:
  assumes "(pool_step b)\<^sup>*\<^sup>* s s'" and "steps_inv X n s"
  shows "steps_inv X n s'"
  using assms by (induction rule: rtranclp_induct) (auto intro: step_invariant)

lemma sample_start: "steps_inv {} 3 (sample_pool, {}, {#})"
  using sample_sys [of sim0]
  by (simp add: steps_inv_def sys_inv_def conn_inv_def sim0_def sim_live_def)
     (simp add: sample_pool_def counts_ok_def)

theorem interleaving_safe_witness:
  "steps_inv {} 3 (snd (deactivate_critical 0 (push_entry sample_pool 2 (aged 5)) 2), {2}, {#})"
proof -
  have "registered sample_pool 2" by (simp add: registered_def sample_pool_def)
  moreover have "entry_pool (aged 5) = 2" by (simp add: entry_pool_def aged_def sample_connection_def)
  ultimately have "(pool_step 0)\<^sup>*\<^sup>* (sample_pool, {}, {#}) (push_entry sample_pool 2 (aged 5), {2}, {#})"
    using step_connect [of 2 "{}" 0 sample_pool "{#}"] step_push [of "aged 5" "{#2#}" sample_pool 2 0 "{2}"]
    by auto
  from rtranclp.rtrancl_into_rtrancl [OF this step_deactivate] interleaving_safe [OF _ sample_start]
  show ?thesis by blast
qed

section \<open>Activation\<close>

text \<open>A sequence of calls: \<open>(True, i)\<close> activates tracker \<open>i\<close>, \<open>(False, i)\<close> deactivates it.\<close>

definition run_activations :: "nat \<Rightarrow> tracker_pool \<Rightarrow> (bool \<times> nat) list \<Rightarrow> tracker_pool" where
  "run_activations b p ops =
     foldl (\<lambda>p op. if fst op then activate_critical b p (snd op)
                   else snd (deactivate_critical b p (snd op))) p ops"

lemma run_activations_ops: "run_activations b p ops = foldl (pool_act.apply_op b) p ops"
proof -
  have "(\<lambda>p op. if fst op then activate_critical b p (snd op) else snd (deactivate_critical b p (snd op))) =
      pool_act.apply_op b"
    by (intro ext) (simp add: pool_act.apply_op_def activate_step_def deactivate_step_def)
  then show ?thesis by (simp add: run_activations_def)
qed

text \<open>
  C12: After any sequence of activations and deactivations, repeated and redundant calls included,
  a registered tracker is active exactly if the last call about it was an activation (or, with no
  call about it, if it was active before), and it is inactive otherwise.
\<close>

theorem last_activation_wins:
  assumes "pool_ok p" and "i < pl_tracker_count p"
  shows "(i \<in> set (actives (run_activations b p ops)) \<longleftrightarrow>
      (case filter (\<lambda>op. snd op = i) (rev ops) of [] \<Rightarrow> i \<in> set (actives p) | op # _ \<Rightarrow> fst op))
    \<and> (i \<in> set (inactives (run_activations b p ops)) \<longleftrightarrow> i \<notin> set (actives (run_activations b p ops)))"
proof
  have i: "i \<in> set (actives p) \<union> set (inactives p)" using assms by (auto simp: pool_ok_def)
  show "i \<in> set (actives (run_activations b p ops)) \<longleftrightarrow>
      (case filter (\<lambda>op. snd op = i) (rev ops) of [] \<Rightarrow> i \<in> set (actives p) | op # _ \<Rightarrow> fst op)"
    unfolding run_activations_ops by (rule pool_act.last_operation_wins [OF assms(1) i])
  have "pool_ok (run_activations b p ops)"
    unfolding run_activations_ops by (rule pool_act.run_invar [OF assms(1)])
  moreover have "i \<in> set (actives (run_activations b p ops)) \<union> set (inactives (run_activations b p ops))"
    unfolding run_activations_ops pool_act.run_members [OF assms(1)] by (rule i)
  ultimately show "i \<in> set (inactives (run_activations b p ops)) \<longleftrightarrow> i \<notin> set (actives (run_activations b p ops))"
    by (auto simp: pool_ok_def)
qed

theorem last_activation_wins_witness:
  "1 \<in> set (actives (run_activations 0 sample_pool [(False, 2), (True, 1), (False, 1), (True, 1)]))"
  using last_activation_wins [OF sample_pool_ok, of 1 0 "[(False, 2), (True, 1), (False, 1), (True, 1)]"]
  by (simp add: sample_pool_def)

text \<open>
  C34: The C loop of \<open>remove_from_array\<close> removes the first occurrence of the value from the
  entries in use, says whether there was one, and keeps the block's size.
\<close>

theorem remove_from_array_correct:
  assumes "n \<le> length vs" and "remove_from_array b vs n test = (vs', found)"
  shows "(found \<longleftrightarrow> test \<in> set (take n vs)) \<and> length vs' = length vs
    \<and> take (if found then n - 1 else n) vs' = remove1 test (take n vs)"
proof (cases "test \<in> set (take n vs)")
  case True
  from remove_from_array_present [OF assms(1) True assms(2)] True show ?thesis by simp
next
  case False
  with remove_from_array_absent [OF assms(1) False, of b] assms(2) show ?thesis by (simp add: remove1_idem)
qed

theorem remove_from_array_correct_witness:
  "remove_from_array 99 [4, 7, 9] 2 4 = ([7, 9, 9], True) \<and> take 1 [7, 9, 9::nat] = remove1 4 [4, 7]"
proof -
  have r: "remove_from_array 99 [4, 7, 9] 2 4 = ([7, 9, 9], True)"
    by (simp add: remove_from_array_def remove_loop.simps read_int_def)
  with remove_from_array_correct [OF _ r] show ?thesis by simp
qed

text \<open>
  C37: When the block is full the shift reads one entry beyond its end: what that memory held
  ends up in the last entry (which then falls out of use).
\<close>

theorem remove_from_full_array_reads_beyond:
  assumes "test \<in> set vs"
  shows "last (fst (remove_from_array b vs (length vs) test)) = b"
proof -
  have ex: "\<exists>k. k < length vs \<and> vs ! k = test" using assms by (auto simp: in_set_conv_nth)
  define k where "k = (LEAST k. k < length vs \<and> vs ! k = test)"
  have k: "k < length vs" "vs ! k = test" using LeastI_ex [OF ex] by (auto simp: k_def)
  have least: "vs ! j \<noteq> test" if "j < k" for j
    using not_less_Least [of j "\<lambda>k. k < length vs \<and> vs ! k = test"] that k(1) by (auto simp: k_def)
  have "fst (remove_from_array b vs (length vs) test) =
      take k vs @ map (\<lambda>k. read_int b vs (k + 1)) [k..<length vs]"
    using remove_loop_search [of 0 k "length vs" vs test b] k least by (simp add: remove_from_array_def)
  moreover have "[k..<length vs] = [k..<length vs - 1] @ [length vs - 1]"
    using k(1) by (cases "length vs") auto
  moreover have "\<not> length vs - 1 + 1 < length vs" using k(1) by simp
  ultimately show ?thesis by (simp add: read_int_def)
qed

theorem remove_from_full_array_reads_beyond_witness:
  "last (fst (remove_from_array 99 [2, 0, 1] 3 0)) = 99"
  using remove_from_full_array_reads_beyond [of 0 "[2, 0, 1]" 99] by (simp add: numeral_3_eq_3)

end
