(* ===== verification/PoolLife.thy ===== *)
theory PoolLife
  imports PoolSteps
begin

text \<open>
  The life of a pool: created, filled by registrations (one by one or from a tracker list),
  destroyed. Lines 32 to 140 of \<open>src/src/pool.c\<close>.
\<close>

section \<open>Registration\<close>

text \<open>What a registration leaves in the pool when the address resolves and the mutex is made.\<close>

definition registered_pool ::
  "tracker_pool \<Rightarrow> tracker_info \<Rightarrow> handle \<Rightarrow> tracker_pool" where
  "registered_pool p t l =
     (let n = pl_tracker_count p
      in p\<lparr>pl_trackers := (pl_trackers p)[n := t],
           pl_connection_pools := (pl_connection_pools p)[n :=
             (pl_connection_pools p ! n)\<lparr>cp_lock := l, cp_stack := []\<rparr>],
           pl_active_trackers := (pl_active_trackers p)[n := n],
           pl_active_tracker_count := pl_active_tracker_count p + 1,
           pl_tracker_count := n + 1\<rparr>)"

text \<open>Fields that starting the maintenance thread does not touch.\<close>

definition same_trackers :: "tracker_pool \<Rightarrow> tracker_pool \<Rightarrow> bool" where
  "same_trackers p p' \<longleftrightarrow>
     p' = p\<lparr>pl_pool_running := pl_pool_running p', pl_maintenance_thread := pl_maintenance_thread p'\<rparr>"

lemma same_trackers_ok:
  assumes "same_trackers p p'"
  shows "pool_ok p' = pool_ok p" and "actives p' = actives p" and "inactives p' = inactives p"
    and "pl_tracker_count p' = pl_tracker_count p" and "pl_max_tracker_count p' = pl_max_tracker_count p"
    and "pl_trackers p' = pl_trackers p" and "pl_inactive_tracker_count p' = pl_inactive_tracker_count p"
proof -
  have p': "p' = p\<lparr>pl_pool_running := pl_pool_running p', pl_maintenance_thread := pl_maintenance_thread p'\<rparr>"
    using assms by (simp add: same_trackers_def)
  show "pool_ok p' = pool_ok p" by (subst p') (simp add: pool_ok_def actives_def inactives_def)
  show "actives p' = actives p" by (subst p') (simp add: actives_def)
  show "inactives p' = inactives p" by (subst p') (simp add: inactives_def)
  show "pl_tracker_count p' = pl_tracker_count p" by (subst p') simp
  show "pl_max_tracker_count p' = pl_max_tracker_count p" by (subst p') simp
  show "pl_trackers p' = pl_trackers p" by (subst p') simp
  show "pl_inactive_tracker_count p' = pl_inactive_tracker_count p" by (subst p') simp
qed

lemma start_thread_same:
  "mfs_pool_start_maintenance_thread E allow p w = (p', w') \<Longrightarrow> same_trackers p p'"
  by (auto simp: mfs_pool_start_maintenance_thread_def same_trackers_def split: if_splits prod.splits)

lemma register_success:
  assumes "pl_tracker_count p < pl_max_tracker_count p"
    and "apr_sockaddr_info_get E address port w = ((APR_SUCCESS, sa), w1)"
    and "apr_thread_mutex_create E w1 = ((APR_SUCCESS, l), w2)"
    and "mfs_pool_register_tracker E allow p address port w = (p', w')"
  shows "same_trackers (registered_pool p \<lparr>ti_address = address, ti_port = port, ti_sa = sa\<rparr> l) p'"
proof -
  let ?t = "\<lparr>ti_address = address, ti_port = port, ti_sa = sa\<rparr>"
  have t: "(pl_trackers p ! pl_tracker_count p)\<lparr>ti_address := address, ti_port := port, ti_sa := sa\<rparr> = ?t"
    by (cases "pl_trackers p ! pl_tracker_count p") simp
  have init: "mfs_tracker_init2 E address port (pl_trackers p ! pl_tracker_count p) w = ((APR_SUCCESS, ?t), w1)"
    using assms(2) by (simp add: mfs_tracker_init2_def t)
  have eq: "mfs_pool_register_tracker E allow p address port w =
      (if pl_tracker_count p + 1 = pl_max_tracker_count p
       then mfs_pool_start_maintenance_thread E allow (registered_pool p ?t l) w2
       else (registered_pool p ?t l, w2))"
    using assms(1,3) init by (simp add: mfs_pool_register_tracker_def registered_pool_def Let_def)
  show ?thesis
    using assms(4) unfolding eq
    by (auto simp: same_trackers_def split: if_splits dest!: start_thread_same)
qed

lemma registered_pool_view:
  assumes "pool_ok p" and "pl_tracker_count p < pl_max_tracker_count p" and "pl_inactive_tracker_count p = 0"
  shows "actives (registered_pool p t l) = actives p @ [pl_tracker_count p]"
    and "pool_ok (registered_pool p t l)"
proof -
  let ?n = "pl_tracker_count p"
  have n: "pl_active_tracker_count p = ?n" "?n < length (pl_active_trackers p)"
    using assms by (simp_all add: pool_ok_def)
  show view: "actives (registered_pool p t l) = actives p @ [?n]"
    using take_snoc_update [OF n(2), of ?n] n(1) by (simp add: actives_def registered_pool_def Let_def)
  have "inactives p = []" using assms(3) by (simp add: inactives_def)
  moreover have "inactives (registered_pool p t l) = []"
    using assms(3) by (simp add: inactives_def registered_pool_def Let_def)
  ultimately show "pool_ok (registered_pool p t l)"
    unfolding pool_ok_def view using assms
    by (auto simp: pool_ok_def registered_pool_def Let_def lessThan_Suc)
qed

section \<open>Creation from a tracker list\<close>

text \<open>An environment in which every resource can be created.\<close>

definition healthy :: "'w apr \<Rightarrow> bool" where
  "healthy E \<longleftrightarrow>
     (\<forall>w. fst (fst (apr_pool_create E w)) = APR_SUCCESS)
     \<and> (\<forall>w. fst (fst (apr_thread_rwlock_create E w)) = APR_SUCCESS)
     \<and> (\<forall>w. fst (fst (apr_thread_mutex_create E w)) = APR_SUCCESS)
     \<and> (\<forall>a p w. fst (fst (apr_sockaddr_info_get E a p w)) = APR_SUCCESS)"

definition endpoint :: "tracker_info \<Rightarrow> string \<times> int" where
  "endpoint t = (ti_address t, ti_port t)"

definition endpoints :: "tracker_pool \<Rightarrow> (string \<times> int) list" where
  "endpoints p = map endpoint (take (pl_tracker_count p) (pl_trackers p))"

definition tracker_token :: "string \<times> nat \<Rightarrow> string" where
  "tracker_token a = fst a @ CHR '':'' # show_nat (snd a)"

text \<open>What holds while a pool is being filled.\<close>

definition filling :: "tracker_pool \<Rightarrow> bool" where
  "filling p \<longleftrightarrow> pool_ok p \<and> pl_inactive_tracker_count p = 0 \<and> actives p = [0..<pl_tracker_count p]"

lemma register_healthy:
  assumes "healthy E" and "filling p" and "pl_tracker_count p < pl_max_tracker_count p"
  shows "\<exists>p' w'. mfs_pool_register_tracker E allow p address port w = (p', w') \<and> filling p'
    \<and> pl_max_tracker_count p' = pl_max_tracker_count p \<and> pl_tracker_count p' = pl_tracker_count p + 1
    \<and> endpoints p' = endpoints p @ [(address, port)]"
proof -
  obtain sa w1 where sa: "apr_sockaddr_info_get E address port w = ((APR_SUCCESS, sa), w1)"
    using assms(1) unfolding healthy_def by (metis prod.collapse)
  obtain l w2 where l: "apr_thread_mutex_create E w1 = ((APR_SUCCESS, l), w2)"
    using assms(1) unfolding healthy_def by (metis prod.collapse)
  obtain p' w' where r: "mfs_pool_register_tracker E allow p address port w = (p', w')" by force
  let ?t = "\<lparr>ti_address = address, ti_port = port, ti_sa = sa\<rparr>"
  let ?q = "registered_pool p ?t l"
  note same = same_trackers_ok [OF register_success [OF assms(3) sa l r]]
  have p: "pool_ok p" "pl_inactive_tracker_count p = 0" "actives p = [0..<pl_tracker_count p]"
    using assms(2) by (simp_all add: filling_def)
  note view = registered_pool_view [OF p(1) assms(3) p(2), of ?t l]
  have "filling p'"
    using view p by (simp add: filling_def same) (simp add: registered_pool_def Let_def)
  moreover have "pl_tracker_count p < length (pl_trackers p)" using p(1) assms(3) by (simp add: pool_ok_def)
  then have "endpoints ?q = endpoints p @ [(address, port)]"
    using take_snoc_update [of "pl_tracker_count p" "pl_trackers p" ?t]
    by (simp add: endpoints_def registered_pool_def Let_def endpoint_def)
  then have "endpoints p' = endpoints p @ [(address, port)]" by (simp add: endpoints_def same)
  ultimately show ?thesis using r same by (simp add: registered_pool_def Let_def)
qed

lemma token_split:
  assumes "CHR '':'' \<notin> set a"
  shows "takeWhile (\<lambda>c. c \<noteq> CHR '':'') (tracker_token (a, n)) = a"
    and "drop (Suc (length a)) (tracker_token (a, n)) = show_nat n" and "CHR '':'' \<in> set (tracker_token (a, n))"
  using assms by (auto simp: tracker_token_def takeWhile_append takeWhile_eq_all_conv)

lemma register_tokens_healthy:
  assumes "healthy E"
  shows "\<forall>a \<in> set as. CHR '':'' \<notin> set (fst a) \<Longrightarrow> filling p \<Longrightarrow>
    pl_tracker_count p + length as \<le> pl_max_tracker_count p \<Longrightarrow>
    \<exists>p' w'. register_tokens E allow p (map tracker_token as) w = (Some p', w') \<and> filling p'
      \<and> pl_tracker_count p' = pl_tracker_count p + length as
      \<and> endpoints p' = endpoints p @ map (\<lambda>(a, n). (a, int n)) as"
proof (induction as arbitrary: p w)
  case Nil
  then show ?case by simp
next
  case (Cons a as)
  obtain addr n where a: "a = (addr, n)" by force
  have c: "CHR '':'' \<notin> set addr" using Cons.prems(1) a by simp
  have room: "pl_tracker_count p < pl_max_tracker_count p" using Cons.prems(3) by simp
  from register_healthy [OF assms Cons.prems(2) room] obtain p1 w1 where
    r: "mfs_pool_register_tracker E allow p addr (int n) w = (p1, w1)" "filling p1"
      "pl_max_tracker_count p1 = pl_max_tracker_count p" "pl_tracker_count p1 = pl_tracker_count p + 1"
      "endpoints p1 = endpoints p @ [(addr, int n)]" by blast
  obtain p2 w2 where "register_tokens E allow p1 (map tracker_token as) w1 = (Some p2, w2)" "filling p2"
      "pl_tracker_count p2 = pl_tracker_count p1 + length as"
      "endpoints p2 = endpoints p1 @ map (\<lambda>(a, n). (a, int n)) as"
    using Cons.IH [of p1 w1] Cons.prems r(2-4) by auto
  with r show ?case by (simp add: a token_split [OF c] Let_def)
qed

lemma count_join: "\<forall>x \<in> set xs. c \<notin> set x \<Longrightarrow> xs \<noteq> [] \<Longrightarrow> count_list (join c xs) c + 1 = length xs"
  by (induction c xs rule: join.induct) (auto simp: count_list_0_iff)

lemma pool_init_healthy:
  assumes "healthy E" and "palloc_law E"
  shows "\<exists>p w'. mfs_pool_init E n w = (Some p, w') \<and> filling p \<and> pl_max_tracker_count p = n
    \<and> pl_tracker_count p = 0 \<and> endpoints p = []"
proof -
  define w0 where "w0 = c_srand E (Suc 0) w"
  obtain q w1 where q: "apr_pool_create E w0 = ((APR_SUCCESS, q), w1)"
    using assms(1) unfolding healthy_def by (metis prod.collapse)
  obtain l w2 where l: "apr_thread_rwlock_create E w1 = ((APR_SUCCESS, l), w2)"
    using assms(1) unfolding healthy_def by (metis prod.collapse)
  obtain act w3 where act: "apr_palloc_ints E n w2 = (act, w3)" by force
  obtain inact w4 where inact: "apr_palloc_ints E n w3 = (inact, w4)" by force
  obtain st m w5 where m: "apr_thread_mutex_create E w4 = ((st, m), w5)" by (metis prod.exhaust)
  obtain c w6 where c: "apr_thread_cond_create E w5 = (c, w6)" by force
  have "length act = n" "length inact = n"
    using assms(2) act inact unfolding palloc_law_def by (metis fst_conv)+
  then show ?thesis
    by (simp add: mfs_pool_init_def Let_def w0_def [symmetric] q l act inact m c filling_def pool_ok_def
        actives_def inactives_def endpoints_def)
qed

section \<open>Destruction\<close>

lemma pop_entry_nth:
  assumes "pop_entry p i = (eo, p')"
  shows "j \<noteq> i \<Longrightarrow> pl_connection_pools p' ! j = pl_connection_pools p ! j"
    and "i < length (pl_connection_pools p) \<Longrightarrow> eo = None \<Longrightarrow> stack_of p' i = []"
  using assms
  by (auto simp: pop_entry_def Let_def set_connection_pool_def stack_of_def split: if_splits list.splits)

lemma pop_locked_nth:
  assumes "mutex_law E" and "pop_locked E p i w = ((locked, eo), p', w')"
  shows "j \<noteq> i \<Longrightarrow> pl_connection_pools p' ! j = pl_connection_pools p ! j"
    and "i < length (pl_connection_pools p) \<Longrightarrow> eo = None \<Longrightarrow> stack_of p' i = []"
proof -
  obtain w1 where lock: "apr_thread_mutex_lock E (cp_lock (pl_connection_pools p ! i)) w = (APR_SUCCESS, w1)"
    using assms(1) unfolding mutex_law_def by (metis prod.collapse)
  obtain eo1 p1 where pop: "pop_entry p i = (eo1, p1)" by force
  have "eo = eo1" "p' = p1" using assms(2) lock pop by (auto simp: pop_locked_def split: prod.splits)
  with pop_entry_nth [OF pop] show "j \<noteq> i \<Longrightarrow> pl_connection_pools p' ! j = pl_connection_pools p ! j"
    "i < length (pl_connection_pools p) \<Longrightarrow> eo = None \<Longrightarrow> stack_of p' i = []" by auto
qed

lemma drain_empties:
  "drain_connections E p i w = (p', w') \<Longrightarrow> mutex_law E \<Longrightarrow> i < length (pl_connection_pools p) \<Longrightarrow>
   pool_law E live \<Longrightarrow> conn_inv live X p w H \<Longrightarrow>
   stack_of p' i = [] \<and> (\<forall>j. j \<noteq> i \<longrightarrow> stack_of p' j = stack_of p j)"
proof (induction E p i w arbitrary: p' w' rule: drain_connections.induct)
  case (1 E p i w)
  obtain locked eo q w1 where pop: "pop_locked E p i w = ((locked, eo), q, w1)" by (metis prod.exhaust)
  note nth = pop_locked_nth [OF 1(3) pop]
  note popped = pop_locked_conn [OF 1(5) pop 1(4,6)]
  show ?case
  proof (cases eo)
    case None
    then have "p' = q" using 1(2) pop by (simp add: drain_connections.simps [of E p i w])
    with nth(1) nth(2) [OF 1(4) None] show ?thesis by (auto simp: stack_of_def)
  next
    case (Some e)
    have res: "drain_connections E q i (mfs_pool_destroy_connection E e w1) = (p', w')"
      using 1(2) pop Some by (simp add: drain_connections.simps [of E p i w])
    have len: "i < length (pl_connection_pools q)" using popped(2) 1(4) by (simp add: only_stacks_def)
    have "conn_inv live X q (mfs_pool_destroy_connection E e w1) H"
      using destroy_conn [OF 1(5)] popped(1) Some by simp
    from 1(1) [OF pop [symmetric] refl Some refl res 1(3) len 1(5) this] nth(1)
    show ?thesis by (auto simp: stack_of_def)
  qed
qed

lemma drain_lock: "drain_connections E p i w = (p', w') \<Longrightarrow> i < length (pl_connection_pools p) \<Longrightarrow>
  cp_lock (pl_connection_pools p' ! j) = cp_lock (pl_connection_pools p ! j)
  \<and> length (pl_connection_pools p') = length (pl_connection_pools p)"
proof (induction E p i w arbitrary: p' w' rule: drain_connections.induct)
  case (1 E p i w)
  obtain locked eo q w1 where pop: "pop_locked E p i w = ((locked, eo), q, w1)" by (metis prod.exhaust)
  have q: "cp_lock (pl_connection_pools q ! j) = cp_lock (pl_connection_pools p ! j)"
      "length (pl_connection_pools q) = length (pl_connection_pools p)"
    using pop 1(3)
    by (auto simp: pop_locked_def pop_entry_def set_connection_pool_def Let_def nth_list_update
        split: prod.splits if_splits list.splits)
  show ?case
  proof (cases eo)
    case None
    then show ?thesis using 1(2) pop q by (simp add: drain_connections.simps [of E p i w])
  next
    case (Some e)
    then have "drain_connections E q i (mfs_pool_destroy_connection E e w1) = (p', w')"
      using 1(2) pop by (simp add: drain_connections.simps [of E p i w])
    from 1(1) [OF pop [symmetric] refl Some refl this] 1(3) q show ?thesis by simp
  qed
qed

text \<open>The loop of \<open>mfs_destroy_pool\<close> stops at the first slot without a mutex.\<close>

definition no_mutex :: "tracker_pool \<Rightarrow> nat \<Rightarrow> bool" where
  "no_mutex p i \<longleftrightarrow> cp_lock (pl_connection_pools p ! i) = 0"

lemma destroy_pools_crash:
  assumes "\<forall>i \<in> set is. i < length (pl_connection_pools p)"
  shows "destroy_connection_pools E p is w = None \<longleftrightarrow> (\<exists>i \<in> set is. no_mutex p i)"
  using assms
proof (induction "is" arbitrary: p w)
  case (Cons i "is")
  obtain p1 w1 where dr: "drain_connections E p i w = (p1, w1)" by force
  have i: "i < length (pl_connection_pools p)" using Cons.prems by simp
  have locks: "no_mutex p1 j = no_mutex p j" for j using drain_lock [OF dr i] by (simp add: no_mutex_def)
  have "length (pl_connection_pools p1) = length (pl_connection_pools p)" using drain_lock [OF dr i] by simp
  with Cons.IH [of p1] Cons.prems dr locks show ?case
    by (simp add: mfs_destroy_connection_pool_def no_mutex_def [of p i, symmetric])
qed simp

lemma destroy_pools_empties:
  assumes "pool_law E live" and "sync_law E live" and "mutex_law E"
  shows "destroy_connection_pools E p is w = Some (p', w') \<Longrightarrow> \<forall>i \<in> set is. i < length (pl_connection_pools p) \<Longrightarrow>
    conn_inv live X p w H \<Longrightarrow>
    conn_inv live X p' w' H \<and> only_stacks p p' \<and> (\<forall>j. stack_of p' j = (if j \<in> set is then [] else stack_of p j))"
proof (induction "is" arbitrary: p w)
  case Nil
  then show ?case by (simp add: only_stacks_refl)
next
  case (Cons i "is")
  obtain p1 w1 where dr: "drain_connections E p i w = (p1, w1)" by force
  have i: "i < length (pl_connection_pools p)" using Cons.prems(2) by simp
  note dc = drain_conn [OF dr assms(1) i Cons.prems(3)]
  note de = drain_empties [OF dr assms(3) i assms(1) Cons.prems(3)]
  let ?w = "apr_thread_mutex_destroy E (cp_lock (pl_connection_pools p1 ! i)) w1"
  have "live ?w = live w1" using assms(2) by (simp add: sync_law_def)
  then have inv: "conn_inv live X p1 ?w H" by (rule conn_inv_frame [OF dc [THEN conjunct1]])
  have res: "destroy_connection_pools E p1 is ?w = Some (p', w')"
    using Cons.prems(1) dr by (simp add: mfs_destroy_connection_pool_def split: if_splits)
  have "\<forall>i \<in> set is. i < length (pl_connection_pools p1)"
    using Cons.prems(2) dc by (simp add: only_stacks_def)
  from Cons.IH [OF res this inv] dc de show ?case
    using only_stacks_trans by auto
qed

lemma only_stacks_pool: "only_stacks p p' \<Longrightarrow> pl_pool p' = pl_pool p"
proof -
  assume "only_stacks p p'"
  then have "p' = p\<lparr>pl_connection_pools := pl_connection_pools p'\<rparr>" by (simp add: only_stacks_def)
  then show ?thesis by (rule ssubst) simp
qed

lemma idle_empty: "(\<And>j. j < length (pl_connection_pools p) \<Longrightarrow> stack_of p j = []) \<Longrightarrow> idle p = {#}"
proof -
  assume e: "\<And>j. j < length (pl_connection_pools p) \<Longrightarrow> stack_of p j = []"
  have "conns cp = {#}" if "cp \<in> set (pl_connection_pools p)" for cp
    using that e by (auto simp: conns_def stack_of_def in_set_conv_nth)
  then have "map conns (pl_connection_pools p) = map (\<lambda>_. {#}) (pl_connection_pools p)" by simp
  then show ?thesis by (simp only: idle_def) simp
qed

section \<open>Properties\<close>

text \<open>
  C29: Destroying a pool all of whose slots are registered, so that each has its mutex, succeeds,
  closes every idle connection exactly once and frees the pool's own memory: of the memory pools
  that were alive only those that belong to neither are left. With a slot nobody registered it
  dereferences the NULL mutex of that slot.
\<close>

theorem destroy_pool_frees_everything:
  assumes "sys_inv E live X p w {#}" and "sync_law E live" and "pl_pool p \<in> X"
  shows "case mfs_destroy_pool E p w of
      Some w' \<Rightarrow> (\<forall>cp \<in> set (pl_connection_pools p). cp_lock cp \<noteq> 0) \<and> live w' = X - {pl_pool p}
    | None \<Rightarrow> \<exists>cp \<in> set (pl_connection_pools p). cp_lock cp = 0"
proof -
  have laws: "pool_law E live" "mutex_law E" "pool_ok p" "conn_inv live X p w {#}"
    using assms(1) by (simp_all add: sys_inv_def)
  have len: "length (pl_connection_pools p) = pl_max_tracker_count p" using laws(3) by (simp add: pool_ok_def)
  let ?is = "[0..<pl_max_tracker_count p]"
  have is_ok: "\<forall>i \<in> set ?is. i < length (pl_connection_pools p)" by (simp add: len)
  have crash: "destroy_connection_pools E p ?is w = None \<longleftrightarrow> (\<exists>cp \<in> set (pl_connection_pools p). cp_lock cp = 0)"
    unfolding destroy_pools_crash [OF is_ok] by (auto simp: no_mutex_def Bex_def in_set_conv_nth len)
  show ?thesis
  proof (cases "destroy_connection_pools E p ?is w")
    case None
    with crash show ?thesis by (simp add: mfs_destroy_pool_def)
  next
    case (Some r)
    then obtain p' w' where d: "destroy_connection_pools E p ?is w = Some (p', w')" by (cases r) simp
    note fin = destroy_pools_empties [OF laws(1) assms(2) laws(2) d is_ok laws(4)]
    have "idle p' = {#}"
      using fin len by (intro idle_empty) (simp add: only_stacks_def)
    then have "live w' = X" using fin by (simp add: conn_inv_def)
    moreover have "pl_pool p' = pl_pool p" using fin only_stacks_pool by blast
    moreover define w1 where "w1 = apr_thread_rwlock_destroy E (pl_lock p') (apr_thread_cond_destroy E
        (pl_maintenance_cond p') (apr_thread_mutex_destroy E (pl_maintenance_mutex p') w'))"
    moreover have "live w1 = live w'" using assms(2) by (simp add: w1_def sync_law_def)
    ultimately have "mfs_destroy_pool E p w = Some (apr_pool_destroy E (pl_pool p) w1)"
      and "live (apr_pool_destroy E (pl_pool p) w1) = X - {pl_pool p}"
      using pool_destroy_live [OF laws(1), of "pl_pool p" w1] assms(3) by (simp_all add: mfs_destroy_pool_def d)
    moreover have "\<forall>cp \<in> set (pl_connection_pools p). cp_lock cp \<noteq> 0" using crash d by auto
    ultimately show ?thesis by simp
  qed
qed

theorem destroy_pool_frees_everything_witness:
  "(\<exists>w'. mfs_destroy_pool sim_apr (push_entry sample_pool 2 (aged 5)) (sim0\<lparr>sim_pools := [4, 2]\<rparr>) = Some w'
      \<and> sim_live w' = {})"
proof -
  let ?p = "push_entry sample_pool 2 (aged 5)"
  have p: "2 < length (pl_connection_pools sample_pool)" by (simp add: sample_pool_def)
  have e: "entry_pool (aged 5) = 2" by (simp add: entry_pool_def aged_def sample_connection_def)
  note push = push_entry_idle [OF p, of "aged 5"]
  have i: "idle sample_pool = {#}"
    by (simp add: idle_def conns_def sample_pool_def numeral_3_eq_3)
  have "conn_inv sim_live {4} ?p (sim0\<lparr>sim_pools := [4, 2]\<rparr>) {#}"
    by (auto simp: conn_inv_def push(1) e i sim_live_def)
  then have sys: "sys_inv sim_apr sim_live {4} ?p (sim0\<lparr>sim_pools := [4, 2]\<rparr>) {#}"
    using sample_sys [of sim0] only_stacks_same [OF push(2)] by (simp add: sys_inv_def sim0_def)
  have own: "pl_pool ?p = 4"
    by (simp add: push_entry_def set_connection_pool_def Let_def) (simp add: sample_pool_def)
  have locks: "\<forall>cp \<in> set (pl_connection_pools ?p). cp_lock cp = 7"
    by (simp add: push_entry_def set_connection_pool_def Let_def sample_pool_def numeral_3_eq_3)
  have "pl_pool ?p \<in> {4}" using own by simp
  from destroy_pool_frees_everything [OF sys sim_sync_law this] locks own show ?thesis
    by (auto split: option.splits)
qed

text \<open>
  C28: From a list \<open>address:port,address:port,...\<close> \<open>mfs_pool_init_quick\<close> makes a pool with
  exactly those trackers, in that order, all of them active.
\<close>

theorem init_quick_registers_all:
  assumes "healthy E" and "palloc_law E" and "strtok_law E" and "as \<noteq> []"
    and "\<forall>a \<in> set as. CHR '':'' \<notin> set (fst a) \<and> CHR '','' \<notin> set (fst a) \<and> snd a < 2 ^ 31"
  shows "\<exists>p w'. mfs_pool_init_quick E allow (join (CHR '','') (map tracker_token as)) w = Some (Some p, w')
    \<and> endpoints p = map (\<lambda>(a, n). (a, int n)) as \<and> actives p = [0..<length as] \<and> pool_ok p"
proof -
  let ?ts = "map tracker_token as"
  have no_comma: "\<forall>x \<in> set ?ts. CHR '','' \<notin> set x"
  proof
    fix x assume "x \<in> set ?ts"
    then obtain a n where x: "x = tracker_token (a, n)" "(a, n) \<in> set as" by auto
    have "CHR '','' \<notin> set (show_nat n)"
      using show_nat_digits [of "CHR '',''" n] by (auto simp: isdigit_def)
    then show "CHR '','' \<notin> set x" using assms(5) x by (auto simp: tracker_token_def)
  qed
  have toks: "apr_strtok E (join (CHR '','') ?ts) (CHR '','') = ?ts"
  proof -
    have "apr_strtok E (join (CHR '','') ?ts) (CHR '','') = filter (\<lambda>x. x \<noteq> []) ?ts"
      using assms(3) no_comma unfolding strtok_law_def by blast
    also have "\<dots> = ?ts" by (auto simp: filter_id_conv tracker_token_def)
    finally show ?thesis .
  qed
  have n: "count_list (join (CHR '','') ?ts) (CHR '','') + 1 = length as"
    using count_join [OF no_comma] assms(4) by simp
  from pool_init_healthy [OF assms(1,2), of "length as" w] obtain p0 w0 where
    p0: "mfs_pool_init E (length as) w = (Some p0, w0)" "filling p0" "pl_max_tracker_count p0 = length as"
      "pl_tracker_count p0 = 0" "endpoints p0 = []" by blast
  have "\<forall>a \<in> set as. CHR '':'' \<notin> set (fst a)" using assms(5) by blast
  from register_tokens_healthy [OF assms(1) this p0(2), of allow w0] p0 obtain p w' where
    "register_tokens E allow p0 ?ts w0 = (Some p, w')" "filling p" "pl_tracker_count p = length as"
    "endpoints p = map (\<lambda>(a, n). (a, int n)) as" by auto
  then show ?thesis
    using p0(1) n by (simp add: mfs_pool_init_quick_def toks filling_def)
qed

lemma sim_healthy: "healthy sim_apr"
  by (simp add: healthy_def sim_apr_def sim_pool_create_def sim_fresh_def Let_def)

theorem init_quick_registers_all_witness:
  "\<exists>p w'. mfs_pool_init_quick sim_apr True ''t1:7001,t2:7002'' sim0 = Some (Some p, w')
     \<and> endpoints p = [(''t1'', 7001), (''t2'', 7002)] \<and> actives p = [0, 1]"
proof -
  let ?as = "[(''t1'', 7001), (''t2'', 7002)]"
  have "join (CHR '','') (map tracker_token ?as) = ''t1:7001,t2:7002''"
    by (simp add: tracker_token_def show_nat.simps digit_char_def) code_simp
  with init_quick_registers_all [OF sim_healthy sim_palloc_law sim_strtok_law, of ?as True sim0]
  show ?thesis by (auto simp: upt_rec)
qed

text \<open>
  C35: Registration writes the new index at position \<open>tracker_count\<close> of the active array, which
  is the end of the entries in use only while no tracker is inactive. After a deactivation the
  entry that comes into use is whatever the array held there, and the new tracker is in neither
  list.
\<close>

theorem register_after_deactivation_loses_tracker:
  assumes "pool_ok p" and "pl_tracker_count p < pl_max_tracker_count p" and "inactives p \<noteq> []"
    and "pl_active_trackers p ! pl_active_tracker_count p \<noteq> pl_tracker_count p"
    and "apr_sockaddr_info_get E address port w = ((APR_SUCCESS, sa), w1)"
    and "apr_thread_mutex_create E w1 = ((APR_SUCCESS, l), w2)"
    and "mfs_pool_register_tracker E allow p address port w = (p', w')"
  shows "actives p' = actives p @ [pl_active_trackers p ! pl_active_tracker_count p]
    \<and> pl_tracker_count p \<notin> set (actives p') \<union> set (inactives p') \<and> \<not> pool_ok p'"
proof -
  let ?n = "pl_tracker_count p" and ?c = "pl_active_tracker_count p" and ?as = "pl_active_trackers p"
  let ?q = "registered_pool p \<lparr>ti_address = address, ti_port = port, ti_sa = sa\<rparr> l"
  note same = same_trackers_ok [OF register_success [OF assms(2,5-7)]]
  have "0 < pl_inactive_tracker_count p" using assms(3) by (auto simp: inactives_def)
  then have c: "?c < ?n" "?c < length ?as"
    using assms(1,2) by (auto simp: pool_ok_def)
  have "actives ?q = take (Suc ?c) (?as[?n := ?n])"
    by (simp add: actives_def registered_pool_def Let_def)
  also have "\<dots> = take (Suc ?c) ?as" using c(1) by simp
  also have "\<dots> = actives p @ [?as ! ?c]" using c(2) by (simp add: actives_def take_Suc_conv_app_nth)
  finally have a: "actives p' = actives p @ [?as ! ?c]" by (simp add: same)
  have i: "inactives p' = inactives p"
    by (simp add: same) (simp add: inactives_def registered_pool_def Let_def)
  have "set (actives p) \<union> set (inactives p) = {..<?n}" using assms(1) by (simp add: pool_ok_def)
  then have out: "?n \<notin> set (actives p') \<union> set (inactives p')"
    using assms(4) by (auto simp: a i)
  have "?n < pl_tracker_count p'" by (simp add: same registered_pool_def Let_def)
  with a out show ?thesis by (auto simp: pool_ok_def)
qed

text \<open>Three slots, two trackers registered, the first of them deactivated.\<close>

definition late_pool :: tracker_pool where
  "late_pool = sample_pool\<lparr>pl_tracker_count := 2, pl_active_trackers := [1, 0, 0], pl_active_tracker_count := 1,
     pl_inactive_trackers := [0, 0, 0]\<rparr>"

theorem register_after_deactivation_loses_tracker_witness:
  "\<exists>p' w'. mfs_pool_register_tracker sim_apr True late_pool ''t3'' 7001 sim0 = (p', w')
     \<and> actives p' = [1, 0] \<and> 2 \<notin> set (actives p') \<union> set (inactives p') \<and> \<not> pool_ok p'"
proof -
  have a: "apr_sockaddr_info_get sim_apr ''t3'' 7001 sim0 = ((APR_SUCCESS, 1), sim0\<lparr>sim_next := 2\<rparr>)"
    and m: "apr_thread_mutex_create sim_apr (sim0\<lparr>sim_next := 2\<rparr>) = ((APR_SUCCESS, 2), sim0\<lparr>sim_next := 3\<rparr>)"
    by (simp_all add: sim_apr_def sim_fresh_def sim0_def)
  have ok: "pool_ok late_pool"
    by (auto simp: late_pool_def pool_ok_def sample_pool_def actives_def inactives_def)
  obtain p' w' where r: "mfs_pool_register_tracker sim_apr True late_pool ''t3'' 7001 sim0 = (p', w')" by force
  have late: "pl_tracker_count late_pool = 2" "pl_max_tracker_count late_pool = 3" "inactives late_pool = [0]"
      "actives late_pool = [1]" "pl_active_trackers late_pool ! pl_active_tracker_count late_pool = 0"
    by (simp_all add: late_pool_def sample_pool_def actives_def inactives_def)
  from register_after_deactivation_loses_tracker [OF ok _ _ _ a m r] r show ?thesis
    by (simp add: late)
qed

end
