(* ===== verification/Request.thy ===== *)
theory Request
  imports PoolConn
begin

text \<open>
  \<open>mfs_request_do\<close> of \<open>src/src/request.c\<close>: one request, tried on the active trackers in
  turn until one of them answers.
\<close>

section \<open>The operation\<close>

text \<open>
  The variables of the function that its loops change, with the pool and the world. \<open>ok\<close> and
  \<open>result\<close> belong to the caller.
\<close>

record 'w request_state =
  rq_rv :: apr_status
  rq_finished :: bool
  rq_ok :: bool
  rq_result :: apr_hash
  rq_trackers :: tracker_pool
  rq_world :: 'w

lemma get_connection_cached_shorter:
  assumes "mfs_pool_get_connection_ex E p i True t w = ((Some e, False), p', w')"
  shows "length (cp_stack (pl_connection_pools p' ! i)) < length (cp_stack (pl_connection_pools p ! i))"
proof -
  obtain locked eo q w1 where pop: "pop_locked E p i w = ((locked, eo), q, w1)" by (metis prod.exhaust)
  then have "eo = Some e" "p' = q"
    using assms by (auto simp: mfs_pool_get_connection_ex_def split: if_splits prod.splits sum.splits)
  with pop_locked_shorter [of E p i w locked e q w1] pop show ?thesis by simp
qed

text \<open>
  The inner loop: cached connections to the tracker are used up until one works; a failure on a
  new connection, or no connection, ends it. The result is \<open>None\<close> if a request does not return.
\<close>

function try_tracker ::
  "'w apr \<Rightarrow> string \<Rightarrow> tracker_request_parameters \<Rightarrow> int \<Rightarrow> nat \<Rightarrow> 'w request_state \<Rightarrow> 'w request_state option" where
  "try_tracker E action parameters timeout i s =
     (case mfs_pool_get_connection_ex E (rq_trackers s) i True timeout (rq_world s) of
        ((None, is_new), p, w) \<Rightarrow> Some (s\<lparr>rq_trackers := p, rq_world := w\<rparr>)
      | ((Some entry, is_new), p, w) \<Rightarrow>
          (case mfs_tracker_request E (e_connection entry) action parameters (rq_ok s) (rq_result s) timeout w of
             None \<Rightarrow> None
           | Some ((rv, ok, result), w) \<Rightarrow>
               if rv \<noteq> APR_SUCCESS then
                 let s = s\<lparr>rq_rv := rv, rq_ok := ok, rq_result := result, rq_trackers := p,
                           rq_world := mfs_pool_destroy_connection E entry w\<rparr>
                 in if is_new then Some s else try_tracker E action parameters timeout i s
               else
                 let (p, w) = mfs_pool_return_connection E p i entry w
                 in Some (s\<lparr>rq_rv := rv, rq_finished := True, rq_ok := ok, rq_result := result,
                            rq_trackers := p, rq_world := w\<rparr>)))"
  by pat_completeness auto
termination
  by (relation "measure (\<lambda>(E, a, ps, t, i, s). length (cp_stack (pl_connection_pools (rq_trackers s) ! i)))")
     (auto dest!: get_connection_cached_shorter [OF sym])

declare try_tracker.simps [simp del]

text \<open>
  \<open>pool\<close> is \<open>None\<close> for NULL; then the function creates a pool of its own, and \<open>rv\<close> no
  longer holds its default when the loop begins.
\<close>

definition request_loop ::
  "'w apr \<Rightarrow> string \<Rightarrow> tracker_request_parameters \<Rightarrow> int \<Rightarrow> tracker_list \<Rightarrow> 'w request_state \<Rightarrow> 'w request_state option" where
  "request_loop E action parameters timeout l s =
     tracker_loop (\<lambda>s. \<not> rq_finished s) rq_trackers (try_tracker E action parameters timeout) l s"

definition mfs_request_do ::
  "'w apr \<Rightarrow> tracker_pool \<Rightarrow> string \<Rightarrow> tracker_request_parameters \<Rightarrow> bool \<Rightarrow> apr_hash \<Rightarrow>
     handle option \<Rightarrow> int \<Rightarrow> 'w \<Rightarrow> ((apr_status \<times> bool \<times> apr_hash) \<times> tracker_pool \<times> 'w) option" where
  "mfs_request_do E trackers action parameters ok result pool timeout w =
     (let ((rv, own), w) = (case pool of
            None \<Rightarrow> (case apr_pool_create E w of ((rv, q), w) \<Rightarrow> ((rv, if rv = APR_SUCCESS then Some q else None), w))
          | Some q \<Rightarrow> ((APR_ECONNREFUSED, None), w))
      in if pool = None \<and> rv \<noteq> APR_SUCCESS then Some ((rv, ok, result), trackers, w)
         else case mfs_pool_list_active_trackers E trackers w of
           (None, w) \<Rightarrow> Some ((APR_ECONNREFUSED, ok, result), trackers, w)
         | (Some l, w) \<Rightarrow>
             (case request_loop E action parameters timeout l
                     \<lparr>rq_rv = rv, rq_finished = False, rq_ok = ok, rq_result = result,
                      rq_trackers = trackers, rq_world = w\<rparr> of
                None \<Rightarrow> None
              | Some s \<Rightarrow>
                  Some ((rq_rv s, rq_ok s, rq_result s), rq_trackers s,
                        case own of None \<Rightarrow> rq_world s | Some q \<Rightarrow> apr_pool_destroy E q (rq_world s))))"

section \<open>What one tracker contributes\<close>

text \<open>
  Unfolding the inner loop once, by the way it can go: no connection, a failed request on a new
  or on a cached connection, a request that works.
\<close>

lemma try_tracker_induct:
  assumes res: "try_tracker E action ps t i s = Some s'" and "I s"
    and none: "\<And>s nw p w. I s \<Longrightarrow>
        mfs_pool_get_connection_ex E (rq_trackers s) i True t (rq_world s) = ((None, nw), p, w) \<Longrightarrow>
        Q (s\<lparr>rq_trackers := p, rq_world := w\<rparr>)"
    and cached: "\<And>s e p w rv ok h w'. I s \<Longrightarrow>
        mfs_pool_get_connection_ex E (rq_trackers s) i True t (rq_world s) = ((Some e, False), p, w) \<Longrightarrow>
        mfs_tracker_request E (e_connection e) action ps (rq_ok s) (rq_result s) t w = Some ((rv, ok, h), w') \<Longrightarrow>
        rv \<noteq> APR_SUCCESS \<Longrightarrow>
        I (s\<lparr>rq_rv := rv, rq_ok := ok, rq_result := h, rq_trackers := p,
             rq_world := mfs_pool_destroy_connection E e w'\<rparr>)"
    and fresh: "\<And>s e p w rv ok h w'. I s \<Longrightarrow>
        mfs_pool_get_connection_ex E (rq_trackers s) i True t (rq_world s) = ((Some e, True), p, w) \<Longrightarrow>
        mfs_tracker_request E (e_connection e) action ps (rq_ok s) (rq_result s) t w = Some ((rv, ok, h), w') \<Longrightarrow>
        rv \<noteq> APR_SUCCESS \<Longrightarrow>
        Q (s\<lparr>rq_rv := rv, rq_ok := ok, rq_result := h, rq_trackers := p,
             rq_world := mfs_pool_destroy_connection E e w'\<rparr>)"
    and works: "\<And>s e nw p w ok h w' p' w''. I s \<Longrightarrow>
        mfs_pool_get_connection_ex E (rq_trackers s) i True t (rq_world s) = ((Some e, nw), p, w) \<Longrightarrow>
        mfs_tracker_request E (e_connection e) action ps (rq_ok s) (rq_result s) t w = Some ((APR_SUCCESS, ok, h), w') \<Longrightarrow>
        mfs_pool_return_connection E p i e w' = (p', w'') \<Longrightarrow>
        Q (s\<lparr>rq_rv := APR_SUCCESS, rq_finished := True, rq_ok := ok, rq_result := h,
             rq_trackers := p', rq_world := w''\<rparr>)"
  shows "Q s'"
  using res \<open>I s\<close>
proof (induction "length (cp_stack (pl_connection_pools (rq_trackers s) ! i))" arbitrary: s rule: less_induct)
  case less
  obtain eo nw p w where get: "mfs_pool_get_connection_ex E (rq_trackers s) i True t (rq_world s) = ((eo, nw), p, w)"
    by (metis prod.exhaust)
  show ?case
  proof (cases eo)
    case None
    then have "s' = s\<lparr>rq_trackers := p, rq_world := w\<rparr>"
      using less(2) get by (simp add: try_tracker.simps [of E action ps t i s])
    with none [OF less(3) get [unfolded None]] show ?thesis by simp
  next
    case (Some e)
    note get = get [unfolded Some]
    obtain rv ok h w' where req: "mfs_tracker_request E (e_connection e) action ps (rq_ok s) (rq_result s) t w =
        Some ((rv, ok, h), w')"
      using less(2) get by (auto simp: try_tracker.simps [of E action ps t i s] split: option.splits)
    let ?s = "s\<lparr>rq_rv := rv, rq_ok := ok, rq_result := h, rq_trackers := p,
        rq_world := mfs_pool_destroy_connection E e w'\<rparr>"
    show ?thesis
    proof (cases "rv = APR_SUCCESS")
      case True
      obtain p' w'' where put: "mfs_pool_return_connection E p i e w' = (p', w'')" by force
      have "s' = s\<lparr>rq_rv := APR_SUCCESS, rq_finished := True, rq_ok := ok, rq_result := h,
             rq_trackers := p', rq_world := w''\<rparr>"
        using less(2) get req put True by (simp add: try_tracker.simps [of E action ps t i s])
      with works [OF less(3) get req [unfolded True] put] show ?thesis by simp
    next
      case False
      show ?thesis
      proof (cases nw)
        case True
        then have "s' = ?s" using less(2) get req False by (simp add: try_tracker.simps [of E action ps t i s])
        moreover have "nw = True" using True by simp
        ultimately show ?thesis using fresh [OF less(3) _ req False] get by simp
      next
        case nw: False
        then have "try_tracker E action ps t i ?s = Some s'"
          using less(2) get req False by (simp add: try_tracker.simps [of E action ps t i s])
        moreover have get': "mfs_pool_get_connection_ex E (rq_trackers s) i True t (rq_world s) = ((Some e, False), p, w)"
          using get nw by simp
        ultimately show ?thesis
          using less(1) [of ?s] get_connection_cached_shorter [OF get'] cached [OF less(3) get' req False] by simp
      qed
    qed
  qed
qed

section \<open>Conservation of connections\<close>

abbreviation sound_request ::
  "'w apr \<Rightarrow> ('w \<Rightarrow> handle set) \<Rightarrow> handle set \<Rightarrow> tracker_pool \<Rightarrow> 'w request_state \<Rightarrow> bool" where
  "sound_request E live X p s \<equiv>
     sys_inv E live X (rq_trackers s) (rq_world s) {#} \<and> (\<forall>j. registered (rq_trackers s) j = registered p j)"

lemma try_tracker_sound:
  assumes "try_tracker E action ps t i s = Some s'" and "sound_request E live X p s" and "registered p i"
  shows "sound_request E live X p s'"
proof (rule try_tracker_induct [OF assms(1), where I = "sound_request E live X p"])
  show "sound_request E live X p s" by (rule assms(2))
next
  fix s :: "'a request_state" and nw q w
  assume I: "sound_request E live X p s"
    and get: "mfs_pool_get_connection_ex E (rq_trackers s) i True t (rq_world s) = ((None, nw), q, w)"
  from pool_connections.session_none [OF I [THEN conjunct1] _ get] I assms(3)
  show "sound_request E live X p (s\<lparr>rq_trackers := q, rq_world := w\<rparr>)" by simp
next
  fix s :: "'a request_state" and e q w rv ok h w'
  assume I: "sound_request E live X p s"
    and get: "mfs_pool_get_connection_ex E (rq_trackers s) i True t (rq_world s) = ((Some e, False), q, w)"
    and req: "mfs_tracker_request E (e_connection e) action ps (rq_ok s) (rq_result s) t w = Some ((rv, ok, h), w')"
  have "live w' = live w" using tracker_request_live [of E live] req I by (simp add: sys_inv_def)
  from pool_connections.session_close [OF I [THEN conjunct1] _ get this] I assms(3)
  show "sound_request E live X p (s\<lparr>rq_rv := rv, rq_ok := ok, rq_result := h, rq_trackers := q,
      rq_world := mfs_pool_destroy_connection E e w'\<rparr>)" by simp
next
  fix s :: "'a request_state" and e q w rv ok h w'
  assume I: "sound_request E live X p s"
    and get: "mfs_pool_get_connection_ex E (rq_trackers s) i True t (rq_world s) = ((Some e, True), q, w)"
    and req: "mfs_tracker_request E (e_connection e) action ps (rq_ok s) (rq_result s) t w = Some ((rv, ok, h), w')"
  have "live w' = live w" using tracker_request_live [of E live] req I by (simp add: sys_inv_def)
  from pool_connections.session_close [OF I [THEN conjunct1] _ get this] I assms(3)
  show "sound_request E live X p (s\<lparr>rq_rv := rv, rq_ok := ok, rq_result := h, rq_trackers := q,
      rq_world := mfs_pool_destroy_connection E e w'\<rparr>)" by simp
next
  fix s :: "'a request_state" and e nw q w ok h w' q' w''
  assume I: "sound_request E live X p s"
    and get: "mfs_pool_get_connection_ex E (rq_trackers s) i True t (rq_world s) = ((Some e, nw), q, w)"
    and req: "mfs_tracker_request E (e_connection e) action ps (rq_ok s) (rq_result s) t w =
      Some ((APR_SUCCESS, ok, h), w')"
    and put: "mfs_pool_return_connection E q i e w' = (q', w'')"
  have "live w' = live w" using tracker_request_live [of E live] req I by (simp add: sys_inv_def)
  from pool_connections.session_put [OF I [THEN conjunct1] _ get this put] I assms(3)
  show "sound_request E live X p (s\<lparr>rq_rv := APR_SUCCESS, rq_finished := True, rq_ok := ok, rq_result := h,
      rq_trackers := q', rq_world := w''\<rparr>)" by simp
qed

text \<open>The loop as a visit of the rotation.\<close>

lemma request_loop_visit:
  assumes "sys_inv E live X p w H" and "mfs_pool_list_active_trackers E p w = (Some l, w1)"
  shows "request_loop E action ps t l s =
    visit (\<lambda>s. \<not> rq_finished s) (try_tracker E action ps t) (rotate (nat (tl_start_postion l)) (actives p)) s"
proof -
  have "rand_law E" "pool_ok p" "pl_max_tracker_count p \<le> 2 ^ 24" using assms(1) by (simp_all add: sys_inv_def)
  from list_active_ok [OF this assms(2)] show ?thesis
    by (simp add: request_loop_def tracker_loop_visit)
qed

lemma request_loop_sound:
  assumes "sys_inv E live X p w {#}" and "mfs_pool_list_active_trackers E p w = (Some l, w1)"
    and "request_loop E action ps t l s = Some s'" and "rq_trackers s = p" and "rq_world s = w1"
  shows "sound_request E live X p s'"
proof (rule visit_invariant [OF _ _ assms(3) [unfolded request_loop_visit [OF assms(1,2)]]])
  have "live w1 = live w"
    using list_active_live [OF _ assms(2)] assms(1) by (simp add: sys_inv_def)
  then show "sound_request E live X p s"
    using sys_inv_world [OF assms(1)] assms(4,5) by simp
next
  fix i s s'
  assume i: "i \<in> set (rotate (nat (tl_start_postion l)) (actives p))" and s: "sound_request E live X p s"
    and trial: "try_tracker E action ps t i s = Some s'"
  have "pool_ok p" using assms(1) by (simp add: sys_inv_def)
  then have "registered p i" using active_registered i by simp
  then show "sound_request E live X p s'" by (rule try_tracker_sound [OF trial s])
qed

lemma request_do_with_pool:
  "mfs_request_do E p action ps ok h (Some q) t w =
     (case mfs_pool_list_active_trackers E p w of
        (None, w) \<Rightarrow> Some ((APR_ECONNREFUSED, ok, h), p, w)
      | (Some l, w) \<Rightarrow>
          map_option (\<lambda>s. ((rq_rv s, rq_ok s, rq_result s), rq_trackers s, rq_world s))
            (request_loop E action ps t l \<lparr>rq_rv = APR_ECONNREFUSED, rq_finished = False, rq_ok = ok,
               rq_result = h, rq_trackers = p, rq_world = w\<rparr>))"
proof -
  obtain lo w1 where "mfs_pool_list_active_trackers E p w = (lo, w1)" by force
  then show ?thesis
    by (cases lo) (simp_all add: mfs_request_do_def map_option_case split: option.split)
qed

text \<open>What a request keeps, for its callers: from the list of active trackers on.\<close>

lemma request_from_list:
  assumes "sys_inv E live X p w {#}" and "mfs_pool_list_active_trackers E p w = (lo, w1)"
  shows "lo = None \<Longrightarrow> sys_inv E live X p w1 {#}"
    and "lo = Some l \<Longrightarrow> request_loop E action ps timeout l \<lparr>rq_rv = rv, rq_finished = False, rq_ok = ok,
        rq_result = h, rq_trackers = p, rq_world = w1\<rparr> = Some s \<Longrightarrow>
      sys_inv E live X (rq_trackers s) (rq_world s) {#}"
proof -
  have "live w1 = live w" using list_active_live [OF _ assms(2)] assms(1) by (simp add: sys_inv_def)
  with sys_inv_world [OF assms(1)] show "lo = None \<Longrightarrow> sys_inv E live X p w1 {#}" by simp
  show "lo = Some l \<Longrightarrow> request_loop E action ps timeout l \<lparr>rq_rv = rv, rq_finished = False, rq_ok = ok,
        rq_result = h, rq_trackers = p, rq_world = w1\<rparr> = Some s \<Longrightarrow>
      sys_inv E live X (rq_trackers s) (rq_world s) {#}"
    using request_loop_sound [OF assms(1), of l w1] assms(2) by simp
qed

lemma request_sys:
  assumes "sys_inv E live X p w {#}"
    and "mfs_request_do E p action ps ok h (Some q) timeout w = Some (r, p', w')"
  shows "sys_inv E live X p' w' {#}"
proof -
  obtain lo w1 where l: "mfs_pool_list_active_trackers E p w = (lo, w1)" by force
  note from_list = request_from_list [OF assms(1) l]
  show ?thesis
  proof (cases lo)
    case None
    then show ?thesis using from_list(1) assms(2) l by (simp add: request_do_with_pool)
  next
    case (Some l1)
    then show ?thesis using from_list(2) [OF Some] assms(2) l by (auto simp: request_do_with_pool)
  qed
qed

text \<open>
  With a NULL memory pool the function makes one. It is destroyed at the end, except where the
  list of active trackers is NULL.
\<close>

lemma request_own_pool:
  assumes "apr_pool_create E w = ((st, q), w0)" and "mfs_pool_list_active_trackers E p w0 = (lo, w1)"
  shows "mfs_request_do E p action ps ok h None timeout w =
    (if st \<noteq> APR_SUCCESS then Some ((st, ok, h), p, w0)
     else case lo of
        None \<Rightarrow> Some ((APR_ECONNREFUSED, ok, h), p, w1)
      | Some l \<Rightarrow>
          map_option (\<lambda>s. ((rq_rv s, rq_ok s, rq_result s), rq_trackers s, apr_pool_destroy E q (rq_world s)))
            (request_loop E action ps timeout l \<lparr>rq_rv = APR_SUCCESS, rq_finished = False, rq_ok = ok,
               rq_result = h, rq_trackers = p, rq_world = w1\<rparr>))"
  using assms by (cases lo) (simp_all add: mfs_request_do_def map_option_case split: option.split)

lemma request_sys_null:
  assumes "sys_inv E live X p w {#}"
    and "mfs_request_do E p action ps ok h None timeout w = Some (r, p', w')"
  shows "\<exists>X'. sys_inv E live X' p' w' {#} \<and> (X' = X \<or> r = (APR_ECONNREFUSED, ok, h) \<and> (\<exists>q. X' = insert q X))"
proof -
  obtain st q w0 where create: "apr_pool_create E w = ((st, q), w0)" by (metis prod.exhaust)
  obtain lo w1 where l: "mfs_pool_list_active_trackers E p w0 = (lo, w1)" by force
  note own = assms(2) [unfolded request_own_pool [OF create l]]
  show ?thesis
  proof (cases "st = APR_SUCCESS")
    case False
    have "live w0 = live w" using pool_create_live(2) [OF _ create False] assms(1) by (simp add: sys_inv_def)
    with sys_inv_world [OF assms(1)] own False show ?thesis by auto
  next
    case True
    note new = sys_inv_create [OF assms(1) create [unfolded True]]
    note from_list = request_from_list [OF new(1) l]
    show ?thesis
    proof (cases lo)
      case None
      with from_list(1) own True show ?thesis by auto
    next
      case (Some l1)
      then obtain s where s: "request_loop E action ps timeout l1 \<lparr>rq_rv = APR_SUCCESS, rq_finished = False, rq_ok = ok,
               rq_result = h, rq_trackers = p, rq_world = w1\<rparr> = Some s"
        "p' = rq_trackers s" "w' = apr_pool_destroy E q (rq_world s)"
        using own True by auto
      from sys_inv_destroy [OF from_list(2) [OF Some s(1)] new(2)] s(2,3) show ?thesis by blast
    qed
  qed
qed

text \<open>
  C1: A request, whatever the trackers do and whether or not the caller supplies a memory pool,
  neither leaks a connection nor closes one twice: with no connection held before, none is held
  after, every connection alive is idle in one stack, and the pool's arrays stay consistent.
  Closing a connection that is not alive is undefined (\<open>pool_law\<close> says nothing of it), so the
  invariant could not be shown of code that did. The memory pools that are no connections are the
  same as before, except that without a caller's pool one may be added, when the list of active
  trackers cannot be had (none is active, or the lock fails).
\<close>

theorem request_conserves_connections:
  assumes "sys_inv E live X p w {#}"
    and "mfs_request_do E p action ps ok h pool timeout w = Some (r, p', w')"
  shows "\<exists>X'. sys_inv E live X' p' w' {#}
    \<and> (X' = X \<or> pool = None \<and> r = (APR_ECONNREFUSED, ok, h) \<and> (\<exists>q. X' = insert q X))"
proof (cases pool)
  case None
  then show ?thesis using request_sys_null [OF assms(1)] assms(2) by blast
next
  case (Some q)
  then show ?thesis using request_sys [OF assms(1)] assms(2) by blast
qed

definition answering_network :: sim where
  "answering_network = sim0\<lparr>sim_replies := [(APR_SUCCESS, ''OK 17 path=x'' @ [CR, LF])]\<rparr>"

lemma sim_request:
  assumes "sim_replies w = [(APR_SUCCESS, ''OK 17 path=x'' @ [CR, LF])]"
  shows "\<exists>w'. mfs_tracker_request sim_apr c ''get_paths'' key_params ok h t w =
    Some ((APR_SUCCESS, True, h ++ reply_table [(''path'', ''x'')]), w')"
proof -
  let ?w = "w\<lparr>sim_sent := sim_sent w @ [''get_paths key=k'' @ [CR, LF]]\<rparr>"
  have enc: "reply_text [(''path'', ''x'')] = ''path=x''" by code_simp
  have recvs: "recvs sim_apr (tc_socket c) ?w [''OK 17 path=x'' @ [CR, LF]] (?w\<lparr>sim_replies := []\<rparr>)"
    using assms by (simp add: sim_apr_def sim_recv_def MFS_READ_BUFFER_SIZE_def)
  have "mfs_tracker_request sim_apr c ''get_paths'' key_params ok h t w =
      Some (mfs_tracker_parse_response sim_apr (''OK 17 path=x'' @ [NUL, LF]) (length ''OK 17 path=x'' + 2) ok h,
            ?w\<lparr>sim_replies := []\<rparr>)"
    by (rule tracker_request_line [OF sample_send recvs]) simp_all
  moreover have "mfs_tracker_parse_response sim_apr (''OK 17 path=x'' @ [NUL, LF]) (length ''OK 17 path=x'' + 2) ok h =
      (APR_SUCCESS, True, h ++ reply_table [(''path'', ''x'')])"
    using parse_ok_reply [OF sim_strtok_law, of "''17 ''" "[(''path'', ''x'')]" "length ''OK 17 path=x'' + 2" "[LF]" ok h]
    by (simp add: enc fid_char_def isdigit_def)
  ultimately show ?thesis by simp
qed

lemma sample_get:
  "\<exists>e w'. mfs_pool_get_connection_ex sim_apr sample_pool 2 True 5 answering_network = ((Some e, True), sample_pool, w')
     \<and> sim_replies w' = [(APR_SUCCESS, ''OK 17 path=x'' @ [CR, LF])]"
  by (simp add: mfs_pool_get_connection_ex_def pop_locked_def pop_entry_def sample_pool_def sim_apr_def
      sim_pool_create_def mfs_tracker_connect_def sim_fresh_def sim_connect_def answering_network_def
      sim0_def Let_def numeral_3_eq_3)

lemma sample_list:
  "mfs_pool_list_active_trackers sim_apr sample_pool answering_network =
     (Some \<lparr>tl_tracker_indexes = [2, 0], tl_tracker_count = 2, tl_current_position = -1,
        tl_start_postion = 0\<rparr>, answering_network)"
proof -
  have "start_position 0 2 = 0"
    by (simp add: start_position_def float32_def bit_count_eqs half_even_def Let_def)
  then show ?thesis
    by (simp add: mfs_pool_list_active_trackers_def list_trackers_def sample_pool_def sim_apr_def
        sim_rand_def) (simp add: answering_network_def sim0_def)
qed

lemma sample_request:
  "\<exists>p' w'. mfs_request_do sim_apr sample_pool ''get_paths'' key_params False Map.empty (Some 9) 5 answering_network =
     Some ((APR_SUCCESS, True, Map.empty ++ reply_table [(''path'', ''x'')]), p', w')"
proof -
  let ?s = "\<lparr>rq_rv = APR_ECONNREFUSED, rq_finished = False, rq_ok = False, rq_result = Map.empty,
      rq_trackers = sample_pool, rq_world = answering_network\<rparr>"
  obtain e w1 where get: "mfs_pool_get_connection_ex sim_apr sample_pool 2 True 5 answering_network =
      ((Some e, True), sample_pool, w1)"
    and reps: "sim_replies w1 = [(APR_SUCCESS, ''OK 17 path=x'' @ [CR, LF])]"
    using sample_get by blast
  obtain w2 where req: "mfs_tracker_request sim_apr (e_connection e) ''get_paths'' key_params False Map.empty 5 w1 =
      Some ((APR_SUCCESS, True, Map.empty ++ reply_table [(''path'', ''x'')]), w2)"
    using sim_request [OF reps, of "e_connection e" False Map.empty 5] by blast
  obtain p3 w3 where put: "mfs_pool_return_connection sim_apr sample_pool 2 e w2 = (p3, w3)" by force
  have first: "try_tracker sim_apr ''get_paths'' key_params 5 2 ?s = Some (?s\<lparr>rq_rv := APR_SUCCESS, rq_finished := True,
      rq_ok := True, rq_result := Map.empty ++ reply_table [(''path'', ''x'')], rq_trackers := p3, rq_world := w3\<rparr>)"
    by (subst try_tracker.simps) (simp add: get req put)
  have "sim_pools answering_network = []" by (simp add: answering_network_def sim0_def)
  note visit = request_loop_visit [OF sample_sys [OF this] sample_list]
  show ?thesis
    by (simp add: request_do_with_pool sample_list visit sample_pool_lists first visit_stopped)
qed

theorem request_conserves_connections_witness:
  "\<exists>r p' w'. mfs_request_do sim_apr sample_pool ''get_paths'' key_params False Map.empty (Some 9) 5 answering_network =
     Some (r, p', w') \<and> sys_inv sim_apr sim_live {} p' w' {#}"
proof -
  have "sim_pools answering_network = []" by (simp add: answering_network_def sim0_def)
  note sys = sample_sys [OF this]
  obtain p' w' where r: "mfs_request_do sim_apr sample_pool ''get_paths'' key_params False Map.empty (Some 9) 5
      answering_network = Some ((APR_SUCCESS, True, Map.empty ++ reply_table [(''path'', ''x'')]), p', w')"
    using sample_request by blast
  show ?thesis using request_conserves_connections [OF sys r] r by auto
qed

section \<open>What a success means\<close>

text \<open>A finished loop has in its variables what the request that ended it produced.\<close>

definition answer_of ::
  "'w apr \<Rightarrow> string \<Rightarrow> tracker_request_parameters \<Rightarrow> int \<Rightarrow> bool \<Rightarrow> apr_hash \<Rightarrow> bool" where
  "answer_of E action ps t ok h \<longleftrightarrow>
     (\<exists>c ok0 h0 w0 w1. mfs_tracker_request E c action ps ok0 h0 t w0 = Some ((APR_SUCCESS, ok, h), w1))"

lemma answer_ofI:
  "mfs_tracker_request E c action ps ok0 h0 t w0 = Some ((APR_SUCCESS, ok, h), w1) \<Longrightarrow> answer_of E action ps t ok h"
  unfolding answer_of_def by blast

definition answered ::
  "'w apr \<Rightarrow> string \<Rightarrow> tracker_request_parameters \<Rightarrow> int \<Rightarrow> 'w request_state \<Rightarrow> bool" where
  "answered E action ps t s \<longleftrightarrow>
     (if rq_rv s = APR_SUCCESS then
        rq_finished s \<and> answer_of E action ps t (rq_ok s) (rq_result s)
      else \<not> rq_finished s)"

lemma try_tracker_answered:
  assumes "try_tracker E action ps t i s = Some s'" and "answered E action ps t s" and "\<not> rq_finished s"
  shows "answered E action ps t s'"
  by (rule try_tracker_induct [OF assms(1), where I = "\<lambda>s. answered E action ps t s \<and> \<not> rq_finished s"])
     (use assms in \<open>auto simp: answered_def split: if_splits intro: answer_ofI\<close>)

lemma request_loop_answered:
  assumes "sys_inv E live X p w H" and "mfs_pool_list_active_trackers E p w = (Some l, w1)"
    and "request_loop E action ps t l s = Some s'" and "answered E action ps t s"
  shows "answered E action ps t s'"
proof (rule visit_invariant [where I = "answered E action ps t", OF _ assms(4)
      assms(3) [unfolded request_loop_visit [OF assms(1,2)]]])
  show "\<And>i s s'. answered E action ps t s \<Longrightarrow> \<not> rq_finished s \<Longrightarrow> try_tracker E action ps t i s = Some s' \<Longrightarrow>
      answered E action ps t s'"
    by (rule try_tracker_answered)
qed

text \<open>Where the answer of a request comes from, for its callers.\<close>

lemma request_answer:
  assumes "sys_inv E live X p w {#}"
    and "mfs_request_do E p action ps ok h (Some q) timeout w = Some ((APR_SUCCESS, ok', h'), p', w')"
  shows "\<exists>c ok0 h0 w0 w1. mfs_tracker_request E c action ps ok0 h0 timeout w0 = Some ((APR_SUCCESS, ok', h'), w1)"
proof -
  obtain lo w1 where l: "mfs_pool_list_active_trackers E p w = (lo, w1)" by force
  then obtain l1 where lo: "lo = Some l1" using assms(2) by (cases lo) (auto simp: request_do_with_pool)
  let ?s = "\<lparr>rq_rv = APR_ECONNREFUSED, rq_finished = False, rq_ok = ok,
      rq_result = h, rq_trackers = p, rq_world = w1\<rparr>"
  obtain s' where s': "request_loop E action ps timeout l1 ?s = Some s'"
    "rq_rv s' = APR_SUCCESS" "rq_ok s' = ok'" "rq_result s' = h'"
    using assms(2) l lo by (auto simp: request_do_with_pool)
  have "answered E action ps timeout ?s" by (simp add: answered_def)
  from request_loop_answered [OF assms(1) l [unfolded lo] s'(1) this] s'(2-4)
  show ?thesis by (auto simp: answered_def answer_of_def)
qed

text \<open>
  C5: With a memory pool supplied by the caller, success is reported only if some tracker
  answered a complete, well-formed reply to this very request, and \<open>ok\<close> and the result table
  are what that last exchange produced.
\<close>

theorem request_success_is_an_answer:
  assumes "sys_inv E live X p w {#}"
    and "mfs_request_do E p action ps ok h (Some q) timeout w = Some ((APR_SUCCESS, ok', h'), p', w')"
  shows "\<exists>c ok0 h0 w0 w1. mfs_tracker_request E c action ps ok0 h0 timeout w0 = Some ((APR_SUCCESS, ok', h'), w1)"
  using assms by (rule request_answer)

theorem request_success_is_an_answer_witness:
  "\<exists>h'. h' = Map.empty ++ reply_table [(''path'', ''x'')] \<and>
     (\<exists>c ok0 h0 w0 w1. mfs_tracker_request sim_apr c ''get_paths'' key_params ok0 h0 5 w0 =
        Some ((APR_SUCCESS, True, h'), w1))"
proof -
  have "sim_pools answering_network = []" by (simp add: answering_network_def sim0_def)
  note sys = sample_sys [OF this]
  obtain p' w' where "mfs_request_do sim_apr sample_pool ''get_paths'' key_params False Map.empty (Some 9) 5
      answering_network = Some ((APR_SUCCESS, True, Map.empty ++ reply_table [(''path'', ''x'')]), p', w')"
    using sample_request by blast
  from request_success_is_an_answer [OF sys this] show ?thesis by simp
qed

section \<open>Termination\<close>

lemma try_tracker_returns:
  assumes "\<And>c ok h w. mfs_tracker_request E c action ps ok h t w \<noteq> None"
  shows "\<exists>s'. try_tracker E action ps t i s = Some s'"
proof (induction "length (cp_stack (pl_connection_pools (rq_trackers s) ! i))" arbitrary: s rule: less_induct)
  case less
  obtain eo nw p w where get: "mfs_pool_get_connection_ex E (rq_trackers s) i True t (rq_world s) = ((eo, nw), p, w)"
    by (metis prod.exhaust)
  show ?case
  proof (cases eo)
    case None
    with get show ?thesis by (simp add: try_tracker.simps [of E action ps t i s])
  next
    case (Some e)
    obtain rv ok h w' where req: "mfs_tracker_request E (e_connection e) action ps (rq_ok s) (rq_result s) t w =
        Some ((rv, ok, h), w')"
      using assms [of "e_connection e" "rq_ok s" "rq_result s" w] by (auto simp: not_None_eq)
    let ?s = "s\<lparr>rq_rv := rv, rq_ok := ok, rq_result := h, rq_trackers := p,
        rq_world := mfs_pool_destroy_connection E e w'\<rparr>"
    have "\<exists>s'. try_tracker E action ps t i ?s = Some s'" if "\<not> nw"
      using less [of ?s] get_connection_cached_shorter [of E "rq_trackers s" i t "rq_world s" e p w] get Some that
      by simp
    then show ?thesis
      using get Some req
      by (cases nw) (auto simp: try_tracker.simps [of E action ps t i s] split: prod.splits)
  qed
qed

text \<open>A request returns, for its callers.\<close>

lemma request_loop_total:
  assumes "sys_inv E live X p w {#}" and "mfs_pool_list_active_trackers E p w = (Some l, w1)"
    and "\<And>c ok h w. mfs_tracker_request E c action ps ok h timeout w \<noteq> None"
  shows "\<exists>s'. request_loop E action ps timeout l s = Some s'"
proof -
  have "\<exists>s'. request_loop E action ps timeout l s = Some s' \<and> True"
    unfolding request_loop_visit [OF assms(1,2)]
    by (rule visit_total [where I = "\<lambda>_. True"]) (simp_all add: try_tracker_returns [OF assms(3)])
  then show ?thesis by simp
qed

lemma request_total:
  assumes "sys_inv E live X p w {#}"
    and "\<And>c ok h w. mfs_tracker_request E c action ps ok h timeout w \<noteq> None"
  shows "\<exists>r p' w'. mfs_request_do E p action ps ok h pool timeout w = Some (r, p', w')"
proof (cases pool)
  case None
  obtain st q w0 where create: "apr_pool_create E w = ((st, q), w0)" by (metis prod.exhaust)
  obtain lo w1 where l: "mfs_pool_list_active_trackers E p w0 = (lo, w1)" by force
  note own = request_own_pool [OF create l]
  show ?thesis
  proof (cases "st = APR_SUCCESS \<and> lo \<noteq> None")
    case False
    then show ?thesis unfolding None own by auto
  next
    case True
    then obtain l1 where l1: "lo = Some l1" and st: "st = APR_SUCCESS" by auto
    from request_loop_total [OF sys_inv_create(1) [OF assms(1) create [unfolded st]] l [unfolded l1] assms(2)]
    show ?thesis unfolding None own l1 st by auto
  qed
next
  case (Some q)
  obtain lo w1 where l: "mfs_pool_list_active_trackers E p w = (lo, w1)" by force
  show ?thesis
  proof (cases lo)
    case None
    with l Some show ?thesis by (simp add: request_do_with_pool)
  next
    case l1: (Some l1)
    from request_loop_total [OF assms(1) l [unfolded l1] assms(2)] l l1 Some
    show ?thesis by (auto simp: request_do_with_pool)
  qed
qed

text \<open>
  C9: If every single exchange with a tracker returns (the receive loop is the only one that
  depends on the peer), then the request returns, with a memory pool of the caller's or without:
  it goes once around the active trackers and on each of them through finitely many cached
  connections.
\<close>

theorem request_returns:
  assumes "sys_inv E live X p w {#}"
    and "\<And>c ok h w. mfs_tracker_request E c action ps ok h timeout w \<noteq> None"
  shows "\<exists>r p' w'. mfs_request_do E p action ps ok h pool timeout w = Some (r, p', w')"
  using assms by (rule request_total)

theorem request_returns_witness:
  "\<exists>r p' w'. mfs_request_do sim_apr sample_pool ''get_paths'' key_params False Map.empty (Some 9) 5 sim0 = Some (r, p', w')"
  by (rule request_returns [OF sample_sys sim_request_returns]) (simp add: sim0_def)

section \<open>No tracker can be reached\<close>

definition stacks_empty :: "tracker_pool \<Rightarrow> bool" where
  "stacks_empty p \<longleftrightarrow> (\<forall>cp \<in> set (pl_connection_pools p). cp_stack cp = [])"

text \<open>An environment where memory and locks work and every connect fails.\<close>

definition unreachable :: "'w apr \<Rightarrow> bool" where
  "unreachable E \<longleftrightarrow>
     (\<forall>w. fst (fst (apr_pool_create E w)) = APR_SUCCESS)
     \<and> (\<forall>s a w. fst (apr_socket_connect E s a w) \<noteq> APR_SUCCESS)
     \<and> (\<forall>l w. fst (apr_thread_mutex_lock E l w) = APR_SUCCESS)
     \<and> (\<forall>l w. fst (apr_thread_rwlock_wrlock E l w) = APR_SUCCESS)
     \<and> (\<forall>l w. fst (apr_thread_rwlock_rdlock E l w) = APR_SUCCESS)"

lemma unreachable_connect: "unreachable E \<Longrightarrow> \<exists>st w'. mfs_tracker_connect E tr q t w = (Inl st, w')"
proof -
  assume u: "unreachable E"
  obtain st s w1 where sock: "apr_socket_create E w = ((st, s), w1)" by (metis prod.exhaust)
  obtain st2 w2 where con: "apr_socket_connect E s (ti_sa tr) (apr_socket_timeout_set E s t w1) = (st2, w2)" by force
  have "st2 \<noteq> APR_SUCCESS" using u con unfolding unreachable_def by (metis fst_conv)
  with sock con show ?thesis by (simp add: mfs_tracker_connect_def)
qed

lemma pop_locked_empty:
  assumes "fst (apr_thread_mutex_lock E (cp_lock (pl_connection_pools p ! i)) w) = APR_SUCCESS"
    and "stacks_empty p"
  shows "\<exists>w'. pop_locked E p i w = ((True, None), p, w')"
proof -
  obtain w1 where lock: "apr_thread_mutex_lock E (cp_lock (pl_connection_pools p ! i)) w = (APR_SUCCESS, w1)"
    using assms(1) by (metis prod.collapse)
  have "pop_entry p i = (None, p)" using assms(2) by (simp add: pop_entry_def stacks_empty_def)
  with lock show ?thesis by (simp add: pop_locked_def split: prod.split)
qed

lemma drain_empty:
  assumes "unreachable E" and "stacks_empty p"
  shows "\<exists>w'. drain_connections E p i w = (p, w')"
proof -
  have "fst (apr_thread_mutex_lock E (cp_lock (pl_connection_pools p ! i)) w) = APR_SUCCESS"
    using assms(1) unfolding unreachable_def by blast
  from pop_locked_empty [OF this assms(2)] show ?thesis
    by (subst drain_connections.simps) auto
qed

lemma stacks_empty_deactivate: "stacks_empty p \<Longrightarrow> stacks_empty (deactivate_step b p i)"
  using deactivate_critical_conns [of b p i] by (simp add: stacks_empty_def deactivate_step_def)

lemma deactivate_unreachable:
  assumes "unreachable E" and "stacks_empty p"
  shows "\<exists>w'. mfs_pool_deactivate E p i w = (deactivate_step (c_mem_after E) p i, w')"
proof -
  let ?q = "deactivate_step (c_mem_after E) p i"
  obtain w1 where lock: "apr_thread_rwlock_wrlock E (pl_lock p) w = (APR_SUCCESS, w1)"
    using assms(1) unfolding unreachable_def by (metis prod.collapse)
  obtain removed where crit: "deactivate_critical (c_mem_after E) p i = (removed, ?q)"
    by (metis deactivate_step_def prod.collapse)
  obtain st w2 where un: "apr_thread_rwlock_unlock E (pl_lock p) w1 = (st, w2)" by force
  have lk: "pl_lock ?q = pl_lock p"
    by (simp add: deactivate_step_def deactivate_critical_def Let_def split: prod.split)
  have "deactivate_locked E p i w = (removed, ?q, w2)"
    by (simp add: deactivate_locked_def lock crit lk un)
  then show ?thesis
    using drain_empty [OF assms(1) stacks_empty_deactivate [OF assms(2)]]
    by (cases removed) (auto simp: mfs_pool_deactivate_def)
qed

lemma try_tracker_unreachable:
  assumes "unreachable E" and "stacks_empty (rq_trackers s)"
  shows "\<exists>w'. try_tracker E action ps t i s =
    Some (s\<lparr>rq_trackers := deactivate_step (c_mem_after E) (rq_trackers s) i, rq_world := w'\<rparr>)"
proof -
  let ?p = "rq_trackers s"
  have "fst (apr_thread_mutex_lock E (cp_lock (pl_connection_pools ?p ! i)) (rq_world s)) = APR_SUCCESS"
    using assms(1) unfolding unreachable_def by blast
  from pop_locked_empty [OF this assms(2)] obtain w1 where
    pop: "pop_locked E ?p i (rq_world s) = ((True, None), ?p, w1)" ..
  obtain q w2 where create: "apr_pool_create E w1 = ((APR_SUCCESS, q), w2)"
    using assms(1) unfolding unreachable_def by (metis prod.collapse)
  obtain st w3 where con: "mfs_tracker_connect E (pl_trackers ?p ! i) q t w2 = (Inl st, w3)"
    using unreachable_connect [OF assms(1)] by blast
  obtain w4 where deact: "mfs_pool_deactivate E ?p i (apr_pool_destroy E q w3) =
      (deactivate_step (c_mem_after E) ?p i, w4)"
    using deactivate_unreachable [OF assms] by blast
  have "mfs_pool_get_connection_ex E ?p i True t (rq_world s) =
      ((None, True), deactivate_step (c_mem_after E) ?p i, w4)"
    by (simp add: mfs_pool_get_connection_ex_def pop create con deact)
  then show ?thesis by (intro exI [of _ w4], subst try_tracker.simps) simp
qed

lemma visit_unreachable:
  assumes "unreachable E" and "stacks_empty (rq_trackers s)" and "pool_ok (rq_trackers s)" and "\<not> rq_finished s"
  shows "\<exists>p' w'. visit (\<lambda>s. \<not> rq_finished s) (try_tracker E action ps t) is s =
      Some (s\<lparr>rq_trackers := p', rq_world := w'\<rparr>)
    \<and> set (actives p') = set (actives (rq_trackers s)) - set is"
  using assms
proof (induction "is" arbitrary: s)
  case Nil
  show ?case by (rule exI [of _ "rq_trackers s"], rule exI [of _ "rq_world s"]) simp
next
  case (Cons i "is")
  let ?q = "deactivate_step (c_mem_after E) (rq_trackers s) i"
  obtain w1 where first: "try_tracker E action ps t i s = Some (s\<lparr>rq_trackers := ?q, rq_world := w1\<rparr>)"
    using try_tracker_unreachable [OF Cons.prems(1,2)] by blast
  note view = deactivate_step_view [OF Cons.prems(3), of "c_mem_after E" i]
  have d: "distinct (actives (rq_trackers s))" using Cons.prems(3) by (simp add: pool_ok_def)
  have acts: "set (actives ?q) = set (actives (rq_trackers s)) - {i}"
    by (simp add: view(2) set_remove1_eq [OF d])
  obtain p' w' where rest: "visit (\<lambda>s. \<not> rq_finished s) (try_tracker E action ps t) is
        (s\<lparr>rq_trackers := ?q, rq_world := w1\<rparr>) = Some (s\<lparr>rq_trackers := p', rq_world := w'\<rparr>)"
    "set (actives p') = set (actives ?q) - set is"
    using Cons.IH [OF Cons.prems(1), of "s\<lparr>rq_trackers := ?q, rq_world := w1\<rparr>"] Cons.prems
      stacks_empty_deactivate view(3) by auto
  show ?case
    using first rest Cons.prems(4) acts by auto
qed

text \<open>
  C17: When no active tracker can be reached and no connection is cached, a request in a memory pool
  of the caller's returns \<open>APR_ECONNREFUSED\<close>, leaves \<open>ok\<close> and the result alone, and has taken
  every tracker out of the active set, a sole tracker too (\<open>src/README\<close> says that a tracker is marked
  inactive only if there are others).
\<close>

theorem request_no_tracker_reachable:
  assumes "unreachable E" and "sys_inv E live X p w {#}" and "stacks_empty p"
  shows "\<exists>p' w'. mfs_request_do E p action ps ok h (Some q) timeout w = Some ((APR_ECONNREFUSED, ok, h), p', w')
    \<and> actives p' = []"
proof -
  have p: "pool_ok p" "rand_law E" "pl_max_tracker_count p \<le> 2 ^ 24" using assms(2) by (simp_all add: sys_inv_def)
  obtain lo w1 where l: "mfs_pool_list_active_trackers E p w = (lo, w1)" by force
  show ?thesis
  proof (cases lo)
    case None
    have "fst (apr_thread_rwlock_rdlock E (pl_lock p) w) = APR_SUCCESS" using assms(1) unfolding unreachable_def by blast
    then have "pl_active_tracker_count p = 0"
      using l None by (auto simp: mfs_pool_list_active_trackers_def list_trackers_def split: if_splits prod.splits)
    with l None show ?thesis by (auto simp: request_do_with_pool actives_def)
  next
    case (Some l1)
    let ?s = "\<lparr>rq_rv = APR_ECONNREFUSED, rq_finished = False, rq_ok = ok,
        rq_result = h, rq_trackers = p, rq_world = w1\<rparr>"
    note loop = request_loop_visit [OF assms(2) l [unfolded Some], of action ps timeout ?s]
    obtain p' w' where "request_loop E action ps timeout l1 ?s = Some (?s\<lparr>rq_trackers := p', rq_world := w'\<rparr>)"
      "set (actives p') = set (actives p) - set (rotate (nat (tl_start_postion l1)) (actives p))"
      using visit_unreachable [OF assms(1), of ?s] assms(3) p(1) unfolding loop by fastforce
    with l Some show ?thesis by (auto simp: request_do_with_pool)
  qed
qed

lemma list_active_some:
  assumes "fst (apr_thread_rwlock_rdlock E (pl_lock p) w) = APR_SUCCESS" and "pl_active_tracker_count p \<noteq> 0"
  shows "\<exists>l w'. mfs_pool_list_active_trackers E p w = (Some l, w')"
proof -
  obtain w1 where rd: "apr_thread_rwlock_rdlock E (pl_lock p) w = (APR_SUCCESS, w1)"
    using assms(1) by (metis prod.collapse)
  obtain st w2 where un: "apr_thread_rwlock_unlock E (pl_lock p) w1 = (st, w2)" by force
  obtain r w3 where rand: "c_rand E w2 = (r, w3)" by force
  show ?thesis
    using assms(2) by (simp add: mfs_pool_list_active_trackers_def list_trackers_def rd un rand)
qed

definition dead_apr :: "sim apr" where
  "dead_apr = sim_apr\<lparr>apr_socket_connect := \<lambda>s a w. (APR_ECONNREFUSED, w)\<rparr>"

lemma dead_unreachable: "unreachable dead_apr"
  by (simp add: unreachable_def dead_apr_def sim_apr_def sim_pool_create_def Let_def)

lemma dead_pool_law: "pool_law dead_apr sim_live"
  using sim_pool_law unfolding pool_law_def dead_apr_def by simp

lemma dead_sys: "sys_inv dead_apr sim_live {} sample_pool sim0 {#}"
  using sample_sys [of sim0] dead_pool_law
  by (simp add: sys_inv_def mutex_law_def rand_law_def dead_apr_def sim0_def)

lemma sample_stacks_empty: "stacks_empty sample_pool"
  by (simp add: stacks_empty_def sample_pool_def)

theorem request_no_tracker_reachable_witness:
  "\<exists>p' w'. mfs_request_do dead_apr sample_pool ''get_paths'' key_params True Map.empty (Some 9) 5 sim0 =
     Some ((APR_ECONNREFUSED, True, Map.empty), p', w') \<and> actives p' = []"
  by (rule request_no_tracker_reachable [OF dead_unreachable dead_sys sample_stacks_empty])

text \<open>
  C30: The same situation with a NULL memory pool: the status that creating the pool left in
  \<open>rv\<close> is returned, so the caller is told \<open>APR_SUCCESS\<close> although no tracker was asked,
  and reads an \<open>ok\<close> nobody has written.
\<close>

theorem request_null_pool_false_success:
  assumes "unreachable E" and "sys_inv E live X p w {#}" and "stacks_empty p" and "actives p \<noteq> []"
  shows "\<exists>p' w'. mfs_request_do E p action ps ok h None timeout w = Some ((APR_SUCCESS, ok, h), p', w')"
proof -
  have p: "pool_ok p" using assms(2) by (simp add: sys_inv_def)
  obtain q w0 where create: "apr_pool_create E w = ((APR_SUCCESS, q), w0)"
    using assms(1) unfolding unreachable_def by (metis prod.collapse)
  have c: "pl_active_tracker_count p \<noteq> 0" using assms(4) by (auto simp: actives_def)
  obtain st w1 where rd: "apr_thread_rwlock_rdlock E (pl_lock p) w0 = (st, w1)" by force
  have "st = APR_SUCCESS" using assms(1) rd unfolding unreachable_def by (metis fst_conv)
  with list_active_some [OF _ c] rd obtain l w2 where l: "mfs_pool_list_active_trackers E p w0 = (Some l, w2)"
    by (metis fst_conv)
  let ?s = "\<lparr>rq_rv = APR_SUCCESS, rq_finished = False, rq_ok = ok,
      rq_result = h, rq_trackers = p, rq_world = w2\<rparr>"
  have "rand_law E" "pl_max_tracker_count p \<le> 2 ^ 24" using assms(2) by (simp_all add: sys_inv_def)
  note ok = list_active_ok [OF this(1) p this(2) l]
  have loop: "request_loop E action ps timeout l ?s =
      visit (\<lambda>s. \<not> rq_finished s) (try_tracker E action ps timeout) (rotate (nat (tl_start_postion l)) (actives p)) ?s"
    using ok by (simp add: request_loop_def tracker_loop_visit)
  obtain p' w' where "request_loop E action ps timeout l ?s = Some (?s\<lparr>rq_trackers := p', rq_world := w'\<rparr>)"
    using visit_unreachable [OF assms(1), of ?s] assms(3) p unfolding loop by fastforce
  then show ?thesis by (simp add: mfs_request_do_def create l)
qed

theorem request_null_pool_false_success_witness:
  "\<exists>p' w'. mfs_request_do dead_apr sample_pool ''get_paths'' key_params True Map.empty None 5 sim0 =
     Some ((APR_SUCCESS, True, Map.empty), p', w')"
  by (rule request_null_pool_false_success [OF dead_unreachable dead_sys sample_stacks_empty])
     (simp add: sample_pool_lists)

text \<open>
  With a NULL memory pool and no active tracker the pool the function made for itself is
  never destroyed: it is one more live pool after the call than before.
\<close>

theorem request_null_pool_leak:
  assumes "pool_law E live" and "pl_active_tracker_count p = 0"
    and "apr_pool_create E w = ((APR_SUCCESS, q), w0)"
  shows "mfs_request_do E p action ps ok h None timeout w = Some ((APR_ECONNREFUSED, ok, h), p, w0)
    \<and> live w0 = insert q (live w) \<and> q \<notin> live w"
  using assms pool_create_live [OF assms(1,3)]
  by (simp add: mfs_request_do_def mfs_pool_list_active_trackers_def list_trackers_def)

theorem request_null_pool_leak_witness:
  "\<exists>w0. mfs_request_do sim_apr (sample_pool\<lparr>pl_active_tracker_count := 0\<rparr>) ''delete'' key_params True Map.empty None 5 sim0 =
     Some ((APR_ECONNREFUSED, True, Map.empty), sample_pool\<lparr>pl_active_tracker_count := 0\<rparr>, w0)
     \<and> sim_live w0 = insert 2 (sim_live sim0)"
proof -
  have "apr_pool_create sim_apr sim0 = ((APR_SUCCESS, 2), sim0\<lparr>sim_next := 3, sim_pools := [2]\<rparr>)"
    by (simp add: sim_apr_def sim_pool_create_def sim0_def)
  from request_null_pool_leak [OF sim_pool_law _ this, of "sample_pool\<lparr>pl_active_tracker_count := 0\<rparr>"
      "''delete''" key_params True Map.empty 5]
  show ?thesis by auto
qed

end
