(* ===== verification/Watch.thy ===== *)
theory Watch
  imports PoolConn "HOL-Library.Sublist"
begin

text \<open>
  Watching a tracker's log, \<open>src/src/watch.c\<close>: reading lines from the connection through a
  buffer, reconnecting after failures, and picking out the cache invalidations of other clients.
\<close>

section \<open>State\<close>

text \<open>
  \<open>wd_buf_pointer\<close> is the position \<open>buf_pointer\<close> has in \<open>read_buf\<close>. The pool the structure
  points to is passed beside it.
\<close>

record watch_data =
  wd_tracker_index :: nat
  wd_connection :: "tracker_connection_pool_entry option"
  wd_read_buf :: string
  wd_buf_pointer :: nat
  wd_cnt :: nat
  wd_client_id :: "string option"
  wd_client_id_length :: nat

definition READ_BUF_SIZE :: nat where "READ_BUF_SIZE = 5000"

definition stop_watching :: "bool \<Rightarrow> bool" where
  "stop_watching allow = False"

definition enable_watching :: "bool \<Rightarrow> bool" where
  "enable_watching allow = True"

definition init_watch :: "nat \<Rightarrow> string option \<Rightarrow> watch_data" where
  "init_watch tracker_index client_id =
     \<lparr>wd_tracker_index = tracker_index, wd_connection = None,
      wd_read_buf = replicate READ_BUF_SIZE NUL, wd_buf_pointer = 0, wd_cnt = 0,
      wd_client_id = client_id,
      wd_client_id_length = (case client_id of None \<Rightarrow> 0 | Some c \<Rightarrow> length c)\<rparr>"

section \<open>Reading a line\<close>

text \<open>
  Reading \<open>*buf_pointer\<close>. One position after the array is \<open>beyond\<close>, whatever the next member
  of the structure holds there.
\<close>

definition read_char :: "char \<Rightarrow> watch_data \<Rightarrow> char" where
  "read_char beyond watch =
     (if wd_buf_pointer watch < length (wd_read_buf watch)
      then wd_read_buf watch ! wd_buf_pointer watch else beyond)"

text \<open>\<open>while((watch->cnt > 0)&&(watch->buf_pointer[0] == NUL))\<close>\<close>

function skip_nuls :: "char \<Rightarrow> watch_data \<Rightarrow> watch_data" where
  "skip_nuls beyond watch =
     (if wd_cnt watch > 0 \<and> read_char beyond watch = NUL
      then skip_nuls beyond (watch\<lparr>wd_cnt := wd_cnt watch - 1, wd_buf_pointer := wd_buf_pointer watch + 1\<rparr>)
      else watch)"
  by pat_completeness auto
termination
  by (relation "measure (\<lambda>(b, watch). wd_cnt watch)") auto

declare skip_nuls.simps [simp del]

text \<open>The store of one character into the caller's block, and a block that starts with a text.\<close>

definition putc_at :: "nat \<Rightarrow> char \<Rightarrow> string \<Rightarrow> string" where
  "putc_at pos c m = take pos m @ [c] @ drop (pos + 1) m"

definition filled :: "string \<Rightarrow> string \<Rightarrow> bool" where
  "filled m s \<longleftrightarrow> take (length s) m = s"

lemma filled_putc:
  assumes "filled m s" and "length s + 1 \<le> length m" and "pos = length s"
  shows "filled (putc_at pos c m) (s @ [c])" and "length (putc_at pos c m) = length m"
  using assms by (auto simp: filled_def putc_at_def)

text \<open>The end of a line of \<open>stored\<close> bytes: terminate it, over the CR if there is one.\<close>

definition end_line :: "string \<Rightarrow> nat \<Rightarrow> string" where
  "end_line buf stored =
     (let buf = putc_at stored NUL buf
      in if stored > 1 \<and> buf ! (stored - 2) = CR then putc_at (stored - 2) NUL buf else buf)"

text \<open>Filling the buffer: what \<open>apr_socket_recv\<close> writes, and the count it returns.\<close>

definition refill :: "watch_data \<Rightarrow> string \<Rightarrow> watch_data" where
  "refill watch b =
     watch\<lparr>wd_read_buf := b @ drop (length b) (wd_read_buf watch), wd_cnt := length b\<rparr>"

text \<open>
  The part of the loop that gets a byte: try again after a timeout, stop with a status, or go on
  with the byte at \<open>buf_pointer\<close>. After a refill \<open>cnt\<close> is not decremented.
\<close>

datatype readline_step = Retry | Stop apr_status | Got char

definition take_char :: "char \<Rightarrow> watch_data \<Rightarrow> readline_step \<times> watch_data" where
  "take_char beyond watch =
     (Got (read_char beyond watch), watch\<lparr>wd_buf_pointer := wd_buf_pointer watch + 1\<rparr>)"

definition fetch_char ::
  "'w apr \<Rightarrow> char \<Rightarrow> handle \<Rightarrow> watch_data \<Rightarrow> 'w \<Rightarrow> (readline_step \<times> watch_data) \<times> 'w" where
  "fetch_char E beyond s watch w =
     (if wd_cnt watch = 0 then
        (case apr_socket_recv E s READ_BUF_SIZE w of
           ((rv, b), w) \<Rightarrow>
             let watch = refill watch b
             in if rv = APR_TIMEUP then ((Retry, watch), w)
                else if rv \<noteq> APR_SUCCESS \<and> b = [] then ((Stop rv, watch), w)
                else if b = [] then ((Stop APR_EOF, watch), w)
                else (take_char beyond (watch\<lparr>wd_buf_pointer := 0\<rparr>), w))
      else (take_char beyond (watch\<lparr>wd_cnt := wd_cnt watch - 1\<rparr>), w))"

text \<open>
  The loop of \<open>sock_readline\<close>. \<open>allow\<close> is \<open>allow_watching\<close>, which another thread may
  clear at any time, so it is read from the world; \<open>len\<close> is an unsigned 64-bit number.
  \<open>buf\<close> is the caller's block and \<open>stored\<close> the number of bytes stored in it. After a timeout
  the decrement of \<open>len\<close> is undone.
\<close>

partial_function (option) readline_loop ::
  "'w apr \<Rightarrow> ('w \<Rightarrow> bool) \<Rightarrow> char \<Rightarrow> handle \<Rightarrow> 64 word \<Rightarrow> string \<Rightarrow> nat \<Rightarrow> watch_data \<Rightarrow> 'w \<Rightarrow>
     ((apr_status \<times> string \<times> watch_data) \<times> 'w) option" where
  "readline_loop E allow beyond s len buf stored watch w =
     (if \<not> allow w \<or> len - 1 = 0 then Some ((APR_ENOMEM, buf, watch), w)
      else case fetch_char E beyond s watch w of
        ((Retry, watch), w) \<Rightarrow> readline_loop E allow beyond s (len - 1 + 1) buf stored watch w
      | ((Stop rv, watch), w) \<Rightarrow> Some ((rv, buf, watch), w)
      | ((Got c, watch), w) \<Rightarrow>
          let buf = putc_at stored c buf
          in if c = LF then Some ((APR_SUCCESS, end_line buf (stored + 1), skip_nuls beyond watch), w)
             else readline_loop E allow beyond s (len - 1) buf (stored + 1) watch w)"

definition sock_readline ::
  "'w apr \<Rightarrow> ('w \<Rightarrow> bool) \<Rightarrow> char \<Rightarrow> handle \<Rightarrow> 64 word \<Rightarrow> string \<Rightarrow> watch_data \<Rightarrow> 'w \<Rightarrow>
     ((apr_status \<times> string \<times> watch_data) \<times> 'w) option" where
  "sock_readline E allow beyond s len buf watch w = readline_loop E allow beyond s len buf 0 watch w"

section \<open>The next line of the log\<close>

definition apr_time_sec_1 :: int where "apr_time_sec_1 = 1000000"

definition WATCH_COMMAND :: string where "WATCH_COMMAND = ''!watch'' @ [CR, LF]"

text \<open>Connecting when there is no connection; a failed send is only logged.\<close>

definition watch_connect ::
  "'w apr \<Rightarrow> watch_data \<Rightarrow> tracker_pool \<Rightarrow> 'w \<Rightarrow> watch_data \<times> tracker_pool \<times> 'w" where
  "watch_connect E watch p w =
     (if wd_connection watch = None then
        (case mfs_pool_get_connection E p (wd_tracker_index watch) True (apr_time_sec_1 div 4) w of
           (None, p, w) \<Rightarrow> (watch, p, w)
         | (Some entry, p, w) \<Rightarrow>
             (case apr_socket_send E (tc_socket (e_connection entry)) WATCH_COMMAND w of
                (rv, w) \<Rightarrow> (watch\<lparr>wd_connection := Some entry\<rparr>, p, w)))
      else (watch, p, w))"

text \<open>
  The loop of \<open>get_next_watch_line\<close>. \<open>len\<close> is an \<open>int\<close> that becomes a \<open>size_t\<close> in the
  call of \<open>sock_readline\<close>.
\<close>

partial_function (option) watch_line_loop ::
  "'w apr \<Rightarrow> ('w \<Rightarrow> bool) \<Rightarrow> char \<Rightarrow> int \<Rightarrow> string \<Rightarrow> watch_data \<Rightarrow> tracker_pool \<Rightarrow> 'w \<Rightarrow>
     ((apr_status \<times> string \<times> watch_data) \<times> tracker_pool \<times> 'w) option" where
  "watch_line_loop E allow beyond len buf watch p w =
     (if \<not> allow w then Some ((APR_EGENERAL, buf, watch), p, w)
      else case watch_connect E watch p w of
        (watch, p, w) \<Rightarrow>
          (case wd_connection watch of
             None \<Rightarrow>
               watch_line_loop E allow beyond len buf watch p
                 (if allow w then apr_sleep E apr_time_sec_1 w else w)
           | Some entry \<Rightarrow>
               Option.bind (sock_readline E allow beyond (tc_socket (e_connection entry))
                              (word_of_int len) buf watch w)
                 (\<lambda>((rv, buf, watch), w).
                   if rv \<noteq> APR_SUCCESS then
                     let w = mfs_pool_destroy_connection E entry w;
                         watch = watch\<lparr>wd_connection := None\<rparr>
                     in watch_line_loop E allow beyond len buf watch p
                          (if allow w then apr_sleep E apr_time_sec_1 w else w)
                   else Some ((APR_SUCCESS, buf, watch), p, w))))"

definition get_next_watch_line ::
  "'w apr \<Rightarrow> ('w \<Rightarrow> bool) \<Rightarrow> char \<Rightarrow> int \<Rightarrow> string \<Rightarrow> watch_data \<Rightarrow> tracker_pool \<Rightarrow> 'w \<Rightarrow>
     ((apr_status \<times> string \<times> watch_data) \<times> tracker_pool \<times> 'w) option" where
  "get_next_watch_line E allow beyond len buf watch p w = watch_line_loop E allow beyond len buf watch p w"

section \<open>Cache invalidations\<close>

definition CACHE_MARK :: string where "CACHE_MARK = ''[cache]['' "

text \<open>\<open>strstr\<close>: the position of the first occurrence.\<close>

fun strstr :: "string \<Rightarrow> string \<Rightarrow> nat option" where
  "strstr [] pat = (if pat = [] then Some 0 else None)"
| "strstr (c # s) pat =
     (if take (length pat) (c # s) = pat then Some 0 else map_option Suc (strstr s pat))"

definition strcspn :: "string \<Rightarrow> string \<Rightarrow> nat" where
  "strcspn s reject = length (takeWhile (\<lambda>c. c \<notin> set reject) s)"

text \<open>
  What the loop does with a line: \<open>None\<close> to go on with the next one, or the buffer to return.
  \<open>c_start + pos + 2\<close> may lie beyond the terminator, so the text moved is the C string that the
  block holds there.
\<close>

definition cache_message :: "watch_data \<Rightarrow> string \<Rightarrow> string option" where
  "cache_message watch buf =
     (case strstr (c_str buf) CACHE_MARK of
        None \<Rightarrow> None
      | Some k \<Rightarrow>
          let c_start = k + 8;
              pos = strcspn (c_str (drop c_start buf)) ''] '';
              own = (case wd_client_id watch of
                       None \<Rightarrow> False
                     | Some c \<Rightarrow> pos = wd_client_id_length watch \<and> take pos c = take pos (drop c_start buf))
          in if own then None
             else let text = c_str (drop (c_start + pos + 2) buf)
                  in Some (text @ NUL # drop (length text + 1) buf))"

partial_function (option) get_next_watch_cache_line ::
  "'w apr \<Rightarrow> ('w \<Rightarrow> bool) \<Rightarrow> char \<Rightarrow> int \<Rightarrow> string \<Rightarrow> watch_data \<Rightarrow> tracker_pool \<Rightarrow> 'w \<Rightarrow>
     ((apr_status \<times> string \<times> watch_data) \<times> tracker_pool \<times> 'w) option" where
  "get_next_watch_cache_line E allow beyond len buf watch p w =
     (if \<not> allow w then Some ((APR_EGENERAL, buf, watch), p, w)
      else Option.bind (get_next_watch_line E allow beyond len buf watch p w)
        (\<lambda>((rv, buf, watch), p, w).
          if rv = APR_SUCCESS then
            (case cache_message watch buf of
               Some buf \<Rightarrow> Some ((APR_SUCCESS, buf, watch), p, w)
             | None \<Rightarrow> get_next_watch_cache_line E allow beyond len buf watch p w)
          else Some ((rv, buf, watch), p, w)))"

section \<open>Reading from the buffer\<close>

lemma unat_minus_1: "0 < unat (len :: 64 word) \<Longrightarrow> unat (len - 1) = unat len - 1"
  by (metis unat_1 unat_sub word_le_nat_alt One_nat_def Suc_leI)

lemma readline_got:
  assumes "allow w" and "1 < unat len" and "fetch_char E beyond s watch w = ((Got c, watch1), w1)"
  shows "readline_loop E allow beyond s len buf k watch w =
    (if c = LF then Some ((APR_SUCCESS, end_line (putc_at k LF buf) (k + 1), skip_nuls beyond watch1), w1)
     else readline_loop E allow beyond s (len - 1) (putc_at k c buf) (k + 1) watch1 w1)"
proof -
  have "unat (len - 1) \<noteq> 0" using unat_minus_1 [of len] assms(2) by simp
  then have "len - 1 \<noteq> 0" by (metis unat_0)
  then show ?thesis using assms by (subst readline_loop.simps) (simp add: Let_def)
qed

lemma fetch_buffered:
  assumes "0 < wd_cnt watch" and "wd_buf_pointer watch < length (wd_read_buf watch)"
  shows "fetch_char E beyond s watch w =
    ((Got (wd_read_buf watch ! wd_buf_pointer watch),
      watch\<lparr>wd_cnt := wd_cnt watch - 1, wd_buf_pointer := wd_buf_pointer watch + 1\<rparr>), w)"
  using assms by (simp add: fetch_char_def take_char_def read_char_def)

lemma readline_step_buffered:
  assumes "allow w" and "1 < unat len" and "0 < wd_cnt watch"
    and "drop (wd_buf_pointer watch) (wd_read_buf watch) = c # rest"
  shows "readline_loop E allow beyond s len buf k watch w =
    (let watch1 = watch\<lparr>wd_cnt := wd_cnt watch - 1, wd_buf_pointer := wd_buf_pointer watch + 1\<rparr>
     in if c = LF then Some ((APR_SUCCESS, end_line (putc_at k LF buf) (k + 1), skip_nuls beyond watch1), w)
        else readline_loop E allow beyond s (len - 1) (putc_at k c buf) (k + 1) watch1 w)"
proof -
  have len: "wd_buf_pointer watch < length (wd_read_buf watch)"
    using assms(4) by (metis drop_all not_le list.distinct(1))
  have c: "wd_read_buf watch ! wd_buf_pointer watch = c"
    using Cons_nth_drop_Suc [OF len] assms(4) by simp
  show ?thesis
    using readline_got [of allow w len E beyond s watch c
        "watch\<lparr>wd_cnt := wd_cnt watch - 1, wd_buf_pointer := wd_buf_pointer watch + 1\<rparr>" w buf k]
      assms(1,2) fetch_buffered [OF assms(3) len, of E beyond s w] c by (simp add: Let_def)
qed

text \<open>A line that lies in the buffer is copied to the block, byte by byte.\<close>

lemma readline_buffered:
  assumes "allow w" and "LF \<notin> set line"
    and "drop (wd_buf_pointer watch) (wd_read_buf watch) = line @ LF # rest"
    and "length line + 1 \<le> wd_cnt watch" and "length line + 2 \<le> unat len"
    and "filled buf t" and "length t + length line + 2 \<le> length buf"
  shows "\<exists>buf1. filled buf1 (t @ line @ [LF]) \<and> length buf1 = length buf \<and>
    readline_loop E allow beyond s len buf (length t) watch w =
      Some ((APR_SUCCESS, end_line buf1 (length t + length line + 1), skip_nuls beyond
        (watch\<lparr>wd_cnt := wd_cnt watch - (length line + 1),
               wd_buf_pointer := wd_buf_pointer watch + (length line + 1)\<rparr>)), w)"
  using assms(2-)
proof (induction line arbitrary: watch len buf t)
  case Nil
  note put = filled_putc [OF Nil(5) _ refl, of LF]
  show ?case
    using readline_step_buffered [of allow w len watch LF rest E beyond s buf "length t"] assms(1) put Nil
    by (intro exI [of _ "putc_at (length t) LF buf"]) (simp add: Let_def)
next
  case (Cons c line)
  let ?watch = "watch\<lparr>wd_cnt := wd_cnt watch - 1, wd_buf_pointer := wd_buf_pointer watch + 1\<rparr>"
  let ?buf = "putc_at (length t) c buf"
  note put = filled_putc [OF Cons(6) _ refl, of c]
  have rest: "drop (wd_buf_pointer ?watch) (wd_read_buf ?watch) = line @ LF # rest"
    using arg_cong [OF Cons(3), of tl] by (simp add: drop_Suc tl_drop)
  have len: "length line + 2 \<le> unat (len - 1)"
    using Cons(5) unat_minus_1 [of len] by simp
  have neq: "c \<noteq> LF" using Cons(2) by auto
  have got: "readline_loop E allow beyond s len buf (length t) watch w =
      readline_loop E allow beyond s (len - 1) ?buf (length t + 1) ?watch w"
    using neq readline_step_buffered [of allow w len watch c "line @ LF # rest" E beyond s buf "length t"]
      assms(1) Cons(2-5) by (simp add: Let_def)
  have "\<exists>buf1. filled buf1 ((t @ [c]) @ line @ [LF]) \<and> length buf1 = length ?buf \<and>
    readline_loop E allow beyond s (len - 1) ?buf (length (t @ [c])) ?watch w =
      Some ((APR_SUCCESS, end_line buf1 (length (t @ [c]) + length line + 1), skip_nuls beyond
        (?watch\<lparr>wd_cnt := wd_cnt ?watch - (length line + 1),
               wd_buf_pointer := wd_buf_pointer ?watch + (length line + 1)\<rparr>)), w)"
    using Cons(2,4,7) put len by (intro Cons.IH rest) auto
  then obtain buf1 where "filled buf1 (t @ (c # line) @ [LF])" and "length buf1 = length buf"
    and "readline_loop E allow beyond s (len - 1) ?buf (length t + 1) ?watch w =
      Some ((APR_SUCCESS, end_line buf1 (length t + length line + 2), skip_nuls beyond
        (?watch\<lparr>wd_cnt := wd_cnt ?watch - (length line + 1),
               wd_buf_pointer := wd_buf_pointer ?watch + (length line + 1)\<rparr>)), w)"
    using put(2) Cons(7) by auto
  then show ?case by (intro exI [of _ buf1]) (simp add: got)
qed

text \<open>With an empty buffer the line is read from the bytes the socket gives, and \<open>cnt\<close> is one too many.\<close>

lemma readline_refilled:
  assumes "allow w" and "allow w1" and "LF \<notin> set line" and "wd_cnt watch = 0"
    and recv: "apr_socket_recv E s READ_BUF_SIZE w = ((rv, line @ LF # rest), w1)" and "rv \<noteq> APR_TIMEUP"
    and "length line + 2 \<le> unat len" and "filled buf t" and "length t + length line + 2 \<le> length buf"
  shows "\<exists>buf1. filled buf1 (t @ line @ [LF]) \<and> length buf1 = length buf \<and>
    readline_loop E allow beyond s len buf (length t) watch w =
      Some ((APR_SUCCESS, end_line buf1 (length t + length line + 1), skip_nuls beyond
        ((refill watch (line @ LF # rest))\<lparr>wd_cnt := length rest + 1, wd_buf_pointer := length line + 1\<rparr>)), w1)"
proof -
  let ?watch = "(refill watch (line @ LF # rest))\<lparr>wd_buf_pointer := 1\<rparr>"
  let ?c = "hd (line @ [LF])"
  have fetch: "fetch_char E beyond s watch w = ((Got ?c, ?watch), w1)"
    using assms(4,6) by (cases line)
      (simp_all add: fetch_char_def recv refill_def take_char_def read_char_def Let_def)
  have len: "1 < unat len" using assms(7) by simp
  note got = readline_got [where allow = allow and w = w, OF assms(1) len fetch, of buf "length t"]
  show ?thesis
  proof (cases line)
    case Nil
    then show ?thesis
      using got filled_putc [OF assms(8) _ refl, of LF] assms(9)
      by (intro exI [of _ "putc_at (length t) LF buf"]) (simp add: refill_def)
  next
    case (Cons c l)
    let ?buf = "putc_at (length t) c buf"
    note put = filled_putc [OF assms(8) _ refl, of c]
    have "\<exists>buf1. filled buf1 ((t @ [c]) @ l @ [LF]) \<and> length buf1 = length ?buf \<and>
      readline_loop E allow beyond s (len - 1) ?buf (length (t @ [c])) ?watch w1 =
        Some ((APR_SUCCESS, end_line buf1 (length (t @ [c]) + length l + 1), skip_nuls beyond
          (?watch\<lparr>wd_cnt := wd_cnt ?watch - (length l + 1),
                 wd_buf_pointer := wd_buf_pointer ?watch + (length l + 1)\<rparr>)), w1)"
      using assms put unat_minus_1 [of len] unfolding Cons
      by (intro readline_buffered [of allow w1 l _ "rest @ drop (Suc (Suc (length l + length rest))) (wd_read_buf watch)"])
        (auto simp: refill_def)
    then obtain buf1 where "filled buf1 (t @ line @ [LF])" and "length buf1 = length buf"
      and "readline_loop E allow beyond s (len - 1) ?buf (length t + 1) ?watch w1 =
        Some ((APR_SUCCESS, end_line buf1 (length t + length l + 2), skip_nuls beyond
          (?watch\<lparr>wd_cnt := wd_cnt ?watch - (length l + 1),
                 wd_buf_pointer := wd_buf_pointer ?watch + (length l + 1)\<rparr>)), w1)"
      using put(2) assms(9) Cons by auto
    moreover have "c \<noteq> LF" using assms(3) Cons by auto
    ultimately show ?thesis using got Cons by (intro exI [of _ buf1]) (simp add: refill_def)
  qed
qed

text \<open>The C string of a finished line: without CR LF, or with its LF when there was no CR.\<close>

definition line_text :: "string \<Rightarrow> string" where
  "line_text l = (if l \<noteq> [] \<and> last l = CR then butlast l else l @ [LF])"

lemma filled_iff: "filled m s \<longleftrightarrow> (\<exists>r. m = s @ r)"
  unfolding filled_def by (metis append_eq_conv_conj append_take_drop_id)

lemma putc_at_append: "putc_at (length s) c (s @ d # r) = s @ c # r"
  by (simp add: putc_at_def)

lemma end_line_text:
  assumes "filled buf (line @ [LF])" and "NUL \<notin> set line" and "length line + 2 \<le> length buf"
  shows "c_str (end_line buf (length line + 1)) = line_text line"
proof -
  obtain d r where buf: "buf = line @ LF # d # r"
  proof -
    obtain r where r: "buf = line @ LF # r" using assms(1) by (auto simp: filled_iff)
    then show ?thesis using assms(3) that by (cases r) auto
  qed
  have put: "putc_at (length line + 1) NUL buf = line @ LF # NUL # r"
    unfolding buf using putc_at_append [of "line @ [LF]" NUL d r] by simp
  show ?thesis
  proof (cases line rule: rev_cases)
    case Nil
    then show ?thesis using put by (simp add: end_line_def line_text_def c_str_def)
  next
    case (snoc l c)
    then have "putc_at (length l) NUL (line @ LF # NUL # r) = l @ NUL # LF # NUL # r"
      using putc_at_append [of l NUL c] by simp
    then show ?thesis
      using put snoc assms(2) c_str_append_NUL [of l "LF # NUL # r"] c_str_append_NUL [of "line @ [LF]" r]
      by (cases "c = CR") (simp_all add: end_line_def line_text_def nth_append Let_def)
  qed
qed

section \<open>The buffer as a stream\<close>

text \<open>
  The abstraction of the buffer: the bytes that were received and not yet read. A line is taken
  off a stream together with the NULs that follow it.
\<close>

definition pending :: "watch_data \<Rightarrow> string" where
  "pending watch = take (wd_cnt watch) (drop (wd_buf_pointer watch) (wd_read_buf watch))"

definition buffer_ok :: "watch_data \<Rightarrow> bool" where
  "buffer_ok watch \<longleftrightarrow> wd_buf_pointer watch + wd_cnt watch \<le> length (wd_read_buf watch)"

definition next_line :: "string \<Rightarrow> string \<times> string" where
  "next_line s = (takeWhile (\<lambda>c. c \<noteq> LF) s, dropWhile (\<lambda>c. c = NUL) (tl (dropWhile (\<lambda>c. c \<noteq> LF) s)))"

lemma pending_skip_nuls:
  "buffer_ok watch \<Longrightarrow>
   pending (skip_nuls beyond watch) = dropWhile (\<lambda>c. c = NUL) (pending watch) \<and> buffer_ok (skip_nuls beyond watch)"
proof (induction beyond watch rule: skip_nuls.induct)
  case (1 beyond watch)
  show ?case
  proof (cases "wd_cnt watch")
    case 0
    then show ?thesis using 1(2) by (simp add: skip_nuls.simps [of beyond watch] pending_def)
  next
    case (Suc n)
    then have len: "wd_buf_pointer watch < length (wd_read_buf watch)" using 1(2) by (simp add: buffer_ok_def)
    have pend: "pending watch = read_char beyond watch # take n (drop (Suc (wd_buf_pointer watch)) (wd_read_buf watch))"
      using Suc len by (simp add: pending_def read_char_def Cons_nth_drop_Suc [symmetric])
    show ?thesis
    proof (cases "read_char beyond watch = NUL")
      case True
      then show ?thesis
        using 1 Suc pend by (simp add: skip_nuls.simps [of beyond watch]) (simp add: pending_def buffer_ok_def)
    next
      case False
      then show ?thesis using 1(2) pend by (simp add: skip_nuls.simps [of beyond watch])
    qed
  qed
qed

lemma next_line_split: "LF \<notin> set line \<Longrightarrow> next_line (line @ LF # s) = (line, dropWhile (\<lambda>c. c = NUL) s)"
  by (induction line) (auto simp: next_line_def)

text \<open>
  What \<open>sock_readline\<close> takes a line from: the bytes the buffer counts as unread, or, if it counts
  none, the bytes of one reception. The second part is what the count takes for unread besides them:
  after a reception it is one too high, so the byte of an earlier reception that lies behind the new
  ones counts as well.
\<close>

definition line_source ::
  "'w apr \<Rightarrow> handle \<Rightarrow> watch_data \<Rightarrow> 'w \<Rightarrow> (apr_status \<times> string \<times> string) \<times> 'w" where
  "line_source E s watch w =
     (if wd_cnt watch > 0 then ((APR_SUCCESS, pending watch, []), w)
      else case apr_socket_recv E s READ_BUF_SIZE w of
        ((rv, b), w) \<Rightarrow> ((rv, b, take 1 (drop (length b) (wd_read_buf watch))), w))"

lemma readline_pending:
  assumes "allow w" and "buffer_ok watch" and "pending watch = line @ LF # r" and "LF \<notin> set line" and "NUL \<notin> set line"
    and "length line + 2 \<le> unat len" and "length line + 2 \<le> length buf"
  shows "\<exists>buf1 watch1. sock_readline E allow beyond s len buf watch w = Some ((APR_SUCCESS, buf1, watch1), w)
    \<and> c_str buf1 = line_text line \<and> pending watch1 = dropWhile (\<lambda>c. c = NUL) r \<and> buffer_ok watch1"
proof -
  note pend = assms(3,4)
  have len: "length line + 1 \<le> wd_cnt watch" using arg_cong [OF pend(1), of length] by (simp add: pending_def)
  have buffer: "drop (wd_buf_pointer watch) (wd_read_buf watch) =
      line @ LF # (r @ drop (wd_cnt watch) (drop (wd_buf_pointer watch) (wd_read_buf watch)))"
    using append_take_drop_id [of "wd_cnt watch" "drop (wd_buf_pointer watch) (wd_read_buf watch)"] pend(1)
    by (simp add: pending_def)
  let ?watch = "watch\<lparr>wd_cnt := wd_cnt watch - (length line + 1), wd_buf_pointer := wd_buf_pointer watch + (length line + 1)\<rparr>"
  obtain buf1 where buf1: "filled buf1 (line @ [LF])" "length buf1 = length buf"
    and run: "sock_readline E allow beyond s len buf watch w =
      Some ((APR_SUCCESS, end_line buf1 (length line + 1), skip_nuls beyond ?watch), w)"
    using readline_buffered [of allow w line watch _ len buf "[]" E beyond s, OF assms(1) pend(2) buffer len assms(6)] assms(7)
    by (auto simp: sock_readline_def filled_def)
  have "pending ?watch = drop (length line + 1) (pending watch)"
    by (simp add: pending_def drop_take add.commute)
  then have "pending ?watch = r" using pend(1) by simp
  moreover have "buffer_ok ?watch" using assms(2) len by (simp add: buffer_ok_def)
  ultimately show ?thesis
    using run pending_skip_nuls [of ?watch beyond] end_line_text [OF buf1(1) assms(5)] assms(7) buf1(2) by auto
qed

lemma readline_received:
  assumes "allow w" and "allow w1" and "wd_cnt watch = 0"
    and "apr_socket_recv E s READ_BUF_SIZE w = ((rv, line @ LF # r), w1)" and "rv \<noteq> APR_TIMEUP"
    and "length line + length r + 1 < length (wd_read_buf watch)"
    and "LF \<notin> set line" and "NUL \<notin> set line" and "length line + 2 \<le> unat len" and "length line + 2 \<le> length buf"
  shows "\<exists>buf1 watch1. sock_readline E allow beyond s len buf watch w = Some ((APR_SUCCESS, buf1, watch1), w1)
    \<and> c_str buf1 = line_text line
    \<and> pending watch1 = dropWhile (\<lambda>c. c = NUL) (r @ take 1 (drop (length line + length r + 1) (wd_read_buf watch)))
    \<and> buffer_ok watch1"
proof -
  let ?watch = "(refill watch (line @ LF # r))\<lparr>wd_cnt := length r + 1, wd_buf_pointer := length line + 1\<rparr>"
  obtain buf1 where buf1: "filled buf1 (line @ [LF])" "length buf1 = length buf"
    and run: "sock_readline E allow beyond s len buf watch w =
      Some ((APR_SUCCESS, end_line buf1 (length line + 1), skip_nuls beyond ?watch), w1)"
    using readline_refilled [OF assms(1,2,7,3-5,9), of buf "[]" beyond] assms(10)
    by (auto simp: sock_readline_def filled_def)
  have "pending ?watch = r @ take 1 (drop (length line + length r + 1) (wd_read_buf watch))"
    by (simp add: pending_def refill_def)
  moreover have "buffer_ok ?watch" using assms(6) by (simp add: buffer_ok_def refill_def)
  ultimately show ?thesis
    using run pending_skip_nuls [of ?watch beyond] end_line_text [OF buf1(1) assms(8)] assms(10) buf1(2) by auto
qed

text \<open> C19: reading a line refines taking it off a stream. The stream is what the buffer counts as
  unread or, if it counts nothing, the bytes of one reception with the one stale byte behind them that
  the count includes. If its first line was really received and fits the caller's block,
  \<open>sock_readline\<close> returns that line, receives no more than that, and what the buffer counts as unread
  afterwards is what the stream has left. \<close>

theorem readline_refines_next_line:
  assumes "allow w" and "allow w1" and "buffer_ok watch"
    and "line_source E s watch w = ((rv, received, stale), w1)" and "rv \<noteq> APR_TIMEUP"
    and "wd_cnt watch = 0 \<longrightarrow> length received < length (wd_read_buf watch)"
    and "LF \<in> set received" and "next_line (received @ stale) = (line, rest)" and "NUL \<notin> set line"
    and "length line + 2 \<le> unat len" and "length line + 2 \<le> length buf"
  shows "\<exists>buf1 watch1. sock_readline E allow beyond s len buf watch w = Some ((APR_SUCCESS, buf1, watch1), w1)
    \<and> c_str buf1 = line_text line \<and> pending watch1 = rest \<and> buffer_ok watch1"
proof -
  obtain r where split: "received = line @ LF # r" "LF \<notin> set line" and rest: "rest = dropWhile (\<lambda>c. c = NUL) (r @ stale)"
  proof -
    obtain l r where l: "received = l @ LF # r" "LF \<notin> set l" using split_list_first [OF assms(7)] by blast
    then have "next_line (received @ stale) = (l, dropWhile (\<lambda>c. c = NUL) (r @ stale))"
      using next_line_split [OF l(2), of "r @ stale"] by simp
    with assms(8) l that [of r] show ?thesis by simp
  qed
  show ?thesis
  proof (cases "wd_cnt watch > 0")
    case True
    then have "pending watch = line @ LF # r" "stale = []" "w1 = w"
      using assms(4) split(1) by (simp_all add: line_source_def)
    with readline_pending [where allow = allow and w = w, OF assms(1,3) _ split(2) assms(9-11)] rest show ?thesis by simp
  next
    case False
    then have recv: "apr_socket_recv E s READ_BUF_SIZE w = ((rv, line @ LF # r), w1)"
      and stale: "stale = take 1 (drop (length line + length r + 1) (wd_read_buf watch))"
      using assms(4) split(1) by (auto simp: line_source_def split: prod.splits)
    have "length line + length r + 1 < length (wd_read_buf watch)" using assms(6) False split(1) by simp
    from readline_received [where allow = allow and w = w, OF assms(1,2) _ recv assms(5) this split(2) assms(9-11)] False rest stale show ?thesis
      by simp
  qed
qed

definition sample_watch :: watch_data where
  "sample_watch = (init_watch 0 (Some ''me''))\<lparr>wd_read_buf := ''one'' @ [CR, LF, NUL] @ ''two'', wd_cnt := 9\<rparr>"

definition fresh_line :: sim where
  "fresh_line = sim0\<lparr>sim_replies := [(APR_SUCCESS, ''one'' @ [CR, LF, NUL] @ ''two'')]\<rparr>"

text \<open>The same two lines, once lying in the buffer and once received over ten older bytes.\<close>

lemma readline_refines_next_line_witness:
  "(\<exists>buf1 watch1. sock_readline sim_apr (\<lambda>_. True) NUL 0 100 (replicate 100 NUL) sample_watch sim0 =
      Some ((APR_SUCCESS, buf1, watch1), sim0)
    \<and> c_str buf1 = line_text (''one'' @ [CR]) \<and> pending watch1 = ''two'' \<and> buffer_ok watch1)
   \<and> (\<exists>buf1 watch1. sock_readline sim_apr (\<lambda>_. True) NUL 0 100 (replicate 100 NUL)
        ((init_watch 0 None)\<lparr>wd_read_buf := ''0123456789''\<rparr>) fresh_line = Some ((APR_SUCCESS, buf1, watch1), sim0)
    \<and> c_str buf1 = line_text (''one'' @ [CR]) \<and> pending watch1 = ''two9'' \<and> buffer_ok watch1)"
proof
  show "\<exists>buf1 watch1. sock_readline sim_apr (\<lambda>_. True) NUL 0 100 (replicate 100 NUL) sample_watch sim0 =
      Some ((APR_SUCCESS, buf1, watch1), sim0)
    \<and> c_str buf1 = line_text (''one'' @ [CR]) \<and> pending watch1 = ''two'' \<and> buffer_ok watch1"
    by (rule readline_refines_next_line [where rv = APR_SUCCESS and received = "''one'' @ [CR, LF, NUL] @ ''two''" and stale = "[]"])
      (simp_all add: sample_watch_def init_watch_def pending_def buffer_ok_def next_line_def line_source_def)
  show "\<exists>buf1 watch1. sock_readline sim_apr (\<lambda>_. True) NUL 0 100 (replicate 100 NUL)
        ((init_watch 0 None)\<lparr>wd_read_buf := ''0123456789''\<rparr>) fresh_line = Some ((APR_SUCCESS, buf1, watch1), sim0)
    \<and> c_str buf1 = line_text (''one'' @ [CR]) \<and> pending watch1 = ''two9'' \<and> buffer_ok watch1"
    by (rule readline_refines_next_line [where rv = APR_SUCCESS and received = "''one'' @ [CR, LF, NUL] @ ''two''" and stale = "''9''"])
      (simp_all add: fresh_line_def init_watch_def buffer_ok_def next_line_def line_source_def sim_apr_def sim_recv_def
        READ_BUF_SIZE_def sim0_def)
qed

text \<open>
  After a refill the count is one more than the bytes that are left, so the byte that lies in the
  buffer after them, from an earlier read, is taken for the beginning of the next line.
\<close>

lemma refill_stale:
  assumes "length b < length (wd_read_buf watch)"
  shows "drop (length b) (wd_read_buf (refill watch b)) =
    wd_read_buf watch ! length b # drop (length b + 1) (wd_read_buf watch)"
  using assms by (simp add: refill_def Cons_nth_drop_Suc)

lemma skip_nuls_none: "read_char beyond watch \<noteq> NUL \<Longrightarrow> skip_nuls beyond watch = watch"
  by (simp add: skip_nuls.simps [of beyond watch])

text \<open> C40: when one reception holds exactly one line, the stale byte \<open>c\<close> that follows it in the
  buffer, if it is no NUL, is put in front of the next line that is received. \<close>

theorem readline_phantom_byte:
  assumes "allow w \<and> allow w1 \<and> allow w2" and "wd_cnt watch = 0" and "length line + 2 < length (wd_read_buf watch)"
    and "c = wd_read_buf watch ! (length line + 2)" and "c \<noteq> NUL" and "c \<noteq> LF"
    and "LF \<notin> set line" and "NUL \<notin> set line" and "LF \<notin> set line2" and "NUL \<notin> set line2"
    and "apr_socket_recv E s READ_BUF_SIZE w = ((APR_SUCCESS, line @ [CR, LF]), w1)"
    and "apr_socket_recv E s READ_BUF_SIZE w1 = ((APR_SUCCESS, line2 @ [CR, LF]), w2)"
    and "length line + 4 \<le> unat len" and "length line2 + 5 \<le> unat len"
    and "length line + 4 \<le> length buf" and "length line2 + 5 \<le> length buf"
  shows "\<exists>buf1 watch1 buf2 watch2.
    sock_readline E allow beyond s len buf watch w = Some ((APR_SUCCESS, buf1, watch1), w1)
    \<and> c_str buf1 = line
    \<and> sock_readline E allow beyond s len buf1 watch1 w1 = Some ((APR_SUCCESS, buf2, watch2), w2)
    \<and> c_str buf2 = c # line2"
proof -
  have chars: "LF \<noteq> CR" "NUL \<noteq> CR" by (simp_all)
  let ?chunk = "line @ [CR, LF]"
  let ?watch = "(refill watch ?chunk)\<lparr>wd_cnt := 1, wd_buf_pointer := length ?chunk\<rparr>"
  obtain b where b: "filled b (line @ [CR, LF])" "length b = length buf"
    and run: "sock_readline E allow beyond s len buf watch w =
      Some ((APR_SUCCESS, end_line b (length line + 2), skip_nuls beyond ?watch), w1)"
    using readline_refilled [of allow w w1 "line @ [CR]" watch E s APR_SUCCESS "[]" len buf "[]" beyond]
      assms chars by (auto simp: sock_readline_def filled_def)
  have stale: "drop (length ?chunk) (wd_read_buf ?watch) = c # drop (length line + 3) (wd_read_buf watch)"
    using refill_stale [of ?chunk watch] assms(3,4) by (simp add: numeral_3_eq_3)
  have "read_char beyond ?watch = c"
    using assms(3,4) by (auto simp: read_char_def refill_def nth_append)
  then have skip: "skip_nuls beyond ?watch = ?watch" using assms(5) by (simp add: skip_nuls_none)
  have text1: "c_str (end_line b (length line + 2)) = line"
    using end_line_text [of b "line @ [CR]"] b assms(8,15) chars by (simp add: line_text_def)
  define buf1 where "buf1 = end_line b (length line + 2)"
  have len1: "length buf1 = length buf"
    using b(2) assms(15) by (simp add: buf1_def end_line_def putc_at_def Let_def)
  define watch1 where "watch1 = ?watch\<lparr>wd_cnt := 0, wd_buf_pointer := length ?chunk + 1\<rparr>"
  have first: "readline_loop E allow beyond s len buf1 0 ?watch w1 =
      readline_loop E allow beyond s (len - 1) (putc_at 0 c buf1) 1 watch1 w1"
    using readline_step_buffered [of allow w1 len ?watch c "drop (length line + 3) (wd_read_buf watch)" E beyond s buf1 0]
      assms(1,6,14) stale by (simp add: watch1_def)
  have f1: "filled (putc_at 0 c buf1) [c]" "length (putc_at 0 c buf1) = length buf"
    using filled_putc [of buf1 "[]" 0 c] len1 assms(15) by (simp_all add: filled_def)
  have room: "length (line2 @ [CR]) + 2 \<le> unat (len - 1)" using assms(14) unat_minus_1 [of len] by simp
  obtain b2 where b2: "filled b2 ((c # line2 @ [CR]) @ [LF])" "length b2 = length buf"
    and run2: "\<exists>watch2. readline_loop E allow beyond s (len - 1) (putc_at 0 c buf1) 1 watch1 w1 =
      Some ((APR_SUCCESS, end_line b2 (length (c # line2 @ [CR]) + 1), watch2), w2)"
    using readline_refilled [of allow w1 w2 "line2 @ [CR]" watch1 E s APR_SUCCESS "[]" "len - 1" "putc_at 0 c buf1" "[c]" beyond]
      assms(1,9,12,16) f1 chars room by (auto simp: watch1_def)
  have "c_str (end_line b2 (length (c # line2 @ [CR]) + 1)) = c # line2"
    using end_line_text [OF b2(1)] b2(2) assms(5,10,16) chars by (simp add: line_text_def)
  then show ?thesis
    using run run2 first text1 skip by (auto simp: sock_readline_def buf1_def)
qed

definition stale_watch :: watch_data where
  "stale_watch = (init_watch 0 None)\<lparr>wd_read_buf := ''0123456789'', wd_cnt := 0\<rparr>"

definition two_lines :: sim where
  "two_lines = sim0\<lparr>sim_replies := [(APR_SUCCESS, ''one'' @ [CR, LF]), (APR_SUCCESS, ''two'' @ [CR, LF])]\<rparr>"

lemma readline_phantom_byte_witness:
  "\<exists>buf1 watch1 buf2 watch2.
    sock_readline sim_apr (\<lambda>_. True) NUL 0 100 (replicate 100 NUL) stale_watch two_lines =
      Some ((APR_SUCCESS, buf1, watch1), two_lines\<lparr>sim_replies := [(APR_SUCCESS, ''two'' @ [CR, LF])]\<rparr>)
    \<and> c_str buf1 = ''one''
    \<and> sock_readline sim_apr (\<lambda>_. True) NUL 0 100 buf1 watch1 (two_lines\<lparr>sim_replies := [(APR_SUCCESS, ''two'' @ [CR, LF])]\<rparr>) =
      Some ((APR_SUCCESS, buf2, watch2), sim0)
    \<and> c_str buf2 = CHR ''5'' # ''two''"
  by (rule readline_phantom_byte)
     (simp_all add: stale_watch_def two_lines_def init_watch_def sim_apr_def sim_recv_def READ_BUF_SIZE_def sim0_def)

section \<open>Cache invalidations\<close>

text \<open>The first mark is the one after \<open>pre\<close>: none begins in \<open>pre\<close>, nor could one run into it.\<close>

lemma strstr_mark:
  "\<not> sublist CACHE_MARK (pre @ butlast CACHE_MARK) \<Longrightarrow> strstr (pre @ CACHE_MARK @ s) CACHE_MARK = Some (length pre)"
proof (induction pre)
  case Nil
  then show ?case by (simp add: CACHE_MARK_def)
next
  case (Cons c pre)
  have "\<not> sublist CACHE_MARK (pre @ butlast CACHE_MARK)"
    using Cons.prems sublist_Cons_right by fastforce
  note IH = Cons.IH [OF this]
  have "c # pre @ CACHE_MARK @ s = ((c # pre) @ butlast CACHE_MARK) @ CHR ''['' # s"
    and "length CACHE_MARK \<le> length ((c # pre) @ butlast CACHE_MARK)" by (simp_all add: CACHE_MARK_def)
  then have "take (length CACHE_MARK) (c # pre @ CACHE_MARK @ s) = take (length CACHE_MARK) ((c # pre) @ butlast CACHE_MARK)"
    by (simp only: take_append) simp
  also have "\<dots> \<noteq> CACHE_MARK"
    using Cons.prems sublist_take [of "length CACHE_MARK" "(c # pre) @ butlast CACHE_MARK"] by metis
  finally show ?case using IH by simp
qed

lemma strcspn_stop: "set s \<inter> set reject = {} \<Longrightarrow> d \<in> set reject \<Longrightarrow> strcspn (s @ d # t) reject = length s"
  by (auto simp: strcspn_def takeWhile_append)

text \<open> C39: of the cache invalidations, those sent under the watcher's own client id are skipped, and the
  message of any other is moved to the front of the block. Any text may precede the mark
  \<open>[cache][\<close> in the line, brackets included, as long as the mark itself does not occur earlier. \<close>

theorem cache_message_other_clients:
  assumes "\<not> sublist CACHE_MARK (pre @ butlast CACHE_MARK)" and "CHR '']'' \<notin> set who" and "CHR '' '' \<notin> set who"
    and "NUL \<notin> set pre \<union> set who \<union> set msg"
    and "wd_client_id_length watch = (case wd_client_id watch of None \<Rightarrow> 0 | Some c \<Rightarrow> length c)"
    and "buf = pre @ CACHE_MARK @ who @ ''] '' @ msg @ NUL # r"
  shows "cache_message watch buf =
    (if wd_client_id watch = Some who then None
     else Some (msg @ NUL # drop (length msg + 1) buf))"
proof -
  let ?line = "pre @ CACHE_MARK @ who @ ''] '' @ msg"
  have mark: "length CACHE_MARK = 8" "NUL \<notin> set CACHE_MARK" by (simp_all add: CACHE_MARK_def)
  have "c_str buf = ?line"
    using c_str_append_NUL [of ?line r] assms(4,6) mark(2) by simp
  then have find: "strstr (c_str buf) CACHE_MARK = Some (length pre)"
    using strstr_mark [OF assms(1), of "who @ ''] '' @ msg"] by simp
  have start: "drop (length pre + 8) buf = who @ ''] '' @ msg @ NUL # r" using assms(6) mark(1) by simp
  have pos: "strcspn (c_str (drop (length pre + 8) buf)) ''] '' = length who"
    using c_str_append_NUL [of "who @ ''] '' @ msg" r] assms(2-4) strcspn_stop [of who "''] ''" "CHR '']''" "'' '' @ msg"]
    unfolding start by auto
  have "drop (length pre + 8 + length who + 2) buf = msg @ NUL # r" using assms(6) mark(1) by simp
  then have message: "c_str (drop (length pre + 8 + length who + 2) buf) = msg"
    using c_str_append_NUL [of msg r] assms(4) by simp
  have own: "(case wd_client_id watch of None \<Rightarrow> False
      | Some c \<Rightarrow> length who = wd_client_id_length watch \<and> take (length who) c = take (length who) (drop (length pre + 8) buf))
      = (wd_client_id watch = Some who)"
  proof (cases "wd_client_id watch")
    case (Some c)
    have "(length who = length c \<and> take (length who) c = who) = (c = who)" by (metis order_refl take_all)
    then show ?thesis unfolding start using Some assms(5) by simp
  qed simp
  show ?thesis
    unfolding cache_message_def find option.case Let_def pos own message by simp
qed

lemma cache_message_other_clients_witness:
  "cache_message sample_watch (''[dsgdfg] '' @ CACHE_MARK @ ''abcd'' @ ''] '' @ ''http://abcd.com'' @ NUL # []) =
    (if wd_client_id sample_watch = Some ''abcd'' then None
     else Some (''http://abcd.com'' @ NUL # drop (length ''http://abcd.com'' + 1)
        (''[dsgdfg] '' @ CACHE_MARK @ ''abcd'' @ ''] '' @ ''http://abcd.com'' @ NUL # [])))"
proof -
  have first: "\<not> sublist CACHE_MARK (''[dsgdfg] '' @ butlast CACHE_MARK)"
    by (simp add: CACHE_MARK_def sublist_Cons_right)
  show ?thesis
    by (rule cache_message_other_clients [where pre = "''[dsgdfg] ''" and r = "[]", OF first])
      (simp_all add: sample_watch_def init_watch_def)
qed

section \<open>The connection of the watcher\<close>

lemma fetch_char_live:
  assumes "pool_law E live" and "fetch_char E beyond s watch w = (r, w')"
  shows "live w' = live w"
proof -
  obtain rv b w1 where recv: "apr_socket_recv E s READ_BUF_SIZE w = ((rv, b), w1)" by (metis prod.exhaust)
  have "w' = w \<or> w' = w1"
    using assms(2) by (auto simp: fetch_char_def recv Let_def split: if_splits)
  then show ?thesis using live_frames(6) [OF assms(1) recv] by auto
qed

lemma fetch_char_connection:
  "fetch_char E beyond s watch w = ((st, watch'), w') \<Longrightarrow>
   wd_connection watch' = wd_connection watch \<and> wd_tracker_index watch' = wd_tracker_index watch"
  by (auto simp: fetch_char_def take_char_def refill_def Let_def split: prod.splits if_splits)

lemma skip_nuls_connection:
  "wd_connection (skip_nuls beyond watch) = wd_connection watch
   \<and> wd_tracker_index (skip_nuls beyond watch) = wd_tracker_index watch"
proof (induction beyond watch rule: skip_nuls.induct)
  case (1 beyond watch)
  then show ?case by (subst (1 2) skip_nuls.simps) auto
qed

lemma skip_nuls_client: "wd_client_id (skip_nuls beyond watch) = wd_client_id watch"
proof (induction beyond watch rule: skip_nuls.induct)
  case (1 beyond watch)
  then show ?case by (subst skip_nuls.simps) auto
qed

text \<open>Reading keeps the connection and creates no memory pool.\<close>

lemma readline_frame:
  assumes "pool_law E live" and "sock_readline E allow beyond s len buf watch w = Some ((rv, buf', watch'), w')"
  shows "live w' = live w" and "wd_connection watch' = wd_connection watch"
    and "wd_tracker_index watch' = wd_tracker_index watch"
proof -
  have "(case y of ((rv, buf', watch'), w') \<Rightarrow> live w' = live w \<and> wd_connection watch' = wd_connection watch
      \<and> wd_tracker_index watch' = wd_tracker_index watch)"
    if "readline_loop E allow beyond s len buf k watch w = Some y" for y k
  proof (rule readline_loop.raw_induct [where P = "\<lambda>E' allow beyond s len buf k watch w y. E' = E \<longrightarrow>
      (case y of ((rv, buf', watch'), w') \<Rightarrow> live w' = live w \<and> wd_connection watch' = wd_connection watch
      \<and> wd_tracker_index watch' = wd_tracker_index watch)", THEN mp, OF _ that refl], goal_cases)
    case (1 f E' allow beyond s len buf k watch w y)
    show ?case
    proof
      assume E': "E' = E"
      obtain st watch1 w1 where fetch: "fetch_char E beyond s watch w = ((st, watch1), w1)" by (metis prod.exhaust)
      note frame = fetch_char_live [OF assms(1) fetch] fetch_char_connection [OF fetch]
      show "case y of ((rv, buf', watch'), w') \<Rightarrow> live w' = live w \<and> wd_connection watch' = wd_connection watch
          \<and> wd_tracker_index watch' = wd_tracker_index watch"
        using 1 frame fetch E' skip_nuls_connection [of beyond watch1]
        by (auto simp: Let_def split: if_splits readline_step.splits)
    qed
  qed
  from this [of 0 "((rv, buf', watch'), w')"] assms(2)
  show "live w' = live w" "wd_connection watch' = wd_connection watch"
    "wd_tracker_index watch' = wd_tracker_index watch" by (simp_all add: sock_readline_def)
qed

lemma watch_connect_sys:
  assumes "sys_inv E live X p w (held (wd_connection watch) + H)" and "registered p (wd_tracker_index watch)"
    and "watch_connect E watch p w = (watch', p', w')"
  shows "sys_inv E live X p' w' (held (wd_connection watch') + H) \<and> registered p' (wd_tracker_index watch')"
proof (cases "wd_connection watch")
  case (Some entry)
  then show ?thesis using assms by (auto simp: watch_connect_def)
next
  case None
  obtain eo is_new p1 w1 where get: "mfs_pool_get_connection_ex E p (wd_tracker_index watch) True (apr_time_sec_1 div 4) w
      = ((eo, is_new), p1, w1)" by (metis prod.exhaust)
  have laws: "sys_inv E live X p w H" "pool_law E live" using assms(1) None by (simp_all add: sys_inv_def)
  show ?thesis
  proof (cases eo)
    case None
    have "watch' = watch" "p' = p1" "w' = w1"
      using get None assms(3) \<open>wd_connection watch = None\<close>
      by (simp_all add: watch_connect_def mfs_pool_get_connection_def)
    then show ?thesis
      using pool_connections.session_none [OF laws(1) assms(2) get [unfolded None]] assms(2) \<open>wd_connection watch = None\<close>
      by simp
  next
    case (Some e)
    obtain st w2 where send: "apr_socket_send E (tc_socket (e_connection e)) WATCH_COMMAND w1 = (st, w2)" by force
    have "sys_inv E live X p1 w2 (held (Some e) + H) \<and> (\<forall>j. registered p1 j = registered p j)"
      by (rule pool_connections.session_open [OF laws(1) assms(2) get [unfolded Some] live_frames(5) [OF laws(2) send]])
    moreover have "watch' = watch\<lparr>wd_connection := Some e\<rparr>" "p' = p1" "w' = w2"
      using get send Some assms(3) \<open>wd_connection watch = None\<close>
      by (simp_all add: watch_connect_def mfs_pool_get_connection_def)
    ultimately show ?thesis using assms(2) by simp
  qed
qed

lemma sleep_sys:
  assumes "sync_law E live" and "sys_inv E live X p w H"
  shows "sys_inv E live X p (if allow w then apr_sleep E t w else w) H"
proof -
  have "live (apr_sleep E t w) = live w" using assms(1) by (simp add: sync_law_def)
  from sys_inv_world [OF assms(2) this] assms(2) show ?thesis by simp
qed

definition watch_sound ::
  "'w apr \<Rightarrow> ('w \<Rightarrow> handle set) \<Rightarrow> handle set \<Rightarrow> handle multiset \<Rightarrow> watch_data \<Rightarrow> tracker_pool \<Rightarrow> 'w \<Rightarrow> bool" where
  "watch_sound E live X H watch p w \<longleftrightarrow>
     sys_inv E live X p w (held (wd_connection watch) + H) \<and> registered p (wd_tracker_index watch)"

lemma watch_line_sound:
  assumes "sync_law E live" and "watch_sound E live X H watch p w"
    and "get_next_watch_line E allow beyond len buf watch p w = Some ((rv, buf', watch'), p', w')"
  shows "watch_sound E live X H watch' p' w'"
proof -
  have "(case y of ((rv, buf', watch'), p', w') \<Rightarrow> watch_sound E live X H watch' p' w')"
    if "watch_line_loop E allow beyond len buf watch p w = Some y" and "watch_sound E live X H watch p w" for y
  proof (rule watch_line_loop.raw_induct [where P = "\<lambda>E' allow beyond len buf watch p w y. E' = E \<longrightarrow>
      watch_sound E live X H watch p w \<longrightarrow>
      (case y of ((rv, buf', watch'), p', w') \<Rightarrow> watch_sound E live X H watch' p' w')", THEN mp, THEN mp, OF _ that(1) refl that(2)],
      goal_cases)
    case (1 f E' allow beyond len buf watch p w y)
    show ?case
    proof (intro impI)
      assume E': "E' = E" and sound: "watch_sound E live X H watch p w"
      obtain watch1 p1 w1 where con: "watch_connect E watch p w = (watch1, p1, w1)" by (metis prod.exhaust)
      have sound1: "watch_sound E live X H watch1 p1 w1"
        using watch_connect_sys [OF _ _ con, of live X H] sound by (simp add: watch_sound_def)
      show "case y of ((rv, buf', watch'), p', w') \<Rightarrow> watch_sound E live X H watch' p' w'"
      proof (cases "allow w")
        case False
        then show ?thesis using 1(2) sound by auto
      next
        case True
        show ?thesis
        proof (cases "wd_connection watch1")
          case None
          have "watch_sound E live X H watch1 p1 (if allow w1 then apr_sleep E apr_time_sec_1 w1 else w1)"
            using sound1 sleep_sys [OF assms(1)] by (simp add: watch_sound_def)
          moreover have "f E' allow beyond len buf watch1 p1 (if allow w1 then apr_sleep E apr_time_sec_1 w1 else w1) = Some y"
            using 1(2) [unfolded E'] True None con unfolding E' by simp
          ultimately show ?thesis using 1(1) E' by blast
        next
          case (Some entry)
          obtain rv buf2 watch2 w2 where rd: "sock_readline E allow beyond (tc_socket (e_connection entry))
              (word_of_int len) buf watch1 w1 = Some ((rv, buf2, watch2), w2)"
            using 1(2) True con E' Some by (auto simp: bind_eq_Some_conv)
          have law: "pool_law E live" using sound by (simp add: watch_sound_def sys_inv_def)
          note frame = readline_frame [OF law rd]
          have sound2: "watch_sound E live X H watch2 p1 w2"
            using sound1 frame sys_inv_world by (auto simp: watch_sound_def)
          let ?w = "mfs_pool_destroy_connection E entry w2"
          let ?watch = "watch2\<lparr>wd_connection := None\<rparr>"
          have "sys_inv E live X p1 ?w H"
            using sound2 Some frame(2) pool_connections.close_inv [of E live X p1 w2 entry H]
            by (simp add: watch_sound_def)
          then have "watch_sound E live X H ?watch p1 (if allow ?w then apr_sleep E apr_time_sec_1 ?w else ?w)"
            using sound2 sleep_sys [OF assms(1), of X p1 ?w H allow] by (simp add: watch_sound_def)
          moreover have "rv \<noteq> APR_SUCCESS \<Longrightarrow>
              f E' allow beyond len buf2 ?watch p1 (if allow ?w then apr_sleep E apr_time_sec_1 ?w else ?w) = Some y"
            "rv = APR_SUCCESS \<Longrightarrow> y = ((APR_SUCCESS, buf2, watch2), p1, w2)"
            using 1(2) [unfolded E'] True Some con rd unfolding E' by (simp_all add: Let_def)
          ultimately show ?thesis using 1(1) E' sound2 by blast
        qed
      qed
    qed
  qed
  from this [of "((rv, buf', watch'), p', w')"] assms(2,3) show ?thesis
    by (simp add: get_next_watch_line_def)
qed

text \<open> C20: the watcher neither leaks a connection nor closes one twice: whatever the network and
  the reconnections do, when \<open>get_next_watch_cache_line\<close> returns, every connection is idle in the
  pool or held, and the watcher holds exactly the one its structure names. Closing a connection that
  is not alive is undefined (\<open>pool_law\<close> says nothing of it), so the invariant could not be shown of
  code that did. \<close>

theorem watch_conserves_connections:
  assumes "sync_law E live" and "watch_sound E live X H watch p w"
    and "get_next_watch_cache_line E allow beyond len buf watch p w = Some ((rv, buf', watch'), p', w')"
  shows "watch_sound E live X H watch' p' w'"
proof -
  have "(case y of ((rv, buf', watch'), p', w') \<Rightarrow> watch_sound E live X H watch' p' w')"
    if "get_next_watch_cache_line E allow beyond len buf watch p w = Some y" and "watch_sound E live X H watch p w" for y
  proof (rule get_next_watch_cache_line.raw_induct [where P = "\<lambda>E' allow beyond len buf watch p w y. E' = E \<longrightarrow>
      watch_sound E live X H watch p w \<longrightarrow>
      (case y of ((rv, buf', watch'), p', w') \<Rightarrow> watch_sound E live X H watch' p' w')", THEN mp, THEN mp, OF _ that(1) refl that(2)],
      goal_cases)
    case (1 f E' allow beyond len buf watch p w y)
    show ?case
    proof (intro impI)
      assume E': "E' = E" and sound: "watch_sound E live X H watch p w"
      show "case y of ((rv, buf', watch'), p', w') \<Rightarrow> watch_sound E live X H watch' p' w'"
      proof (cases "allow w")
        case False
        then show ?thesis using 1(2) sound by auto
      next
        case True
        then obtain rv buf1 watch1 p1 w1 where line:
            "get_next_watch_line E allow beyond len buf watch p w = Some ((rv, buf1, watch1), p1, w1)"
          using 1(2) E' by (auto simp: bind_eq_Some_conv)
        note sound1 = watch_line_sound [OF assms(1) sound line]
        show ?thesis
          using 1 [unfolded E'] True line sound1 by (auto split: if_splits option.splits)
      qed
    qed
  qed
  from this [of "((rv, buf', watch'), p', w')"] assms(2,3) show ?thesis by simp
qed

text \<open>A run: the watcher connects, and the first line it reads is an invalidation.\<close>

definition log_line :: string where "log_line = ''[cache][other] /a'' @ [CR]"

definition watch_network :: sim where
  "watch_network = sim0\<lparr>sim_replies := [(APR_SUCCESS, log_line @ LF # [])]\<rparr>"

lemma sample_watch_connect:
  "\<exists>e w1. watch_connect sim_apr (init_watch 0 None) sample_pool watch_network =
      ((init_watch 0 None)\<lparr>wd_connection := Some e\<rparr>, sample_pool, w1)
    \<and> sim_replies w1 = [(APR_SUCCESS, log_line @ LF # [])]"
  by (simp add: watch_connect_def init_watch_def mfs_pool_get_connection_def mfs_pool_get_connection_ex_def
      pop_locked_def pop_entry_def sample_pool_def sim_apr_def sim_pool_create_def mfs_tracker_connect_def
      sim_fresh_def sim_connect_def watch_network_def sim0_def Let_def numeral_3_eq_3)

lemma sample_watch_run:
  "\<exists>buf1 watch1 p1 w1. get_next_watch_cache_line sim_apr (\<lambda>_. True) NUL 100 (replicate 100 NUL) (init_watch 0 None)
      sample_pool watch_network = Some ((APR_SUCCESS, buf1, watch1), p1, w1)"
proof -
  obtain e w1 where con: "watch_connect sim_apr (init_watch 0 None) sample_pool watch_network =
      ((init_watch 0 None)\<lparr>wd_connection := Some e\<rparr>, sample_pool, w1)"
    and replies: "sim_replies w1 = [(APR_SUCCESS, log_line @ LF # [])]"
    using sample_watch_connect by blast
  let ?watch = "(init_watch 0 None)\<lparr>wd_connection := Some e\<rparr>"
  have log: "LF \<notin> set log_line" "length log_line = 18" by (simp_all add: log_line_def)
  have recv: "apr_socket_recv sim_apr (tc_socket (e_connection e)) READ_BUF_SIZE w1 =
      ((APR_SUCCESS, log_line @ LF # []), w1\<lparr>sim_replies := []\<rparr>)"
    using replies log(2) by (simp add: sim_apr_def sim_recv_def READ_BUF_SIZE_def)
  obtain buf1 watch2 where buf1: "filled buf1 (log_line @ [LF])" "length buf1 = 100"
    and rd: "sock_readline sim_apr (\<lambda>_. True) NUL (tc_socket (e_connection e)) 100 (replicate 100 NUL) ?watch w1 =
      Some ((APR_SUCCESS, end_line buf1 (length log_line + 1), watch2), w1\<lparr>sim_replies := []\<rparr>)"
    and id: "wd_client_id watch2 = None"
    using readline_refilled [where allow = "\<lambda>_. True" and buf = "replicate 100 NUL" and t = "[]" and beyond = NUL
        and len = 100 and watch = ?watch, OF TrueI TrueI log(1) _ recv] log(2)
    by (auto simp: sock_readline_def filled_def init_watch_def skip_nuls_client refill_def)
  have text1: "c_str (end_line buf1 (length log_line + 1)) = ''[cache][other] /a''"
    using end_line_text [OF buf1(1)] buf1(2) log(2) by (simp add: log_line_def line_text_def)
  have find: "strstr (c_str (end_line buf1 (length log_line + 1))) CACHE_MARK = Some 0"
    unfolding text1 by (simp add: CACHE_MARK_def)
  have "\<exists>b. cache_message watch2 (end_line buf1 (length log_line + 1)) = Some b"
    unfolding cache_message_def find using id by (simp add: Let_def)
  then show ?thesis
    by (subst get_next_watch_cache_line.simps)
      (auto simp: get_next_watch_line_def watch_line_loop.simps [of _ _ _ _ _ "init_watch 0 None"] con rd)
qed

theorem watch_conserves_connections_witness:
  "\<exists>buf1 watch1 p1 w1. get_next_watch_cache_line sim_apr (\<lambda>_. True) NUL 100 (replicate 100 NUL) (init_watch 0 None)
      sample_pool watch_network = Some ((APR_SUCCESS, buf1, watch1), p1, w1)
    \<and> watch_sound sim_apr sim_live {} {#} watch1 p1 w1"
proof -
  have "sim_pools watch_network = []" by (simp add: watch_network_def sim0_def)
  then have sound: "watch_sound sim_apr sim_live {} {#} (init_watch 0 None) sample_pool watch_network"
    using sample_sys by (simp add: watch_sound_def init_watch_def registered_def sample_pool_def)
  obtain buf1 watch1 p1 w1 where r: "get_next_watch_cache_line sim_apr (\<lambda>_. True) NUL 100 (replicate 100 NUL)
      (init_watch 0 None) sample_pool watch_network = Some ((APR_SUCCESS, buf1, watch1), p1, w1)"
    using sample_watch_run by blast
  show ?thesis by (intro exI conjI, rule r, rule watch_conserves_connections [OF sim_sync_law sound r])
qed

end
