(* ===== verification/FileSystem.thy ===== *)
theory FileSystem
  imports Request PoolLife "HOL-Library.Signed_Division"
begin

text \<open>
  The file system handle of \<open>src/src/file.c\<close>: opening and closing it, and the table of file
  servers. \<open>E\<close> is the environment of the network code, \<open>F\<close> that of the file transfers.
  The result \<open>None\<close> of an operation says that it does not return: the process exits, a NULL
  pointer is read, or a tracker keeps sending without end.
\<close>

section \<open>State\<close>

definition DEFAULT_MAX_RETRIES :: int where "DEFAULT_MAX_RETRIES = 2"
definition DEFAULT_RETRY_WAIT :: int where "DEFAULT_RETRY_WAIT = 1000000"
definition DEFAULT_FILE_SERVER_TIMEOUT :: int where "DEFAULT_FILE_SERVER_TIMEOUT = 2000000"
definition DEFAULT_MAX_BUFFER_SIZE :: nat where "DEFAULT_MAX_BUFFER_SIZE = 100 * 1024"

record mfs_http_connection =
  hc_curl :: "handle option"

record mfs_file_server =
  fsv_connections :: handle
  fsv_url :: string

text \<open>\<open>fs_trackers\<close> is \<open>None\<close> for NULL, which it is after closing.\<close>

record mfs_file_system =
  fs_max_retries :: int
  fs_retry_timeout :: int
  fs_tracker_timeout :: int
  fs_file_server_timeout :: int
  fs_trackers :: "tracker_pool option"
  fs_pool :: handle
  fs_max_buffer_size :: nat
  fs_lock :: handle
  fs_file_servers :: "string \<rightharpoonup> mfs_file_server"
  fs_client_id :: "string option"

section \<open>Opening and closing\<close>

definition mfs_init_file_system ::
  "'w apr \<Rightarrow> 'w http \<Rightarrow> bool \<Rightarrow> tracker_pool \<Rightarrow> 'w \<Rightarrow> (apr_status \<times> mfs_file_system option) \<times> 'w" where
  "mfs_init_file_system E F allow trackers w =
     (case apr_pool_create E (curl_global_init F w) of ((rv, p), w) \<Rightarrow>
        if rv \<noteq> APR_SUCCESS then ((rv, None), w)
        else case apr_thread_rwlock_create E w of ((rv, lock), w) \<Rightarrow>
          if rv \<noteq> APR_SUCCESS then ((rv, None), w)
          else let fs = \<lparr>fs_max_retries = DEFAULT_MAX_RETRIES, fs_retry_timeout = DEFAULT_RETRY_WAIT,
                         fs_tracker_timeout = DEFAULT_TRACKER_TIMEOUT,
                         fs_file_server_timeout = DEFAULT_FILE_SERVER_TIMEOUT,
                         fs_trackers = Some trackers, fs_pool = p,
                         fs_max_buffer_size = DEFAULT_MAX_BUFFER_SIZE, fs_lock = lock,
                         fs_file_servers = Map.empty, fs_client_id = None\<rparr>;
                   (trackers, w) = mfs_pool_start_maintenance_thread E allow trackers w
               in ((APR_SUCCESS, Some (fs\<lparr>fs_trackers := Some trackers\<rparr>)), w))"

text \<open>Up to ten attempts to destroy one resource list, a millisecond apart.\<close>

fun destroy_reslist :: "'w apr \<Rightarrow> 'w http \<Rightarrow> nat \<Rightarrow> handle \<Rightarrow> 'w \<Rightarrow> 'w" where
  "destroy_reslist E F 0 r w = w"
| "destroy_reslist E F (Suc attempts) r w =
     (case apr_reslist_destroy F r w of (rv, w) \<Rightarrow>
        if rv \<noteq> APR_SUCCESS then destroy_reslist E F attempts r (apr_sleep E 1000 w) else w)"

text \<open>
  \<open>order\<close> is the order in which \<open>apr_hash_first\<close> and \<open>apr_hash_next\<close> meet the keys. The result
  is \<open>None\<close> where destroying the tracker pool dereferences NULL.
\<close>

definition close_file_servers ::
  "'w apr \<Rightarrow> 'w http \<Rightarrow> string list \<Rightarrow> (string \<rightharpoonup> mfs_file_server) \<Rightarrow> 'w \<Rightarrow> 'w" where
  "close_file_servers E F order servers w =
     fold (\<lambda>k w. case servers k of None \<Rightarrow> w | Some s \<Rightarrow> destroy_reslist E F 10 (fsv_connections s) w) order w"

definition mfs_close_file_system ::
  "'w apr \<Rightarrow> 'w http \<Rightarrow> string list \<Rightarrow> mfs_file_system \<Rightarrow> 'w \<Rightarrow> (mfs_file_system \<times> 'w) option" where
  "mfs_close_file_system E F order fs w =
     (let (fs, w) = (case fs_trackers fs of None \<Rightarrow> (fs, w)
            | Some p \<Rightarrow> (case mfs_pool_stop_maintenance_thread E p w of (p, w) \<Rightarrow> (fs\<lparr>fs_trackers := Some p\<rparr>, w)));
          w = close_file_servers E F order (fs_file_servers fs) w;
          w = apr_thread_rwlock_destroy E (fs_lock fs) w
      in do {
        (fs, w) \<leftarrow> (case fs_trackers fs of None \<Rightarrow> Some (fs, w)
            | Some p \<Rightarrow> (case mfs_destroy_pool E p w of None \<Rightarrow> None
                | Some w \<Rightarrow> Some (fs\<lparr>fs_trackers := None\<rparr>, w)));
        Some (fs, apr_pool_destroy E (fs_pool fs) w) })"

section \<open>File servers\<close>

definition mfs_file_server_conn_constructor ::
  "'w http \<Rightarrow> 'w \<Rightarrow> (apr_status \<times> mfs_http_connection option) \<times> 'w" where
  "mfs_file_server_conn_constructor F w =
     (case curl_easy_init F w of
        (Some curl, w) \<Rightarrow> ((APR_SUCCESS, Some \<lparr>hc_curl = Some curl\<rparr>), w)
      | (None, w) \<Rightarrow> ((APR_EGENERAL, None), w))"

definition mfs_file_server_conn_destructor ::
  "'w http \<Rightarrow> mfs_http_connection \<Rightarrow> 'w \<Rightarrow> apr_status \<times> 'w" where
  "mfs_file_server_conn_destructor F c w =
     (APR_SUCCESS, case hc_curl c of None \<Rightarrow> w | Some curl \<Rightarrow> curl_easy_cleanup F curl w)"

text \<open>
  \<open>mfs_get_file_server\<close>, in the steps between which other threads can run: a look-up under the
  read lock, and the insertion under the write lock, which looks again. A lock that cannot be
  taken ends the process. The URI's host is not NULL: the callers have checked it.
\<close>

definition lookup_file_server ::
  "'w apr \<Rightarrow> mfs_file_system \<Rightarrow> string \<Rightarrow> 'w \<Rightarrow> (mfs_file_server option \<times> 'w) option" where
  "lookup_file_server E fs hostinfo w =
     (case apr_thread_rwlock_rdlock E (fs_lock fs) w of (rv, w) \<Rightarrow>
        if rv \<noteq> APR_SUCCESS then None
        else case apr_thread_rwlock_unlock E (fs_lock fs) w of (rv, w) \<Rightarrow>
          Some (fs_file_servers fs hostinfo, w))"

definition add_file_server ::
  "'w apr \<Rightarrow> 'w http \<Rightarrow> mfs_file_system \<Rightarrow> string \<Rightarrow> 'w \<Rightarrow>
     ((apr_status \<times> mfs_file_server option) \<times> mfs_file_system \<times> 'w) option" where
  "add_file_server E F fs hostinfo w =
     (case apr_thread_rwlock_wrlock E (fs_lock fs) w of (rv, w) \<Rightarrow>
        if rv \<noteq> APR_SUCCESS then None
        else case fs_file_servers fs hostinfo of
          None \<Rightarrow>
            (case apr_reslist_create F w of ((rv, r), w) \<Rightarrow>
               if rv \<noteq> APR_SUCCESS then
                 (case apr_thread_rwlock_unlock E (fs_lock fs) w of (_, w) \<Rightarrow> Some ((rv, None), fs, w))
               else let s = \<lparr>fsv_connections = r, fsv_url = hostinfo\<rparr>;
                        fs = fs\<lparr>fs_file_servers := (fs_file_servers fs)(hostinfo \<mapsto> s)\<rparr>
                    in case apr_thread_rwlock_unlock E (fs_lock fs) w of (_, w) \<Rightarrow>
                         Some ((APR_SUCCESS, Some s), fs, w))
        | Some s \<Rightarrow>
            (case apr_thread_rwlock_unlock E (fs_lock fs) w of (_, w) \<Rightarrow>
               Some ((APR_SUCCESS, Some s), fs, w)))"

definition mfs_get_file_server ::
  "'w apr \<Rightarrow> 'w http \<Rightarrow> mfs_file_system \<Rightarrow> string \<Rightarrow> 'w \<Rightarrow>
     ((apr_status \<times> mfs_file_server option) \<times> mfs_file_system \<times> 'w) option" where
  "mfs_get_file_server E F fs hostinfo w =
     Option.bind (lookup_file_server E fs hostinfo w) (\<lambda>(s, w).
       case s of Some s \<Rightarrow> Some ((APR_SUCCESS, Some s), fs, w)
       | None \<Rightarrow> add_file_server E F fs hostinfo w)"

section \<open>One server for each host\<close>

text \<open>
  What threads do to the table between each other's steps: look something up, add a server, or
  anything else, which changes only the world.
\<close>

inductive table_step ::
  "'w apr \<Rightarrow> 'w http \<Rightarrow> mfs_file_system \<times> 'w \<Rightarrow> mfs_file_system \<times> 'w \<Rightarrow> bool"
  for E :: "'w apr" and F :: "'w http" where
  look: "lookup_file_server E fs h w = Some (r, w') \<Longrightarrow> table_step E F (fs, w) (fs, w')"
| add: "add_file_server E F fs h w = Some (r, fs', w') \<Longrightarrow> table_step E F (fs, w) (fs', w')"
| other: "table_step E F (fs, w) (fs, w')"

inductive_cases table_stepE: "table_step E F s s'"

definition table_ok :: "mfs_file_system \<Rightarrow> bool" where
  "table_ok fs \<longleftrightarrow> (\<forall>h s. fs_file_servers fs h = Some s \<longrightarrow> fsv_url s = h)"

lemma add_file_server_cases:
  assumes "add_file_server E F fs h w = Some ((st, so), fs', w')"
  shows "fs_file_servers fs h = None \<and> st \<noteq> APR_SUCCESS \<and> so = None \<and> fs' = fs
    \<or> (\<exists>s. st = APR_SUCCESS \<and> so = Some s \<and> fs_file_servers fs h = Some s \<and> fs' = fs)
    \<or> (\<exists>s. st = APR_SUCCESS \<and> so = Some s \<and> fs_file_servers fs h = None \<and> fsv_url s = h
          \<and> fs' = fs\<lparr>fs_file_servers := (fs_file_servers fs)(h \<mapsto> s)\<rparr>)"
  using assms
  by (auto simp: add_file_server_def Let_def split: prod.splits if_splits option.splits)

lemma table_step_mono:
  "table_step E F (fs, w) (fs', w') \<Longrightarrow> fs_file_servers fs \<subseteq>\<^sub>m fs_file_servers fs' \<and> (table_ok fs \<longrightarrow> table_ok fs')"
proof (erule table_stepE)
  fix h r fs1 fs2 w1 w2
  assume eqs: "(fs, w) = (fs1, w1)" "(fs', w') = (fs2, w2)" and add: "add_file_server E F fs1 h w1 = Some (r, fs2, w2)"
  obtain st so where "r = (st, so)" by force
  with add_file_server_cases [of E F fs1 h w1 st so fs2 w2] add eqs
  show ?thesis by (auto simp: map_le_def table_ok_def split: if_splits)
qed auto

lemma table_steps_mono:
  "(table_step E F)\<^sup>*\<^sup>* s s' \<Longrightarrow>
   fs_file_servers (fst s) \<subseteq>\<^sub>m fs_file_servers (fst s') \<and> (table_ok (fst s) \<longrightarrow> table_ok (fst s'))"
proof (induction rule: rtranclp_induct)
  case (step y z)
  with table_step_mono [of E F "fst y" "snd y" "fst z" "snd z"] show ?case
    using map_le_trans by auto
qed simp

lemma lookup_result: "lookup_file_server E fs h w = Some (r, w') \<Longrightarrow> r = fs_file_servers fs h"
  by (auto simp: lookup_file_server_def split: prod.splits if_splits)

lemma get_known_server:
  assumes "fs_file_servers fs h = Some s" and "mfs_get_file_server E F fs h w = Some (r, fs', w')"
  shows "r = (APR_SUCCESS, Some s) \<and> fs' = fs"
proof -
  obtain x w1 where look: "lookup_file_server E fs h w = Some (x, w1)"
    using assms(2) by (auto simp: mfs_get_file_server_def split: bind_splits)
  have x: "x = Some s" using lookup_result [OF look] assms(1) by simp
  show ?thesis using assms(2) unfolding mfs_get_file_server_def look x by simp
qed

lemma get_file_server_result:
  assumes "mfs_get_file_server E F fs h w = Some ((APR_SUCCESS, so), fs', w')"
  shows "\<exists>s. so = Some s \<and> fs_file_servers fs' h = Some s \<and> fs_file_servers fs \<subseteq>\<^sub>m fs_file_servers fs'
    \<and> (table_ok fs \<longrightarrow> table_ok fs')"
proof -
  obtain r w1 where look: "lookup_file_server E fs h w = Some (r, w1)"
    using assms by (auto simp: mfs_get_file_server_def split: bind_splits)
  note r = lookup_result [OF look]
  show ?thesis
  proof (cases r)
    case (Some s)
    with r have "fs_file_servers fs h = Some s" by simp
    from get_known_server [OF this assms] this show ?thesis by simp
  next
    case None
    then have add: "add_file_server E F fs h w1 = Some ((APR_SUCCESS, so), fs', w')"
      using assms look by (simp add: mfs_get_file_server_def)
    then have "table_step E F (fs, w1) (fs', w')" by (rule table_step.add)
    with table_step_mono add_file_server_cases [OF add] show ?thesis by fastforce
  qed
qed

text \<open> C24: A host has one file server: the one a thread got is the one every later call for the host
  gets, whatever other threads look up and add in between, its connections are never replaced,
  and its \<open>url\<close> is the host's. \<close>

theorem file_server_stable:
  assumes "table_ok fs" and "mfs_get_file_server E F fs h w = Some ((APR_SUCCESS, Some s), fs1, w1)"
    and "(table_step E F)\<^sup>*\<^sup>* (fs1, w1) (fs2, w2)"
    and "mfs_get_file_server E F fs2 h w2 = Some (r, fs3, w3)"
  shows "r = (APR_SUCCESS, Some s) \<and> fs3 = fs2 \<and> fsv_url s = h"
proof -
  note first = get_file_server_result [OF assms(2)]
  have "fs_file_servers fs2 h = Some s" and "table_ok fs2"
    using first table_steps_mono [OF assms(3)] assms(1) by (auto simp: map_le_def dom_def)
  with get_known_server [OF _ assms(4)] show ?thesis by (simp add: table_ok_def)
qed

definition sample_fs :: mfs_file_system where
  "sample_fs = \<lparr>fs_max_retries = 2, fs_retry_timeout = 1, fs_tracker_timeout = 5, fs_file_server_timeout = 5,
     fs_trackers = Some sample_pool, fs_pool = 50, fs_max_buffer_size = 10, fs_lock = 51,
     fs_file_servers = Map.empty, fs_client_id = None\<rparr>"

lemma file_server_stable_witness:
  "\<exists>s fs1 w1 r fs3 w3. mfs_get_file_server sim_apr sim_http sample_fs ''h'' sim0 = Some ((APR_SUCCESS, Some s), fs1, w1)
    \<and> mfs_get_file_server sim_apr sim_http fs1 ''h'' w1 = Some (r, fs3, w3)
    \<and> r = (APR_SUCCESS, Some s) \<and> fs3 = fs1 \<and> fsv_url s = ''h''"
proof -
  obtain s fs1 w1 where first: "mfs_get_file_server sim_apr sim_http sample_fs ''h'' sim0 = Some ((APR_SUCCESS, Some s), fs1, w1)"
    by (simp add: mfs_get_file_server_def lookup_file_server_def add_file_server_def sample_fs_def sim_apr_def sim_http_def
        sim_fresh_def Let_def)
  then have "fs_file_servers fs1 ''h'' = Some s" using get_file_server_result [OF first] by auto
  then have second: "mfs_get_file_server sim_apr sim_http fs1 ''h'' w1 = Some ((APR_SUCCESS, Some s), fs1, w1)"
    by (simp add: mfs_get_file_server_def lookup_file_server_def) (simp add: sim_apr_def)
  have "table_ok sample_fs" by (simp add: table_ok_def sample_fs_def)
  from file_server_stable [OF this first rtranclp.rtrancl_refl second] first second show ?thesis by blast
qed

section \<open>Opening twice over\<close>

text \<open>
  Registering the last tracker has started the maintenance thread already. Opening the file system
  starts another one and forgets the handle of the first, which closing therefore never joins.
\<close>

theorem init_forgets_maintenance_thread:
  assumes "pl_maintenance_thread p = Some t1"
    and "apr_pool_create E (curl_global_init F w) = ((APR_SUCCESS, q), w1)"
    and "apr_thread_rwlock_create E w1 = ((APR_SUCCESS, l), w2)"
    and "apr_thread_create E w2 = ((APR_SUCCESS, Some t2), w3)"
  shows "\<exists>fs p2. mfs_init_file_system E F True p w = ((APR_SUCCESS, Some fs), w3)
    \<and> fs_trackers fs = Some p2 \<and> pl_maintenance_thread p2 = Some t2"
  using assms by (simp add: mfs_init_file_system_def mfs_pool_start_maintenance_thread_def)

text \<open>When the lock cannot be created, the memory pool created before it stays behind.\<close>

theorem init_lock_failure_leak:
  assumes "pool_law E live" and "live (curl_global_init F w) = live w"
    and "apr_pool_create E (curl_global_init F w) = ((APR_SUCCESS, q), w1)"
    and "apr_thread_rwlock_create E w1 = ((st, l), w2)" and "st \<noteq> APR_SUCCESS" and "live w2 = live w1"
  shows "mfs_init_file_system E F allow p w = ((st, None), w2) \<and> live w2 = insert q (live w) \<and> q \<notin> live w"
  using assms pool_create_live(1) [OF assms(1,3)] by (simp add: mfs_init_file_system_def)

end
