(* ===== verification/FileCommands.thy ===== *)
theory FileCommands
  imports FileSystem
begin

text \<open>
  The tracker commands of \<open>src/src/file.c\<close>: each builds its parameters, sends them with
  \<open>mfs_request_do\<close> and reads the reply table. The memory pool the caller passes is not NULL.
\<close>

section \<open>Shared steps\<close>

text \<open>A request on the handle's trackers; \<open>ok\<close> and \<open>result\<close> are the caller's variables.\<close>

definition fs_ask ::
  "'w apr \<Rightarrow> mfs_file_system \<Rightarrow> string \<Rightarrow> tracker_request_parameters \<Rightarrow> bool \<Rightarrow> apr_hash \<Rightarrow> handle \<Rightarrow> 'w \<Rightarrow>
     ((apr_status \<times> bool \<times> apr_hash) \<times> mfs_file_system \<times> 'w) option" where
  "fs_ask E fs action params ok result pool w =
     (case fs_trackers fs of
        None \<Rightarrow> None
      | Some p \<Rightarrow>
          (case mfs_request_do E p action params ok result (Some pool) (fs_tracker_timeout fs) w of
             None \<Rightarrow> None
           | Some ((rv, ok, result), p, w) \<Rightarrow> Some ((rv, ok, result), fs\<lparr>fs_trackers := Some p\<rparr>, w)))"

text \<open>The commands start with an uninitialised \<open>ok\<close> and an empty table.\<close>

definition fs_request ::
  "'w apr \<Rightarrow> 'w http \<Rightarrow> mfs_file_system \<Rightarrow> string \<Rightarrow> tracker_request_parameters \<Rightarrow> handle \<Rightarrow> 'w \<Rightarrow>
     ((apr_status \<times> bool \<times> apr_hash) \<times> mfs_file_system \<times> 'w) option" where
  "fs_request E F fs action params pool w = fs_ask E fs action params (c_stack_bool F) Map.empty pool w"

text \<open>\<open>if(file_system->client_id != NULL)\<close>\<close>

definition add_client_id ::
  "mfs_file_system \<Rightarrow> tracker_request_parameters \<Rightarrow> tracker_request_parameters" where
  "add_client_id fs params =
     (case fs_client_id fs of None \<Rightarrow> params
      | Some c \<Rightarrow> mfs_tracker_add_parameter params ''client_id'' c)"

abbreviation add_param :: "string \<Rightarrow> string \<Rightarrow> tracker_request_parameters \<Rightarrow> tracker_request_parameters" where
  "add_param k v params \<equiv> mfs_tracker_add_parameter params k v"

definition tracker_status :: "apr_status \<Rightarrow> bool \<Rightarrow> apr_status" where
  "tracker_status rv ok = (if rv \<noteq> APR_SUCCESS then rv else if \<not> ok then APR_EGENERAL else rv)"

definition status_command ::
  "'w apr \<Rightarrow> 'w http \<Rightarrow> mfs_file_system \<Rightarrow> string \<Rightarrow> tracker_request_parameters \<Rightarrow> handle \<Rightarrow> 'w \<Rightarrow>
     (apr_status \<times> mfs_file_system \<times> 'w) option" where
  "status_command E F fs action params pool w =
     Option.bind (fs_request E F fs action params pool w)
       (\<lambda>((rv, ok, result), fs, w). Some (tracker_status rv ok, fs, w))"

section \<open>Commands that only return a status\<close>

definition mfs_delete ::
  "'w apr \<Rightarrow> 'w http \<Rightarrow> mfs_file_system \<Rightarrow> string \<Rightarrow> string \<Rightarrow> handle \<Rightarrow> 'w \<Rightarrow>
     (apr_status \<times> mfs_file_system \<times> 'w) option" where
  "mfs_delete E F fs domain key pool w =
     (let params = mfs_tracker_init_parameters;
          params = add_param ''domain'' domain params;
          params = add_param ''key'' key params;
          params = add_client_id fs params
      in status_command E F fs ''delete'' params pool w)"

definition mfs_sleep ::
  "'w apr \<Rightarrow> 'w http \<Rightarrow> mfs_file_system \<Rightarrow> int \<Rightarrow> handle \<Rightarrow> 'w \<Rightarrow> (apr_status \<times> mfs_file_system \<times> 'w) option" where
  "mfs_sleep E F fs duration pool w =
     status_command E F fs ''sleep''
       (add_param ''duration'' (show_int duration) mfs_tracker_init_parameters) pool w"

definition mfs_rename ::
  "'w apr \<Rightarrow> 'w http \<Rightarrow> mfs_file_system \<Rightarrow> string \<Rightarrow> string \<Rightarrow> string \<Rightarrow> handle \<Rightarrow> 'w \<Rightarrow>
     (apr_status \<times> mfs_file_system \<times> 'w) option" where
  "mfs_rename E F fs domain from_key to_key pool w =
     (let params = mfs_tracker_init_parameters;
          params = add_param ''domain'' domain params;
          params = add_param ''from_key'' from_key params;
          params = add_param ''to_key'' to_key params;
          params = add_client_id fs params
      in status_command E F fs ''rename'' params pool w)"

definition mfs_rename_filepath ::
  "'w apr \<Rightarrow> 'w http \<Rightarrow> mfs_file_system \<Rightarrow> string \<Rightarrow> string \<Rightarrow> string \<Rightarrow> handle \<Rightarrow> 'w \<Rightarrow>
     (apr_status \<times> mfs_file_system \<times> 'w) option" where
  "mfs_rename_filepath E F fs domain from_key to_key pool w =
     (let params = mfs_tracker_init_parameters;
          params = add_param ''domain'' domain params;
          params = add_param ''arg1'' from_key params;
          params = add_param ''arg2'' to_key params;
          params = add_param ''argcount'' ''2'' params;
          params = add_client_id fs params
      in status_command E F fs ''plugin_filepaths_rename'' params pool w)"

text \<open>\<open>apr_time_sec\<close> divides as C does, towards zero.\<close>

definition apr_time_sec :: "64 word \<Rightarrow> int" where
  "apr_time_sec t = sint t sdiv 1000000"

definition mfs_set_mtime ::
  "'w apr \<Rightarrow> 'w http \<Rightarrow> mfs_file_system \<Rightarrow> string \<Rightarrow> string \<Rightarrow> 64 word \<Rightarrow> handle \<Rightarrow> 'w \<Rightarrow>
     (apr_status \<times> mfs_file_system \<times> 'w) option" where
  "mfs_set_mtime E F fs domain key mtime pool w =
     (let params = mfs_tracker_init_parameters;
          params = add_param ''domain'' domain params;
          params = add_param ''arg1'' key params;
          params = add_param ''arg2'' (show_int (apr_time_sec mtime)) params;
          params = add_param ''argcount'' ''2'' params;
          params = add_client_id fs params
      in status_command E F fs ''plugin_filepaths_set_mtime'' params pool w)"

text \<open>Deleting a node looks at the error code, and checks that there is one.\<close>

definition mfs_delete_filepath_node ::
  "'w apr \<Rightarrow> 'w http \<Rightarrow> mfs_file_system \<Rightarrow> string \<Rightarrow> string \<Rightarrow> handle \<Rightarrow> 'w \<Rightarrow>
     (apr_status \<times> mfs_file_system \<times> 'w) option" where
  "mfs_delete_filepath_node E F fs domain key pool w =
     (let params = mfs_tracker_init_parameters;
          params = add_param ''domain'' domain params;
          params = add_param ''arg1'' key params;
          params = add_param ''argcount'' ''1'' params;
          params = add_client_id fs params
      in Option.bind (fs_request E F fs ''plugin_filepaths_delete_node'' params pool w)
           (\<lambda>((rv, ok, result), fs, w).
             Some (if rv \<noteq> APR_SUCCESS then rv
                   else if \<not> ok then
                     (if hash_get result MFS_TRACKER_ERROR_CODE = Some ''directory_not_empty''
                      then APR_ENOTEMPTY else APR_EGENERAL)
                   else rv, fs, w)))"

section \<open>Creating nodes\<close>

text \<open>
  The end of \<open>mfs_create_directory\<close> and \<open>mfs_create_link\<close>: the server id is read from the
  reply even after an error, and a reply without one leaves the caller's variable as it is.
  \<open>server_id\<close> is the variable's value, or \<open>None\<close> for a NULL pointer.
\<close>

definition created_node ::
  "'w apr \<Rightarrow> apr_status \<Rightarrow> bool \<Rightarrow> apr_hash \<Rightarrow> 64 word option \<Rightarrow> apr_status \<times> 64 word option" where
  "created_node E rv ok result server_id =
     (if rv \<noteq> APR_SUCCESS then (rv, server_id)
      else (if \<not> ok then APR_EGENERAL else rv,
            case server_id of None \<Rightarrow> None
            | Some old \<Rightarrow> (case hash_get result ''nid'' of None \<Rightarrow> Some old
                          | Some s_server_id \<Rightarrow> Some (apr_atoi64 E s_server_id))))"

definition mfs_create_directory ::
  "'w apr \<Rightarrow> 'w http \<Rightarrow> mfs_file_system \<Rightarrow> string \<Rightarrow> string \<Rightarrow> handle \<Rightarrow> 64 word option \<Rightarrow> 'w \<Rightarrow>
     ((apr_status \<times> 64 word option) \<times> mfs_file_system \<times> 'w) option" where
  "mfs_create_directory E F fs domain key pool server_id w =
     (let params = mfs_tracker_init_parameters;
          params = add_param ''domain'' domain params;
          params = add_param ''arg1'' key params;
          params = add_param ''arg2'' ''D'' params;
          params = add_param ''argcount'' ''2'' params;
          params = add_client_id fs params
      in Option.bind (fs_request E F fs ''plugin_filepaths_create_node'' params pool w)
           (\<lambda>((rv, ok, result), fs, w). Some (created_node E rv ok result server_id, fs, w)))"

definition mfs_create_link ::
  "'w apr \<Rightarrow> 'w http \<Rightarrow> mfs_file_system \<Rightarrow> string \<Rightarrow> string \<Rightarrow> string \<Rightarrow> handle \<Rightarrow> 64 word option \<Rightarrow> 'w \<Rightarrow>
     ((apr_status \<times> 64 word option) \<times> mfs_file_system \<times> 'w) option" where
  "mfs_create_link E F fs domain key link pool server_id w =
     (let params = mfs_tracker_init_parameters;
          params = add_param ''domain'' domain params;
          params = add_param ''arg1'' key params;
          params = add_param ''arg2'' ''L'' params;
          params = add_param ''arg3'' link params;
          params = add_param ''argcount'' ''3'' params;
          params = add_client_id fs params
      in Option.bind (fs_request E F fs ''plugin_filepaths_create_node'' params pool w)
           (\<lambda>((rv, ok, result), fs, w). Some (created_node E rv ok result server_id, fs, w)))"

section \<open>Paths of a file\<close>

definition MAX_ALLOWED_PATHS :: int where "MAX_ALLOWED_PATHS = 100"

text \<open>The loop over the entries, from 1; an entry that is missing is remembered.\<close>

definition path_entries :: "apr_hash \<Rightarrow> int \<Rightarrow> string option list" where
  "path_entries result pc = map (\<lambda>pos. hash_get result (''path'' @ show_nat pos)) [1..<nat pc + 1]"

text \<open>
  The reply of \<open>get_paths\<close>: the status and what is stored in \<open>*paths\<close> and
  \<open>*path_count\<close>, \<open>None\<close> where nothing is.
\<close>

definition paths_of_reply :: "apr_hash \<Rightarrow> apr_status \<times> string list option \<times> int option" where
  "paths_of_reply result =
     (case hash_get result ''paths'' of
        None \<Rightarrow> (APR_EGENERAL, None, None)
      | Some path_count_str \<Rightarrow>
          let pc = atoi path_count_str
          in if pc > 0 \<and> pc < MAX_ALLOWED_PATHS then
               let s_paths = path_entries result pc
               in if None \<in> set s_paths then (APR_EGENERAL, None, None)
                  else (APR_SUCCESS, Some (map the s_paths), Some pc)
             else if pc = 0 \<and> path_count_str = ''0'' then (APR_EGENERAL, None, Some 0)
             else (APR_EGENERAL, None, None))"

definition mfs_get_paths ::
  "'w apr \<Rightarrow> 'w http \<Rightarrow> mfs_file_system \<Rightarrow> string \<Rightarrow> string \<Rightarrow> bool \<Rightarrow> handle \<Rightarrow> 'w \<Rightarrow>
     ((apr_status \<times> string list option \<times> int option) \<times> mfs_file_system \<times> 'w) option" where
  "mfs_get_paths E F fs domain key noverify pool w =
     (let params = mfs_tracker_init_parameters;
          params = add_param ''domain'' domain params;
          params = add_param ''noverify'' (if noverify then ''1'' else ''0'') params;
          params = add_param ''key'' key params
      in Option.bind (fs_request E F fs ''get_paths'' params pool w)
           (\<lambda>((rv, ok, result), fs, w).
             if rv \<noteq> APR_SUCCESS then Some ((rv, None, None), fs, w)
             else if ok then Some (paths_of_reply result, fs, w)
             else (case hash_get result MFS_TRACKER_ERROR_CODE of
                     None \<Rightarrow> None
                   | Some code \<Rightarrow>
                       Some ((if code = ''unknown_key'' then APR_EBADPATH else APR_EGENERAL, None, None), fs, w))))"

section \<open>Entries of the file paths plugin\<close>

definition TYPE_FILE :: nat where "TYPE_FILE = 0"
definition TYPE_DIRECTORY :: nat where "TYPE_DIRECTORY = 1"
definition TYPE_SYMLINK :: nat where "TYPE_SYMLINK = 2"
definition MAX_ALLOWED_DIRECTORY_ENTRIES :: int where "MAX_ALLOWED_DIRECTORY_ENTRIES = 32000"

record mfs_filepath_entry =
  fe_name :: "string option"
  fe_type :: nat
  fe_mtime :: "64 word"
  fe_size :: "64 word"
  fe_server_id :: "64 word"
  fe_link :: "string option"

text \<open>An entry of the array \<open>apr_pcalloc\<close> returns.\<close>

definition zero_entry :: mfs_filepath_entry where
  "zero_entry = \<lparr>fe_name = None, fe_type = 0, fe_mtime = 0, fe_size = 0, fe_server_id = 0, fe_link = None\<rparr>"

definition apr_time_from_sec :: "64 word \<Rightarrow> 64 word" where
  "apr_time_from_sec s = s * 1000000"

text \<open>\<open>type[0]\<close>\<close>

definition first_char :: "string \<Rightarrow> char" where
  "first_char s = (case s of [] \<Rightarrow> NUL | c # _ \<Rightarrow> c)"

text \<open>
  The part that \<open>mfs_list_directory\<close> and \<open>mfs_path_info\<close> share, up to the names of the
  keys: what it stores before it fails stays in the entry.
\<close>

definition read_entry ::
  "'w apr \<Rightarrow> apr_hash \<Rightarrow> string \<Rightarrow> mfs_filepath_entry \<Rightarrow> apr_status \<times> mfs_filepath_entry" where
  "read_entry E result prefix entry =
     (let entry = entry\<lparr>fe_mtime := (case hash_get result (prefix @ ''mtime'') of
            None \<Rightarrow> 0 | Some mtime \<Rightarrow> apr_time_from_sec (apr_atoi64 E mtime))\<rparr>;
          entry = entry\<lparr>fe_server_id := (case hash_get result (prefix @ ''nid'') of
            None \<Rightarrow> -1 | Some nid \<Rightarrow> apr_atoi64 E nid)\<rparr>
      in case hash_get result (prefix @ ''type'') of
           None \<Rightarrow> (APR_EGENERAL, entry)
         | Some t \<Rightarrow>
             if first_char t = CHR ''D'' then (APR_SUCCESS, entry\<lparr>fe_type := TYPE_DIRECTORY\<rparr>)
             else if first_char t = CHR ''L'' then
               let link = hash_get result (prefix @ ''link'')
               in (if link = None then APR_EGENERAL else APR_SUCCESS,
                   entry\<lparr>fe_type := TYPE_SYMLINK, fe_link := link\<rparr>)
             else (APR_SUCCESS, entry\<lparr>fe_type := TYPE_FILE,
                     fe_size := (case hash_get result (prefix @ ''size'') of
                       None \<Rightarrow> 0 | Some sz \<Rightarrow> apr_atoi64 E sz)\<rparr>))"

fun list_entries :: "'w apr \<Rightarrow> apr_hash \<Rightarrow> nat list \<Rightarrow> mfs_filepath_entry list option" where
  "list_entries E result [] = Some []"
| "list_entries E result (pos # poss) =
     (let key = ''file'' @ show_nat pos
      in case hash_get result key of
           None \<Rightarrow> None
         | Some name \<Rightarrow>
             (case read_entry E result (key @ ''.'') (zero_entry\<lparr>fe_name := Some name\<rparr>) of (rv, entry) \<Rightarrow>
                if rv \<noteq> APR_SUCCESS then None
                else map_option (\<lambda>es. entry # es) (list_entries E result poss)))"

text \<open>
  The status, and what is stored in \<open>*filepath_entries\<close> and \<open>*child_count\<close>. An empty
  directory leaves \<open>*filepath_entries\<close> unset.
\<close>

definition entries_of_reply ::
  "'w apr \<Rightarrow> apr_hash \<Rightarrow> apr_status \<times> mfs_filepath_entry list option \<times> int option" where
  "entries_of_reply E result =
     (case hash_get result ''files'' of
        None \<Rightarrow> (APR_EGENERAL, None, None)
      | Some path_count_str \<Rightarrow>
          let pc = atoi path_count_str
          in if pc > 0 \<and> pc < MAX_ALLOWED_DIRECTORY_ENTRIES then
               (case list_entries E result [0..<nat pc] of
                  None \<Rightarrow> (APR_EGENERAL, None, None)
                | Some entries \<Rightarrow> (APR_SUCCESS, Some entries, Some pc))
             else if pc = 0 \<and> path_count_str = ''0'' then (APR_SUCCESS, None, Some 0)
             else (APR_EGENERAL, None, None))"

definition mfs_list_directory ::
  "'w apr \<Rightarrow> 'w http \<Rightarrow> mfs_file_system \<Rightarrow> string \<Rightarrow> string \<Rightarrow> handle \<Rightarrow> 'w \<Rightarrow>
     ((apr_status \<times> mfs_filepath_entry list option \<times> int option) \<times> mfs_file_system \<times> 'w) option" where
  "mfs_list_directory E F fs domain directory pool w =
     (let params = mfs_tracker_init_parameters;
          params = add_param ''domain'' domain params;
          params = add_param ''arg1'' directory params;
          params = add_param ''argcount'' ''1'' params
      in Option.bind (fs_request E F fs ''plugin_filepaths_list_directory'' params pool w)
           (\<lambda>((rv, ok, result), fs, w).
             if rv \<noteq> APR_SUCCESS then Some ((rv, None, None), fs, w)
             else if ok then Some (entries_of_reply E result, fs, w)
             else (case hash_get result MFS_TRACKER_ERROR_CODE of
                     None \<Rightarrow> None
                   | Some code \<Rightarrow>
                       Some ((if code = ''unknown_key'' then APR_EBADPATH else APR_EGENERAL, None, None), fs, w))))"

definition mfs_path_info ::
  "'w apr \<Rightarrow> 'w http \<Rightarrow> mfs_file_system \<Rightarrow> string \<Rightarrow> string \<Rightarrow> mfs_filepath_entry \<Rightarrow> handle \<Rightarrow> 'w \<Rightarrow>
     ((apr_status \<times> mfs_filepath_entry) \<times> mfs_file_system \<times> 'w) option" where
  "mfs_path_info E F fs domain path entry pool w =
     (let params = mfs_tracker_init_parameters;
          params = add_param ''domain'' domain params;
          params = add_param ''arg1'' path params;
          params = add_param ''argcount'' ''1'' params
      in Option.bind (fs_request E F fs ''plugin_filepaths_path_info'' params pool w)
           (\<lambda>((rv, ok, result), fs, w).
             if rv \<noteq> APR_SUCCESS then Some ((rv, entry), fs, w)
             else if ok then Some (read_entry E result [] (entry\<lparr>fe_name := None\<rparr>), fs, w)
             else (case hash_get result MFS_TRACKER_ERROR_CODE of
                     None \<Rightarrow> None
                   | Some code \<Rightarrow>
                       Some ((if code = ''path_not_found'' \<or> code = ''unknown_key'' then APR_EBADPATH
                              else APR_EGENERAL, entry), fs, w))))"

section \<open>Statistics\<close>

record mfs_filepath_stats =
  st_total_mb :: "64 word"
  st_used_mb :: "64 word"

record mfs_check_fs_result =
  cf_total :: "64 word"
  cf_fixed :: "64 word"

text \<open>A number of the reply, or a default when the key is missing.\<close>

definition reply_number :: "'w apr \<Rightarrow> apr_hash \<Rightarrow> string \<Rightarrow> 64 word \<Rightarrow> 64 word" where
  "reply_number E result key missing =
     (case hash_get result key of None \<Rightarrow> missing | Some tmp \<Rightarrow> apr_atoi64 E tmp)"

text \<open>Both functions fill the structure after an error reply too, from a table that has no numbers.\<close>

definition mfs_stats_filepath ::
  "'w apr \<Rightarrow> 'w http \<Rightarrow> mfs_file_system \<Rightarrow> string \<Rightarrow> mfs_filepath_stats \<Rightarrow> handle \<Rightarrow> 'w \<Rightarrow>
     ((apr_status \<times> mfs_filepath_stats) \<times> mfs_file_system \<times> 'w) option" where
  "mfs_stats_filepath E F fs domain stats pool w =
     (let params = mfs_tracker_init_parameters;
          params = add_param ''domain'' domain params;
          params = add_param ''argcount'' ''0'' params;
          params = add_client_id fs params
      in Option.bind (fs_request E F fs ''plugin_filepaths_stats'' params pool w)
           (\<lambda>((rv, ok, result), fs, w).
             if rv \<noteq> APR_SUCCESS then Some ((rv, stats), fs, w)
             else Some ((tracker_status rv ok,
                         \<lparr>st_total_mb = reply_number E result ''mb_total'' 0,
                          st_used_mb = reply_number E result ''mb_used'' 0\<rparr>), fs, w)))"

definition mfs_checkfs_filepath ::
  "'w apr \<Rightarrow> 'w http \<Rightarrow> mfs_file_system \<Rightarrow> string \<Rightarrow> bool \<Rightarrow> mfs_check_fs_result \<Rightarrow> handle \<Rightarrow> 'w \<Rightarrow>
     ((apr_status \<times> mfs_check_fs_result) \<times> mfs_file_system \<times> 'w) option" where
  "mfs_checkfs_filepath E F fs domain get_total stats pool w =
     (let params = mfs_tracker_init_parameters;
          params = add_param ''domain'' domain params;
          params = add_param ''argcount'' ''1'' params;
          params = add_param ''arg1'' (if get_total then ''1'' else ''0'') params;
          params = add_client_id fs params
      in Option.bind (fs_request E F fs ''plugin_filepaths_check_fs'' params pool w)
           (\<lambda>((rv, ok, result), fs, w).
             if rv \<noteq> APR_SUCCESS then Some ((rv, stats), fs, w)
             else Some ((tracker_status rv ok,
                         \<lparr>cf_total = reply_number E result ''total'' (-1),
                          cf_fixed = reply_number E result ''fixed'' (-1)\<rparr>), fs, w)))"

end
