(* ===== verification/SimRun.thy ===== *)
theory SimRun
  imports Request
begin

text \<open>
  Whole requests on the scripted network: when every connect succeeds and the next line of the
  script is an OK reply, a request on any sound pool with an active tracker takes that line and
  decodes it. The witnesses of the clients run on this.
\<close>

section \<open>What a request leaves of the script\<close>

definition sim_rest :: "sim \<Rightarrow> apr_status list \<times> (apr_status \<times> string) list \<times> (string \<times> nat) list
    \<times> put_event list \<times> get_event list \<times> string list" where
  "sim_rest w = (sim_connects w, sim_replies w, sim_files w, sim_put_events w, sim_get_events w, sim_uploaded w)"

lemma stacks_actives:
  "pop_entry p i = (eo, p') \<Longrightarrow> actives p' = actives p" "actives (push_entry p i e) = actives p"
  by (auto simp: pop_entry_def push_entry_def set_connection_pool_def actives_def Let_def split: list.splits if_splits)

lemma sim_get:
  assumes "sim_connects w = []"
  shows "\<exists>e nw p' w'. mfs_pool_get_connection_ex sim_apr p i True t w = ((Some e, nw), p', w') \<and> sim_rest w' = sim_rest w
    \<and> actives p' = actives p"
proof -
  obtain eo p1 where pop: "pop_entry p i = (eo, p1)" by force
  then have locked: "pop_locked sim_apr p i w = ((True, eo), p1, w)"
    by (simp add: pop_locked_def sim_apr_def)
  show ?thesis
  proof (cases eo)
    case (Some e)
    then show ?thesis
      using locked stacks_actives(1) [OF pop] by (intro exI [of _ e] exI [of _ False] exI [of _ p1] exI [of _ w]) (simp add: mfs_pool_get_connection_ex_def)
  next
    case None
    show ?thesis
      using assms None stacks_actives(1) [OF pop]
      by (simp add: mfs_pool_get_connection_ex_def locked)
        (auto simp: sim_apr_def sim_pool_create_def mfs_tracker_connect_def sim_fresh_def sim_connect_def sim_rest_def Let_def)
  qed
qed

lemma sim_put:
  "\<exists>p' w'. mfs_pool_return_connection sim_apr p i e w = (p', w') \<and> sim_rest w' = sim_rest w \<and> actives p' = actives p"
  by (simp add: mfs_pool_return_connection_def sim_apr_def Let_def stacks_actives(2))

lemma sim_send: "\<exists>b. send_request sim_apr c cmd ps t w = (APR_SUCCESS, w\<lparr>sim_sent := sim_sent w @ [b]\<rparr>)"
  unfolding send_request_def mfs_tracker_build_request_def
  by (auto simp: sim_apr_def Let_def split: prod.splits)

definition ok_line :: "(string \<times> string) list \<Rightarrow> string" where
  "ok_line kvs = ''OK 17 '' @ reply_text kvs @ [CR, LF]"

definition proper_reply :: "(string \<times> string) list \<Rightarrow> bool" where
  "proper_reply kvs \<longleftrightarrow> (reply_text kvs = [] \<or> \<not> fid_char (hd (reply_text kvs)))
     \<and> length (ok_line kvs) \<le> MFS_READ_BUFFER_SIZE"

lemma sim_exchange:
  assumes "sim_replies w = (APR_SUCCESS, ok_line kvs) # rest" and "proper_reply kvs"
  shows "\<exists>w'. mfs_tracker_request sim_apr c action ps ok h t w = Some ((APR_SUCCESS, True, h ++ reply_table kvs), w')
    \<and> sim_rest w' = (case sim_rest w of (cs, _, x) \<Rightarrow> (cs, rest, x))"
proof -
  let ?line = "''OK '' @ ''17 '' @ reply_text kvs"
  obtain b where send: "send_request sim_apr c action ps t w = (APR_SUCCESS, w\<lparr>sim_sent := sim_sent w @ [b]\<rparr>)"
    using sim_send by blast
  let ?w = "w\<lparr>sim_sent := sim_sent w @ [b]\<rparr>"
  have recvs: "recvs sim_apr (tc_socket c) ?w [?line @ [CR, LF]] (?w\<lparr>sim_replies := rest\<rparr>)"
    using assms by (simp add: sim_apr_def sim_recv_def proper_reply_def ok_line_def)
  have fid: "\<forall>c \<in> set ''17 ''. fid_char c" by (simp add: fid_char_def isdigit_def)
  have "mfs_tracker_request sim_apr c action ps ok h t w =
      Some (mfs_tracker_parse_response sim_apr (?line @ [NUL, LF]) (length ?line + 2) ok h, ?w\<lparr>sim_replies := rest\<rparr>)"
    using reply_line_no_LF [OF fid] by (intro tracker_request_line [OF send recvs]) auto
  moreover have "mfs_tracker_parse_response sim_apr (?line @ [NUL, LF]) (length ?line + 2) ok h =
      (APR_SUCCESS, True, h ++ reply_table kvs)"
    using parse_ok_reply [OF sim_strtok_law fid, of kvs "length ?line + 2" "[LF]" ok h] assms(2)
    by (simp add: proper_reply_def)
  ultimately show ?thesis by (simp add: sim_rest_def)
qed

text \<open>The first active tracker answers.\<close>

lemma sim_try:
  assumes "sim_connects (rq_world s) = []" and "sim_replies (rq_world s) = (APR_SUCCESS, ok_line kvs) # rest"
    and "proper_reply kvs"
  shows "\<exists>s'. try_tracker sim_apr action ps t i s = Some s' \<and> rq_rv s' = APR_SUCCESS \<and> rq_finished s' \<and> rq_ok s'
    \<and> rq_result s' = rq_result s ++ reply_table kvs
    \<and> sim_rest (rq_world s') = (case sim_rest (rq_world s) of (cs, _, x) \<Rightarrow> (cs, rest, x))
    \<and> actives (rq_trackers s') = actives (rq_trackers s)"
proof -
  obtain e nw p1 w1 where get: "mfs_pool_get_connection_ex sim_apr (rq_trackers s) i True t (rq_world s) = ((Some e, nw), p1, w1)"
    and r1: "sim_rest w1 = sim_rest (rq_world s)" and a1: "actives p1 = actives (rq_trackers s)"
    using sim_get [OF assms(1)] by blast
  have "sim_replies w1 = (APR_SUCCESS, ok_line kvs) # rest" using r1 assms(2) by (simp add: sim_rest_def)
  from sim_exchange [OF this assms(3)] obtain w2 where
    req: "mfs_tracker_request sim_apr (e_connection e) action ps (rq_ok s) (rq_result s) t w1 =
      Some ((APR_SUCCESS, True, rq_result s ++ reply_table kvs), w2)"
    and r2: "sim_rest w2 = (case sim_rest w1 of (cs, _, x) \<Rightarrow> (cs, rest, x))" by blast
  obtain p3 w3 where put: "mfs_pool_return_connection sim_apr p1 i e w2 = (p3, w3)" and r3: "sim_rest w3 = sim_rest w2"
    and a3: "actives p3 = actives p1"
    using sim_put by blast
  show ?thesis
    by (subst try_tracker.simps) (simp add: get req put r1 r2 r3 a1 a3)
qed

lemma sim_list:
  assumes "pl_active_tracker_count p \<noteq> 0"
  shows "\<exists>l w'. mfs_pool_list_active_trackers sim_apr p w = (Some l, w') \<and> sim_rest w' = sim_rest w"
  using assms
  by (simp add: mfs_pool_list_active_trackers_def list_trackers_def sim_apr_def sim_rand_def sim_rest_def
      split: list.split)

lemma sim_request_do:
  assumes "sys_inv sim_apr live X p w {#}" and "actives p \<noteq> []" and "sim_connects w = []"
    and "sim_replies w = (APR_SUCCESS, ok_line kvs) # rest" and "proper_reply kvs"
  shows "\<exists>p' w'. mfs_request_do sim_apr p action ps ok h (Some q) t w = Some ((APR_SUCCESS, True, h ++ reply_table kvs), p', w')
    \<and> sim_rest w' = (case sim_rest w of (cs, _, x) \<Rightarrow> (cs, rest, x)) \<and> actives p' = actives p"
proof -
  have "pl_active_tracker_count p \<noteq> 0" using assms(2) by (simp add: actives_def)
  then obtain l w1 where l: "mfs_pool_list_active_trackers sim_apr p w = (Some l, w1)" and r1: "sim_rest w1 = sim_rest w"
    using sim_list by blast
  let ?s = "\<lparr>rq_rv = APR_ECONNREFUSED, rq_finished = False, rq_ok = ok, rq_result = h, rq_trackers = p, rq_world = w1\<rparr>"
  have "rotate (nat (tl_start_postion l)) (actives p) \<noteq> []" using assms(2) by simp
  then obtain i "is" where rot: "rotate (nat (tl_start_postion l)) (actives p) = i # is" by (metis list.exhaust)
  have "sim_connects (rq_world ?s) = []" "sim_replies (rq_world ?s) = (APR_SUCCESS, ok_line kvs) # rest"
    using r1 assms(3,4) by (simp_all add: sim_rest_def)
  from sim_try [OF this assms(5), of action ps t i] obtain s' where
    s': "try_tracker sim_apr action ps t i ?s = Some s'" "rq_rv s' = APR_SUCCESS" "rq_finished s'" "rq_ok s'"
      "rq_result s' = h ++ reply_table kvs" "sim_rest (rq_world s') = (case sim_rest w1 of (cs, _, x) \<Rightarrow> (cs, rest, x))"
      "actives (rq_trackers s') = actives p"
    by auto
  have "request_loop sim_apr action ps t l ?s = Some s'"
    using s'(1,3) by (simp add: request_loop_visit [OF assms(1) l] rot visit_stopped)
  then show ?thesis using s'(2,4-7) r1 l by (simp add: request_do_with_pool)
qed

end
