(* ===== verification/FileFacts.thy ===== *)
theory FileFacts
  imports FileCommands SimRun
begin

text \<open>
  What the tracker commands guarantee: a session of commands keeps the connections of the pool,
  returns, and never reads a missing error code; the replies are decoded into what the tracker
  described, and the entries of a listing are well typed.
\<close>

section \<open>One request\<close>

definition fs_sound ::
  "'w apr \<Rightarrow> ('w \<Rightarrow> handle set) \<Rightarrow> handle set \<Rightarrow> mfs_file_system \<Rightarrow> 'w \<Rightarrow> bool" where
  "fs_sound E live X fs w \<longleftrightarrow> (\<exists>p. fs_trackers fs = Some p \<and> sys_inv E live X p w {#})"

text \<open>Every exchange with a tracker, within the timeout, comes to an end.\<close>

definition exchanges_end :: "'w apr \<Rightarrow> int \<Rightarrow> bool" where
  "exchanges_end E timeout \<longleftrightarrow> (\<forall>c action ps ok h w. mfs_tracker_request E c action ps ok h timeout w \<noteq> None)"

lemma fs_ask_unfold:
  assumes "fs_sound E live X fs w"
  obtains p where "fs_trackers fs = Some p" and "sys_inv E live X p w {#}"
    and "\<And>r fs' w'. fs_ask E fs action ps ok h pool w = Some (r, fs', w') \<longleftrightarrow>
      (\<exists>p'. mfs_request_do E p action ps ok h (Some pool) (fs_tracker_timeout fs) w = Some (r, p', w')
        \<and> fs' = fs\<lparr>fs_trackers := Some p'\<rparr>)"
proof -
  obtain p where p: "fs_trackers fs = Some p" "sys_inv E live X p w {#}" using assms by (auto simp: fs_sound_def)
  have "fs_ask E fs action ps ok h pool w = Some (r, fs', w') \<longleftrightarrow>
      (\<exists>p'. mfs_request_do E p action ps ok h (Some pool) (fs_tracker_timeout fs) w = Some (r, p', w')
        \<and> fs' = fs\<lparr>fs_trackers := Some p'\<rparr>)" for r fs' w'
    using p(1) by (auto simp: fs_ask_def split: option.splits prod.splits)
  with p that show thesis by blast
qed

lemma fs_ask_sound:
  assumes "fs_sound E live X fs w" and "fs_ask E fs action ps ok h pool w = Some (r, fs', w')"
  shows "fs_sound E live X fs' w'" and "fs' = fs\<lparr>fs_trackers := fs_trackers fs'\<rparr>"
proof -
  obtain p p' where p: "sys_inv E live X p w {#}" and
    req: "mfs_request_do E p action ps ok h (Some pool) (fs_tracker_timeout fs) w = Some (r, p', w')"
    and fs': "fs' = fs\<lparr>fs_trackers := Some p'\<rparr>"
    using fs_ask_unfold [OF assms(1), of action ps ok h pool] assms(2) by metis
  from request_sys [OF p req] fs' show "fs_sound E live X fs' w'" by (simp add: fs_sound_def)
  from fs' show "fs' = fs\<lparr>fs_trackers := fs_trackers fs'\<rparr>" by simp
qed

lemma fs_ask_answer:
  assumes "fs_sound E live X fs w" and "fs_ask E fs action ps ok0 h0 pool w = Some ((APR_SUCCESS, ok, h), fs', w')"
  shows "answer_of E action ps (fs_tracker_timeout fs) ok h"
proof -
  obtain p p' where p: "sys_inv E live X p w {#}" and
    req: "mfs_request_do E p action ps ok0 h0 (Some pool) (fs_tracker_timeout fs) w = Some ((APR_SUCCESS, ok, h), p', w')"
    using fs_ask_unfold [OF assms(1), of action ps ok0 h0 pool] assms(2) by metis
  from request_answer [OF p req] show ?thesis by (simp add: answer_of_def)
qed

lemma fs_ask_total:
  assumes "fs_sound E live X fs w" and "exchanges_end E (fs_tracker_timeout fs)"
  shows "\<exists>r fs' w'. fs_ask E fs action ps ok h pool w = Some (r, fs', w')"
proof -
  obtain p where p: "sys_inv E live X p w {#}"
    and ask: "\<And>r fs' w'. fs_ask E fs action ps ok h pool w = Some (r, fs', w') \<longleftrightarrow>
      (\<exists>p'. mfs_request_do E p action ps ok h (Some pool) (fs_tracker_timeout fs) w = Some (r, p', w')
        \<and> fs' = fs\<lparr>fs_trackers := Some p'\<rparr>)"
    using fs_ask_unfold [OF assms(1), of action ps ok h pool] by metis
  obtain r p' w' where "mfs_request_do E p action ps ok h (Some pool) (fs_tracker_timeout fs) w = Some (r, p', w')"
    using request_total [OF p] assms(2) unfolding exchanges_end_def by blast
  then show ?thesis using ask by blast
qed

text \<open>A failure of the receive loop never has the status of success.\<close>

lemma recv_loop_not_success:
  assumes "recv_loop E s fin w = Some (Inl st, w')"
  shows "st \<noteq> APR_SUCCESS"
proof -
  have "\<forall>st w'. y = (Inl st, w') \<longrightarrow> st \<noteq> APR_SUCCESS" if "recv_loop E s fin w = Some y" for y
    by (rule recv_loop.raw_induct [OF _ that]) (auto simp: Let_def split: prod.splits if_splits)
  with assms show ?thesis by blast
qed

text \<open>An answer that is not OK has an error code in the table.\<close>

lemma answer_error_code:
  assumes "answer_of E action ps t False h"
  shows "\<exists>code. hash_get h MFS_TRACKER_ERROR_CODE = Some code"
proof -
  obtain c ok0 h0 w0 w1 where req: "mfs_tracker_request E c action ps ok0 h0 t w0 = Some ((APR_SUCCESS, False, h), w1)"
    using assms by (auto simp: answer_of_def)
  then obtain buf n where "mfs_tracker_parse_response E buf n ok0 h0 = (APR_SUCCESS, False, h)"
    using recv_loop_not_success
    by (fastforce simp: mfs_tracker_request_def terminate_reply_def split: bind_splits prod.splits sum.splits if_splits)
  then have "reply_outcome ok0 (APR_SUCCESS, False, h)" using parse_response_outcome by metis
  then show ?thesis by (auto simp: reply_outcome_def hash_get_def)
qed

section \<open>The request as a service\<close>

text \<open>
  The contract of the request function with its clients, the commands of the file system and the
  transfers: it keeps the state sound, returns, and an answer that is not OK has an error code.
\<close>

locale tracker_service =
  fixes sound :: "'s \<Rightarrow> 'w \<Rightarrow> bool"
    and ask :: "'s \<Rightarrow> string \<Rightarrow> tracker_request_parameters \<Rightarrow> bool \<Rightarrow> apr_hash \<Rightarrow> 'w \<Rightarrow>
      ((apr_status \<times> bool \<times> apr_hash) \<times> 's \<times> 'w) option"
  assumes ask_sound: "sound s w \<Longrightarrow> ask s a ps ok h w = Some (r, s', w') \<Longrightarrow> sound s' w'"
    and ask_total: "sound s w \<Longrightarrow> \<exists>r s' w'. ask s a ps ok h w = Some (r, s', w')"
    and ask_code: "sound s w \<Longrightarrow> ask s a ps ok h0 w = Some ((APR_SUCCESS, False, h), s', w') \<Longrightarrow>
      \<exists>code. hash_get h MFS_TRACKER_ERROR_CODE = Some code"
begin

text \<open>A command: a request, then a continuation that needs an error code only after an error.\<close>

lemma command_total:
  assumes "sound s w"
    and "\<And>rv ok h s w. (rv = APR_SUCCESS \<Longrightarrow> \<not> ok \<Longrightarrow> \<exists>code. hash_get h MFS_TRACKER_ERROR_CODE = Some code) \<Longrightarrow>
      \<exists>x. k ((rv, ok, h), s, w) = Some (x, s, w)"
  shows "\<exists>x s' w'. Option.bind (ask s a ps ok0 h0 w) k = Some (x, s', w') \<and> sound s' w'"
proof -
  obtain rv ok h s1 w1 where req: "ask s a ps ok0 h0 w = Some ((rv, ok, h), s1, w1)"
    using ask_total [OF assms(1)] by (metis prod.exhaust)
  have "\<exists>code. hash_get h MFS_TRACKER_ERROR_CODE = Some code" if "rv = APR_SUCCESS" "\<not> ok"
    using ask_code [OF assms(1)] req that by auto
  from assms(2) [OF this] obtain x where "k ((rv, ok, h), s1, w1) = Some (x, s1, w1)" by blast
  then show ?thesis using req ask_sound [OF assms(1) req] by simp
qed

end

text \<open>The handle and the world when requests can be made on them.\<close>

definition fs_ready ::
  "'w apr \<Rightarrow> ('w \<Rightarrow> handle set) \<Rightarrow> handle set \<Rightarrow> mfs_file_system \<Rightarrow> 'w \<Rightarrow> bool" where
  "fs_ready E live X fs w \<longleftrightarrow> fs_sound E live X fs w \<and> exchanges_end E (fs_tracker_timeout fs)"

lemma fs_ask_ready:
  assumes "fs_ready E live X fs w" and "fs_ask E fs action ps ok h pool w = Some (r, fs', w')"
  shows "fs_ready E live X fs' w'"
proof -
  have "fs_sound E live X fs w" using assms(1) by (simp add: fs_ready_def)
  note sound = fs_ask_sound [OF this assms(2)]
  from sound(2) have "fs_tracker_timeout fs' = fs_tracker_timeout fs" by (rule ssubst) simp
  with sound(1) assms(1) show ?thesis by (simp add: fs_ready_def)
qed

lemma fs_ask_ready_total:
  "fs_ready E live X fs w \<Longrightarrow> \<exists>r fs' w'. fs_ask E fs action ps ok h pool w = Some (r, fs', w')"
  unfolding fs_ready_def by (elim conjE) (rule fs_ask_total)

interpretation fs_service: tracker_service "fs_ready E live X" "\<lambda>fs action ps ok h w. fs_ask E fs action ps ok h pool w"
  for E live X pool
proof unfold_locales
  fix fs action ps ok h0 w h fs' w'
  assume "fs_ready E live X fs w" and req: "fs_ask E fs action ps ok h0 pool w = Some ((APR_SUCCESS, False, h), fs', w')"
  then have "fs_sound E live X fs w" by (simp add: fs_ready_def)
  from answer_error_code [OF fs_ask_answer [OF this req]]
  show "\<exists>code. hash_get h MFS_TRACKER_ERROR_CODE = Some code" .
qed (rule fs_ask_ready fs_ask_ready_total; assumption)+

section \<open>Sessions of commands\<close>

datatype fs_call =
    Delete string string
  | Sleep int
  | Rename string string string
  | Rename_filepath string string string
  | Set_mtime string string "64 word"
  | Delete_node string string
  | Create_directory string string "64 word option"
  | Create_link string string string "64 word option"
  | Get_paths string string bool
  | List_directory string string
  | Path_info string string mfs_filepath_entry
  | Stats string mfs_filepath_stats
  | Check_fs string bool mfs_check_fs_result

fun run_call ::
  "'w apr \<Rightarrow> 'w http \<Rightarrow> handle \<Rightarrow> fs_call \<Rightarrow> mfs_file_system \<Rightarrow> 'w \<Rightarrow> (apr_status \<times> mfs_file_system \<times> 'w) option" where
  "run_call E F q (Delete d k) fs w = mfs_delete E F fs d k q w"
| "run_call E F q (Sleep n) fs w = mfs_sleep E F fs n q w"
| "run_call E F q (Rename d k k2) fs w = mfs_rename E F fs d k k2 q w"
| "run_call E F q (Rename_filepath d k k2) fs w = mfs_rename_filepath E F fs d k k2 q w"
| "run_call E F q (Set_mtime d k t) fs w = mfs_set_mtime E F fs d k t q w"
| "run_call E F q (Delete_node d k) fs w = mfs_delete_filepath_node E F fs d k q w"
| "run_call E F q (Create_directory d k n) fs w = map_option (apfst fst) (mfs_create_directory E F fs d k q n w)"
| "run_call E F q (Create_link d k l n) fs w = map_option (apfst fst) (mfs_create_link E F fs d k l q n w)"
| "run_call E F q (Get_paths d k b) fs w = map_option (apfst fst) (mfs_get_paths E F fs d k b q w)"
| "run_call E F q (List_directory d k) fs w = map_option (apfst fst) (mfs_list_directory E F fs d k q w)"
| "run_call E F q (Path_info d k e) fs w = map_option (apfst fst) (mfs_path_info E F fs d k e q w)"
| "run_call E F q (Stats d s) fs w = map_option (apfst fst) (mfs_stats_filepath E F fs d s q w)"
| "run_call E F q (Check_fs d b s) fs w = map_option (apfst fst) (mfs_checkfs_filepath E F fs d b s q w)"

lemmas command_defs = mfs_delete_def mfs_sleep_def mfs_rename_def mfs_rename_filepath_def mfs_set_mtime_def
  mfs_delete_filepath_node_def mfs_create_directory_def mfs_create_link_def mfs_get_paths_def
  mfs_list_directory_def mfs_path_info_def mfs_stats_filepath_def mfs_checkfs_filepath_def status_command_def fs_request_def

lemma ex_pairs: "\<exists>a b. x = (a, b)" "\<exists>a b c. y = (a, b, c)"
  by (metis prod.exhaust)+

lemma map_option_total:
  "\<exists>x fs' w'. r = Some (x, fs', w') \<and> P fs' w' \<Longrightarrow> \<exists>x fs' w'. map_option (apfst f) r = Some (x, fs', w') \<and> P fs' w'"
  by auto

lemma run_call_total:
  assumes "fs_ready E live X fs w"
  shows "\<exists>st fs' w'. run_call E F q call fs w = Some (st, fs', w') \<and> fs_ready E live X fs' w'"
  by (cases call)
     (simp only: run_call.simps command_defs Let_def,
      (rule map_option_total)?, rule fs_service.command_total [OF assms], (auto simp: ex_pairs split: option.splits)[1])+

fun run_session ::
  "'w apr \<Rightarrow> 'w http \<Rightarrow> handle \<Rightarrow> fs_call list \<Rightarrow> mfs_file_system \<Rightarrow> 'w \<Rightarrow> (apr_status list \<times> mfs_file_system \<times> 'w) option" where
  "run_session E F q [] fs w = Some ([], fs, w)"
| "run_session E F q (call # calls) fs w =
     Option.bind (run_call E F q call fs w) (\<lambda>(st, fs, w).
       map_option (apfst ((#) st)) (run_session E F q calls fs w))"

text \<open> C13: A session of tracker commands on one handle returns, whatever the trackers answer, provided
  each exchange comes to an end: no command reads a missing error code, and after it every
  connection of the pool is idle or closed, none leaked and none closed twice. \<close>

theorem session_returns_sound:
  assumes "fs_sound E live X fs w" and "exchanges_end E (fs_tracker_timeout fs)"
  shows "\<exists>sts fs' w'. run_session E F q calls fs w = Some (sts, fs', w') \<and> length sts = length calls
    \<and> fs_sound E live X fs' w'"
proof -
  have "\<exists>sts fs' w'. run_session E F q calls fs w = Some (sts, fs', w') \<and> length sts = length calls
      \<and> fs_ready E live X fs' w'" if "fs_ready E live X fs w" for fs w
    using that
  proof (induction calls arbitrary: fs w)
    case (Cons call calls)
    obtain st fs1 w1 where "run_call E F q call fs w = Some (st, fs1, w1)" and "fs_ready E live X fs1 w1"
      using run_call_total [OF Cons.prems] by blast
    then show ?case using Cons.IH [of fs1 w1] by auto
  qed simp
  from this [of fs w] assms show ?thesis unfolding fs_ready_def by blast
qed

lemma sample_fs_sound: "sim_pools w = [] \<Longrightarrow> fs_sound sim_apr sim_live {} sample_fs w"
  using sample_sys by (auto simp: fs_sound_def sample_fs_def)

lemma sim_exchanges_end: "exchanges_end sim_apr t"
  using sim_request_returns by (simp add: exchanges_end_def)

theorem session_returns_sound_witness:
  "\<exists>sts fs' w'. run_session sim_apr sim_http 9 [Get_paths ''d'' ''k'' True, Delete ''d'' ''k''] sample_fs sim0 = Some (sts, fs', w')
    \<and> length sts = length [Get_paths ''d'' ''k'' True, Delete ''d'' ''k''] \<and> fs_sound sim_apr sim_live {} fs' w'"
  by (rule session_returns_sound [OF sample_fs_sound sim_exchanges_end]) (simp add: sim0_def)

section \<open>Paths\<close>

text \<open>The table of a reply with a list of paths.\<close>

definition paths_reply :: "string list \<Rightarrow> (string \<times> string) list" where
  "paths_reply paths = (''paths'', show_nat (length paths)) #
     map (\<lambda>i. (''path'' @ show_nat (i + 1), paths ! i)) [0..<length paths]"

lemma show_nat_inj [simp]: "show_nat m = show_nat n \<longleftrightarrow> m = n"
  by (metis atoi_show_nat of_nat_eq_iff)

lemma show_nat_neq: "c \<in> set s \<Longrightarrow> \<not> isdigit c \<Longrightarrow> s \<noteq> show_nat n" "c \<in> set s \<Longrightarrow> \<not> isdigit c \<Longrightarrow> show_nat n \<noteq> s"
  using show_nat_digits by auto

lemma url_encode_unreserved: "\<forall>c \<in> set s. unreserved c \<Longrightarrow> url_encode s = s"
  by (simp add: mfs_tracker_url_encode_eq) (induction s, auto simp: enc_char_def)

lemma show_nat_unreserved: "c \<in> set (show_nat n) \<Longrightarrow> unreserved c"
  using show_nat_digits by (auto simp: unreserved_def isalnum_def)

lemma map_of_rev_same:
  assumes "(k, v) \<in> set kvs" and "\<forall>(k', v') \<in> set kvs. k' = k \<longrightarrow> v' = v"
  shows "map_of (rev kvs) k = Some v"
proof -
  have "k \<in> fst ` set (rev kvs)" using assms(1) by force
  then obtain v' where v': "map_of (rev kvs) k = Some v'" by (metis map_of_eq_None_iff not_None_eq)
  then have "(k, v') \<in> set kvs" using map_of_SomeD by fastforce
  with assms(2) v' show ?thesis by auto
qed

lemma hash_get_reply:
  assumes "\<forall>(k, v) \<in> set kvs. (\<forall>c \<in> set k. unreserved c) \<and> NUL \<notin> set v"
    and "(k, v) \<in> set kvs" and "\<forall>(k', v') \<in> set kvs. k' = k \<longrightarrow> v' = v"
  shows "hash_get (reply_table kvs) k = Some v"
proof -
  have id: "map (\<lambda>(k, v). (url_encode k, v)) kvs = kvs"
    using assms(1) url_encode_unreserved by (induction kvs) auto
  have "NUL \<notin> set v" using assms(1,2) by auto
  with map_of_rev_same [OF assms(2,3)] show ?thesis by (simp add: hash_get_def reply_table_def id c_str_no_NUL)
qed

text \<open>The list of paths a tracker announces is decoded as it was sent, as long as it has between
  1 and 99 entries; a longer one is refused. \<close>

theorem paths_roundtrip:
  assumes "\<forall>p \<in> set paths. NUL \<notin> set p" and "paths \<noteq> []"
  shows "paths_of_reply (reply_table (paths_reply paths)) =
    (if length paths < 100 then (APR_SUCCESS, Some paths, Some (int (length paths))) else (APR_EGENERAL, None, None))"
proof -
  let ?h = "reply_table (paths_reply paths)"
  let ?n = "length paths"
  have s: "\<not> isdigit (CHR ''s'')" by (simp add: isdigit_def)
  have dist: "distinct (map fst (paths_reply paths))"
    using show_nat_neq [of "CHR ''s''" "''s''", OF _ s]
    by (auto simp: paths_reply_def distinct_map inj_on_def)
  have digits: "NUL \<notin> set (show_nat n)" for n
    using show_nat_digits [of NUL n] by (auto simp: isdigit_def)
  have keys: "\<forall>(k, v) \<in> set (paths_reply paths). (\<forall>c \<in> set k. unreserved c) \<and> NUL \<notin> set v"
    using assms(1) digits show_nat_unreserved
    by (auto simp: paths_reply_def) (auto simp: unreserved_def isalnum_def isalpha_def)
  have get: "hash_get ?h k = Some v" if "(k, v) \<in> set (paths_reply paths)" for k v
    using hash_get_reply [OF keys that] eq_key_imp_eq_value [OF dist that] by blast
  have count: "hash_get ?h ''paths'' = Some (show_nat ?n)"
    by (rule get) (simp add: paths_reply_def)
  have entry: "hash_get ?h (''path'' @ show_nat (i + 1)) = Some (paths ! i)" if "i < ?n" for i
    using that by (intro get) (auto simp: paths_reply_def)
  have "path_entries ?h (int ?n) = map (\<lambda>i. hash_get ?h (''path'' @ show_nat (i + 1))) [0..<?n]"
    by (simp add: path_entries_def map_Suc_upt [symmetric] del: upt_Suc)
  also have "\<dots> = map (\<lambda>i. Some (paths ! i)) [0..<?n]"
    using entry by (intro map_cong) auto
  also have "\<dots> = map Some paths" using arg_cong [OF map_nth [of paths], of "map Some"] by (simp add: comp_def)
  finally have entries: "path_entries ?h (int ?n) = map Some paths" .
  show ?thesis
    using assms(2) by (auto simp: paths_of_reply_def count entries Let_def MAX_ALLOWED_PATHS_def comp_def)
qed

lemma paths_roundtrip_witness:
  "paths_of_reply (reply_table (paths_reply [''http://a/1'', ''http://b/2''])) =
    (if length [''http://a/1'', ''http://b/2''] < 100
     then (APR_SUCCESS, Some [''http://a/1'', ''http://b/2''], Some (int (length [''http://a/1'', ''http://b/2''])))
     else (APR_EGENERAL, None, None))"
  by (rule paths_roundtrip) auto

lemma paths_success:
  assumes "paths_of_reply h = (APR_SUCCESS, ps, n)"
  shows "\<exists>paths. ps = Some paths \<and> n = Some (int (length paths)) \<and> 0 < length paths \<and> length paths < 100
    \<and> map_option atoi (hash_get h ''paths'') = Some (int (length paths))
    \<and> (\<forall>i < length paths. hash_get h (''path'' @ show_nat (i + 1)) = Some (paths ! i))"
proof -
  obtain s where s: "hash_get h ''paths'' = Some s" and pc: "0 < atoi s" "atoi s < 100"
    and entries: "None \<notin> set (path_entries h (atoi s))"
    and ps: "ps = Some (map the (path_entries h (atoi s)))" and n: "n = Some (atoi s)"
    using assms by (auto simp: paths_of_reply_def Let_def MAX_ALLOWED_PATHS_def split: option.splits if_splits)
  have len: "length (path_entries h (atoi s)) = nat (atoi s)" by (simp add: path_entries_def)
  have "hash_get h (''path'' @ show_nat (i + 1)) = Some (map the (path_entries h (atoi s)) ! i)" if "i < nat (atoi s)" for i
  proof -
    have "path_entries h (atoi s) ! i = hash_get h (''path'' @ show_nat (i + 1))"
      using that by (simp add: path_entries_def nth_append del: upt_Suc)
    moreover have "path_entries h (atoi s) ! i \<noteq> None" using entries that len by (metis nth_mem)
    ultimately show ?thesis using that len by auto
  qed
  with ps n pc len s show ?thesis by auto
qed

text \<open> C16: When \<open>mfs_get_paths\<close> reports success, some tracker answered this very request with OK,
  there are as many paths as the reply's \<open>paths\<close> field says, between 1 and 99, and each is the one
  the reply gives under its number; a key the tracker does not know is \<open>APR_EBADPATH\<close> and
  leaves the caller's variables alone. \<close>

theorem get_paths_success:
  assumes "fs_sound E live X fs w"
    and "mfs_get_paths E F fs domain key noverify pool w = Some ((st, ps, n), fs', w')"
  shows "(st = APR_SUCCESS \<longrightarrow> (\<exists>paths h. ps = Some paths \<and> n = Some (int (length paths))
      \<and> 0 < length paths \<and> length paths < 100
      \<and> map_option atoi (hash_get h ''paths'') = Some (int (length paths))
      \<and> (\<forall>i < length paths. hash_get h (''path'' @ show_nat (i + 1)) = Some (paths ! i))
      \<and> answer_of E ''get_paths'' (add_param ''key'' key (add_param ''noverify'' (if noverify then ''1'' else ''0'')
            (add_param ''domain'' domain mfs_tracker_init_parameters))) (fs_tracker_timeout fs) True h))
    \<and> (st = APR_EBADPATH \<longrightarrow> ps = None \<and> n = None)"
proof -
  let ?ps = "add_param ''key'' key (add_param ''noverify'' (if noverify then ''1'' else ''0'')
            (add_param ''domain'' domain mfs_tracker_init_parameters))"
  obtain rv ok h fs1 w1 where req: "fs_request E F fs ''get_paths'' ?ps pool w = Some ((rv, ok, h), fs1, w1)"
    using assms(2) by (auto simp: mfs_get_paths_def Let_def split: bind_splits)
  show ?thesis
  proof (cases "rv = APR_SUCCESS \<and> ok")
    case True
    then have reply: "paths_of_reply h = (st, ps, n)"
      using assms(2) req by (simp add: mfs_get_paths_def Let_def)
    have "answer_of E ''get_paths'' ?ps (fs_tracker_timeout fs) True h"
      using fs_ask_answer [OF assms(1)] req True by (simp add: fs_request_def)
    moreover have "st \<noteq> APR_EBADPATH"
      using reply by (auto simp: paths_of_reply_def Let_def split: option.splits if_splits)
    ultimately show ?thesis using paths_success [of h ps n] reply by blast
  next
    case False
    then show ?thesis
      using assms(2) req by (auto simp: mfs_get_paths_def Let_def split: option.splits if_splits)
  qed
qed

text \<open>Commands on the scripted network.\<close>

definition sim_ready :: "mfs_file_system \<Rightarrow> sim \<Rightarrow> bool" where
  "sim_ready fs w \<longleftrightarrow> fs_sound sim_apr sim_live {} fs w \<and> sim_connects w = []
     \<and> (\<forall>p. fs_trackers fs = Some p \<longrightarrow> actives p \<noteq> [])"

lemma sim_ready_world:
  assumes "sim_ready fs w" and "sim_pools w' = sim_pools w" and "sim_connects w' = sim_connects w"
  shows "sim_ready fs w'"
proof -
  have "sim_live w' = sim_live w" using assms(2) by (simp add: sim_live_def)
  with assms(1,3) show ?thesis by (auto simp: sim_ready_def fs_sound_def intro: sys_inv_world)
qed

lemma sim_fs_ask:
  assumes "sim_ready fs w" and "sim_replies w = (APR_SUCCESS, ok_line kvs) # rest" and "proper_reply kvs"
  shows "\<exists>fs' w'. fs_ask sim_apr fs action ps ok h pool w =
      Some ((APR_SUCCESS, True, h ++ reply_table kvs), fs', w') \<and> fs' = fs\<lparr>fs_trackers := fs_trackers fs'\<rparr>
    \<and> sim_ready fs' w' \<and> sim_rest w' = (case sim_rest w of (cs, _, x) \<Rightarrow> (cs, rest, x))"
proof -
  obtain p where p: "fs_trackers fs = Some p" "sys_inv sim_apr sim_live {} p w {#}" "actives p \<noteq> []" "sim_connects w = []"
    using assms(1) by (auto simp: sim_ready_def fs_sound_def)
  obtain p' w' where req: "mfs_request_do sim_apr p action ps ok h (Some pool) (fs_tracker_timeout fs) w =
      Some ((APR_SUCCESS, True, h ++ reply_table kvs), p', w')"
    and rest: "sim_rest w' = (case sim_rest w of (cs, _, x) \<Rightarrow> (cs, rest, x))" and act: "actives p' = actives p"
    using sim_request_do [OF p(2-4) assms(2,3), of action ps ok h pool "fs_tracker_timeout fs"] by blast
  let ?fs = "fs\<lparr>fs_trackers := Some p'\<rparr>"
  have ask: "fs_ask sim_apr fs action ps ok h pool w = Some ((APR_SUCCESS, True, h ++ reply_table kvs), ?fs, w')"
    using p(1) req by (simp add: fs_ask_def)
  have "sim_ready ?fs w'"
    using fs_ask_sound(1) [OF _ ask] assms(1) rest act p(3,4) by (simp add: sim_ready_def sim_rest_def)
  with ask rest show ?thesis by auto
qed

lemma sim_fs_request:
  assumes "sim_ready fs w" and "sim_replies w = (APR_SUCCESS, ok_line kvs) # rest" and "proper_reply kvs"
  shows "\<exists>fs' w'. fs_request sim_apr F fs action ps pool w =
      Some ((APR_SUCCESS, True, Map.empty ++ reply_table kvs), fs', w') \<and> fs' = fs\<lparr>fs_trackers := fs_trackers fs'\<rparr>
    \<and> sim_ready fs' w' \<and> sim_rest w' = (case sim_rest w of (cs, _, x) \<Rightarrow> (cs, rest, x))"
  unfolding fs_request_def by (rule sim_fs_ask [OF assms])

definition tracker_says :: "(string \<times> string) list list \<Rightarrow> sim" where
  "tracker_says replies = sim0\<lparr>sim_replies := map (\<lambda>kvs. (APR_SUCCESS, ok_line kvs)) replies\<rparr>"

lemma sample_ready: "sim_ready sample_fs (tracker_says replies)"
  using sample_fs_sound sample_pool_lists
  by (simp add: sim_ready_def tracker_says_def sim0_def sample_fs_def)

lemma get_paths_success_witness:
  "\<exists>ps n fs' w'. mfs_get_paths sim_apr sim_http sample_fs ''d'' ''k'' True 9 (tracker_says [paths_reply [''p'', ''q'']]) =
      Some ((APR_SUCCESS, ps, n), fs', w')
    \<and> (\<exists>paths h. ps = Some paths \<and> n = Some (int (length paths)) \<and> 0 < length paths \<and> length paths < 100
      \<and> map_option atoi (hash_get h ''paths'') = Some (int (length paths))
      \<and> (\<forall>i < length paths. hash_get h (''path'' @ show_nat (i + 1)) = Some (paths ! i))
      \<and> answer_of sim_apr ''get_paths'' (add_param ''key'' ''k'' (add_param ''noverify'' ''1''
            (add_param ''domain'' ''d'' mfs_tracker_init_parameters))) 5 True h)"
proof -
  let ?kvs = "paths_reply [''p'', ''q'']" and ?w = "tracker_says [paths_reply [''p'', ''q'']]"
  let ?ps = "add_param ''key'' ''k'' (add_param ''noverify'' ''1'' (add_param ''domain'' ''d'' mfs_tracker_init_parameters))"
  have r: "reply_text ?kvs = ''paths=2&path1=p&path2=q''" by code_simp
  have reply: "proper_reply ?kvs"
    by (simp add: proper_reply_def ok_line_def r fid_char_def isdigit_def MFS_READ_BUFFER_SIZE_def)
  have "sim_replies ?w = (APR_SUCCESS, ok_line ?kvs) # []" by (simp add: tracker_says_def)
  from sim_fs_request [OF sample_ready this reply, of sim_http "''get_paths''" ?ps 9] obtain fs' w' where
    req: "fs_request sim_apr sim_http sample_fs ''get_paths'' ?ps 9 ?w =
      Some ((APR_SUCCESS, True, Map.empty ++ reply_table ?kvs), fs', w')" by blast
  have "paths_of_reply (Map.empty ++ reply_table ?kvs) = (APR_SUCCESS, Some [''p'', ''q''], Some 2)"
    by code_simp
  then have run: "mfs_get_paths sim_apr sim_http sample_fs ''d'' ''k'' True 9 ?w =
      Some ((APR_SUCCESS, Some [''p'', ''q''], Some 2), fs', w')"
    by (simp add: mfs_get_paths_def Let_def req)
  have "fs_sound sim_apr sim_live {} sample_fs ?w" using sample_ready by (simp add: sim_ready_def)
  from get_paths_success [OF this run] run show ?thesis
    by (simp add: sample_fs_def)
qed

end
