(* ===== verification/Listing.thy ===== *)
theory Listing
  imports FileFacts
begin

text \<open>
  Directory listings of the file paths plugin: every listing a tracker can describe is decoded as
  described, and whatever a tracker sends, the entries that reach the caller are well typed.
\<close>

section \<open>Types\<close>

text \<open>
  The type of an entry: it has a name, one of the three types, a link exactly if it is a
  symbolic link, and a size only if it is a file.
\<close>

definition entry_typed :: "mfs_filepath_entry \<Rightarrow> bool" where
  "entry_typed e \<longleftrightarrow> fe_name e \<noteq> None \<and> fe_type e \<in> {TYPE_FILE, TYPE_DIRECTORY, TYPE_SYMLINK}
     \<and> (fe_link e \<noteq> None \<longleftrightarrow> fe_type e = TYPE_SYMLINK) \<and> (fe_size e \<noteq> 0 \<longrightarrow> fe_type e = TYPE_FILE)"

lemmas type_defs = TYPE_FILE_def TYPE_DIRECTORY_def TYPE_SYMLINK_def

lemma read_entry_typed:
  assumes "read_entry E h prefix e = (APR_SUCCESS, e')" and "fe_name e \<noteq> None" and "fe_link e = None" and "fe_size e = 0"
  shows "entry_typed e'"
  using assms by (auto simp: read_entry_def entry_typed_def type_defs Let_def split: option.splits if_splits)

lemma list_entries_typed:
  "list_entries E h poss = Some es \<Longrightarrow> length es = length poss \<and> (\<forall>e \<in> set es. entry_typed e)"
proof (induction poss arbitrary: es)
  case Nil
  then show ?case by simp
next
  case (Cons pos poss)
  let ?key = "''file'' @ show_nat pos"
  obtain name e es' where get: "hash_get h ?key = Some name"
    and rd: "read_entry E h (?key @ ''.'') (zero_entry\<lparr>fe_name := Some name\<rparr>) = (APR_SUCCESS, e)"
    and rest: "list_entries E h poss = Some es'" and es: "es = e # es'"
    using Cons.prems by (auto simp: Let_def split: option.splits prod.splits if_splits)
  have "entry_typed e" by (rule read_entry_typed [OF rd]) (simp_all add: zero_entry_def)
  then show ?case using Cons.IH [OF rest] es by simp
qed

text \<open> C14: Whatever a tracker answers, a listing that is reported as success is either empty or an array
  of as many entries as the count says, fewer than 32000, each of them well typed. \<close>

theorem list_directory_typed:
  assumes "fs_sound E live X fs w"
    and "mfs_list_directory E F fs domain directory pool w = Some ((APR_SUCCESS, es, n), fs', w')"
  shows "(es = None \<and> n = Some 0)
    \<or> (\<exists>l. es = Some l \<and> n = Some (int (length l)) \<and> 0 < length l \<and> length l < 32000 \<and> (\<forall>e \<in> set l. entry_typed e))"
proof -
  let ?ps = "add_param ''argcount'' ''1'' (add_param ''arg1'' directory
            (add_param ''domain'' domain mfs_tracker_init_parameters))"
  obtain rv ok h fs1 w1 where req: "fs_request E F fs ''plugin_filepaths_list_directory'' ?ps pool w = Some ((rv, ok, h), fs1, w1)"
    using assms(2) by (auto simp: mfs_list_directory_def Let_def split: bind_splits)
  have "entries_of_reply E h = (APR_SUCCESS, es, n)"
    using assms(2) req by (auto simp: mfs_list_directory_def Let_def split: option.splits if_splits)
  note reply = this [unfolded entries_of_reply_def MAX_ALLOWED_DIRECTORY_ENTRIES_def Let_def]
  then obtain s where s: "hash_get h ''files'' = Some s" by (auto split: option.splits)
  show ?thesis
  proof (cases "0 < atoi s \<and> atoi s < 32000")
    case False
    then show ?thesis using reply s by (auto split: if_splits)
  next
    case True
    obtain l where l: "list_entries E h [0..<nat (atoi s)] = Some l" and "es = Some l" and "n = Some (atoi s)"
      using reply s True by (cases "list_entries E h [0..<nat (atoi s)]") auto
    with list_entries_typed [OF l] True show ?thesis by auto
  qed
qed

section \<open>Decoding a listing\<close>

datatype node = File "64 word" | Directory | Symlink string

text \<open>A node with its name, its modification time in seconds and its server id.\<close>

type_synonym named_node = "string \<times> 64 word \<times> 64 word \<times> node"

fun entry_of :: "named_node \<Rightarrow> mfs_filepath_entry" where
  "entry_of (name, secs, nid, node) =
     (let e = zero_entry\<lparr>fe_name := Some name, fe_mtime := apr_time_from_sec secs, fe_server_id := nid\<rparr>
      in case node of File n \<Rightarrow> e\<lparr>fe_type := TYPE_FILE, fe_size := n\<rparr>
         | Directory \<Rightarrow> e\<lparr>fe_type := TYPE_DIRECTORY\<rparr>
         | Symlink l \<Rightarrow> e\<lparr>fe_type := TYPE_SYMLINK, fe_link := Some l\<rparr>)"

definition show_word :: "64 word \<Rightarrow> string" where "show_word x = show_int (sint x)"

fun node_fields :: "named_node \<Rightarrow> (string \<times> string) list" where
  "node_fields (name, secs, nid, node) =
     [([], name), (''.mtime'', show_word secs), (''.nid'', show_word nid)] @
     (case node of File n \<Rightarrow> [(''.type'', ''F''), (''.size'', show_word n)]
      | Directory \<Rightarrow> [(''.type'', ''D'')]
      | Symlink l \<Rightarrow> [(''.type'', ''L''), (''.link'', l)])"

definition node_reply :: "nat \<Rightarrow> named_node \<Rightarrow> (string \<times> string) list" where
  "node_reply i x = map (\<lambda>(k, v). (''file'' @ show_nat i @ k, v)) (node_fields x)"

definition listing_reply :: "named_node list \<Rightarrow> (string \<times> string) list" where
  "listing_reply xs = (''files'', show_nat (length xs)) # concat (map (\<lambda>i. node_reply i (xs ! i)) [0..<length xs])"

definition node_ok :: "named_node \<Rightarrow> bool" where
  "node_ok x \<longleftrightarrow> (case x of (name, _, _, node) \<Rightarrow> NUL \<notin> set name \<and> (\<forall>l. node = Symlink l \<longrightarrow> NUL \<notin> set l))"

text \<open>\<open>apr_atoi64\<close> reads what was printed of a 64-bit number.\<close>

definition atoi64_law :: "'w apr \<Rightarrow> bool" where
  "atoi64_law E \<longleftrightarrow> (\<forall>x. apr_atoi64 E (show_word x) = x)"

text \<open>The keys of the fields determine the position and the field.\<close>

lemma takeWhile_digits: "k = [] \<or> \<not> isdigit (hd k) \<Longrightarrow> takeWhile isdigit (show_nat i @ k) = show_nat i"
  using show_nat_digits by (cases k) (auto simp: takeWhile_append takeWhile_eq_all_conv)

lemma field_key_inj:
  assumes "show_nat i @ k = show_nat j @ l" and "k = [] \<or> \<not> isdigit (hd k)" and "l = [] \<or> \<not> isdigit (hd l)"
  shows "i = j \<and> k = l"
proof -
  have "show_nat i = show_nat j"
    using arg_cong [OF assms(1), of "takeWhile isdigit"] takeWhile_digits assms(2,3) by simp
  then show ?thesis using assms(1) by simp
qed

lemma node_fields_key:
  "(k, v) \<in> set (node_fields x) \<Longrightarrow> k \<in> {[], ''.mtime'', ''.nid'', ''.type'', ''.size'', ''.link''}"
  by (cases x) (auto split: node.splits)

lemma field_key_facts:
  assumes "k \<in> {[], ''.mtime'', ''.nid'', ''.type'', ''.size'', ''.link''}"
  shows "k = [] \<or> \<not> isdigit (hd k)" and "\<forall>c \<in> set k. unreserved c"
proof -
  have "list_all unreserved ''.mtime''" "list_all unreserved ''.nid''" "list_all unreserved ''.type''"
    "list_all unreserved ''.size''" "list_all unreserved ''.link''"
    by code_simp+
  with assms show "\<forall>c \<in> set k. unreserved c" by (auto simp: list_all_iff)
  have "\<not> isdigit (CHR ''.'')" by (simp add: isdigit_def)
  with assms show "k = [] \<or> \<not> isdigit (hd k)" by auto
qed

lemma node_fields_same: "(k, v) \<in> set (node_fields x) \<Longrightarrow> (k, v') \<in> set (node_fields x) \<Longrightarrow> v = v'"
  by (cases x) (auto split: node.splits)

lemma show_int_no_NUL: "NUL \<notin> set (show_int i)"
proof -
  have "NUL \<notin> set (show_nat n)" for n using show_nat_digits [of NUL n] by (auto simp: isdigit_def)
  then show ?thesis by (simp add: show_int_def)
qed

lemma node_fields_no_NUL: "node_ok x \<Longrightarrow> (k, v) \<in> set (node_fields x) \<Longrightarrow> NUL \<notin> set v"
  using show_int_no_NUL by (cases x) (auto simp: node_ok_def show_word_def split: node.splits)

text \<open>So the table gives each field of each node.\<close>

lemma listing_reply_iff:
  "(k, v) \<in> set (listing_reply xs) \<longleftrightarrow> (k = ''files'' \<and> v = show_nat (length xs))
    \<or> (\<exists>i f. i < length xs \<and> k = ''file'' @ show_nat i @ f \<and> (f, v) \<in> set (node_fields (xs ! i)))"
  by (fastforce simp: listing_reply_def node_reply_def)

lemma files_key: "''files'' \<noteq> ''file'' @ show_nat i @ k"
proof -
  obtain c s where c: "show_nat i = c # s" by (cases "show_nat i") auto
  then have "isdigit c" using show_nat_digits [of c i] by simp
  then have "c \<noteq> CHR ''s''" by (auto simp: isdigit_def)
  then show ?thesis by (simp add: c)
qed

lemma listing_keys:
  assumes "\<forall>x \<in> set xs. node_ok x"
  shows "\<forall>(k, v) \<in> set (listing_reply xs). (\<forall>c \<in> set k. unreserved c) \<and> NUL \<notin> set v"
proof clarify
  fix k v
  assume "(k, v) \<in> set (listing_reply xs)"
  then consider "k = ''files''" "v = show_nat (length xs)"
    | i f where "i < length xs" "k = ''file'' @ show_nat i @ f" "(f, v) \<in> set (node_fields (xs ! i))"
    unfolding listing_reply_iff by blast
  then show "(\<forall>c \<in> set k. unreserved c) \<and> NUL \<notin> set v"
  proof cases
    case 1
    have "list_all unreserved ''files''" by code_simp
    with 1 show_int_no_NUL [of "int (length xs)"] show ?thesis by (simp add: list_all_iff show_int_def)
  next
    case (2 i f)
    have "list_all unreserved ''file''" by code_simp
    then show ?thesis
      using 2 field_key_facts(2) [OF node_fields_key [OF 2(3)]] show_nat_unreserved
        node_fields_no_NUL [OF _ 2(3)] assms by (auto simp: list_all_iff)
  qed
qed

lemma listing_table:
  assumes "\<forall>x \<in> set xs. node_ok x"
  shows "hash_get (reply_table (listing_reply xs)) ''files'' = Some (show_nat (length xs))"
    and "i < length xs \<Longrightarrow> (k, v) \<in> set (node_fields (xs ! i)) \<Longrightarrow>
      hash_get (reply_table (listing_reply xs)) (''file'' @ show_nat i @ k) = Some v"
proof -
  note get = hash_get_reply [OF listing_keys [OF assms]]
  show "hash_get (reply_table (listing_reply xs)) ''files'' = Some (show_nat (length xs))"
    using files_key by (intro get) (auto simp: listing_reply_iff)
  assume i: "i < length xs" and kv: "(k, v) \<in> set (node_fields (xs ! i))"
  show "hash_get (reply_table (listing_reply xs)) (''file'' @ show_nat i @ k) = Some v"
  proof (rule get)
    show "(''file'' @ show_nat i @ k, v) \<in> set (listing_reply xs)" using i kv by (auto simp: listing_reply_iff)
    have "v' = v" if "(''file'' @ show_nat i @ k, v') \<in> set (listing_reply xs)" for v'
    proof -
      note field = that
      obtain j f where "show_nat i @ k = show_nat j @ f" and f: "(f, v') \<in> set (node_fields (xs ! j))"
        using field files_key [of i k] by (auto simp: listing_reply_iff)
      then have "i = j \<and> k = f"
        using field_key_inj field_key_facts(1) [OF node_fields_key [OF f]] field_key_facts(1) [OF node_fields_key [OF kv]]
        by blast
      then show ?thesis using node_fields_same kv f by blast
    qed
    then show "\<forall>(k', v') \<in> set (listing_reply xs). k' = ''file'' @ show_nat i @ k \<longrightarrow> v' = v" by blast
  qed
qed

text \<open>Reading the fields of one node back.\<close>

lemma read_entry_node:
  assumes "atoi64_law E"
    and fields: "\<And>k v. (k, v) \<in> set (node_fields x) \<Longrightarrow> hash_get h (key @ k) = Some v"
  shows "read_entry E h (key @ ''.'') (zero_entry\<lparr>fe_name := hash_get h key\<rparr>) = (APR_SUCCESS, entry_of x)"
proof -
  obtain name secs nid node where x: "x = (name, secs, nid, node)" by (metis prod.exhaust)
  have nums: "apr_atoi64 E (show_word n) = n" for n using assms(1) by (simp add: atoi64_law_def)
  have common: "hash_get h key = Some name" "hash_get h (key @ ''.mtime'') = Some (show_word secs)"
    "hash_get h (key @ ''.nid'') = Some (show_word nid)"
    using fields [of "[]" name] fields [of "''.mtime''"] fields [of "''.nid''"] unfolding x by simp_all
  show ?thesis
  proof (cases node)
    case (File n)
    then have "hash_get h (key @ ''.type'') = Some ''F''" "hash_get h (key @ ''.size'') = Some (show_word n)"
      using fields unfolding x by simp_all
    then show ?thesis using common nums x File by (simp add: read_entry_def first_char_def Let_def)
  next
    case Directory
    then have "hash_get h (key @ ''.type'') = Some ''D''" using fields unfolding x by simp
    then show ?thesis using common nums x Directory by (simp add: read_entry_def first_char_def Let_def)
  next
    case (Symlink l)
    then have "hash_get h (key @ ''.type'') = Some ''L''" "hash_get h (key @ ''.link'') = Some l"
      using fields unfolding x by simp_all
    then show ?thesis using common nums x Symlink by (simp add: read_entry_def first_char_def Let_def)
  qed
qed

lemma list_entries_nodes:
  assumes "atoi64_law E" and "\<forall>x \<in> set xs. node_ok x" and "set poss \<subseteq> {..<length xs}"
  shows "list_entries E (reply_table (listing_reply xs)) poss = Some (map (\<lambda>i. entry_of (xs ! i)) poss)"
  using assms(3)
proof (induction poss)
  case (Cons i poss)
  let ?h = "reply_table (listing_reply xs)" and ?key = "''file'' @ show_nat i"
  have i: "i < length xs" using Cons.prems by simp
  have fields: "hash_get ?h (?key @ k) = Some v" if "(k, v) \<in> set (node_fields (xs ! i))" for k v
    using listing_table(2) [OF assms(2) i that] by simp
  obtain name where name: "hash_get ?h ?key = Some name"
    using fields [of "[]"] by (cases "xs ! i") auto
  show ?case
    using Cons read_entry_node [OF assms(1) fields] name by (simp add: Let_def)
qed simp

lemma listing_decoded:
  assumes "atoi64_law E" and "\<forall>x \<in> set xs. node_ok x" and "length xs < 32000"
  shows "entries_of_reply E (reply_table (listing_reply xs)) =
    (APR_SUCCESS, if xs = [] then None else Some (map entry_of xs), Some (int (length xs)))"
proof -
  have "list_entries E (reply_table (listing_reply xs)) [0..<length xs] = Some (map (\<lambda>i. entry_of (xs ! i)) [0..<length xs])"
    by (rule list_entries_nodes [OF assms(1,2)]) auto
  moreover have "map (\<lambda>i. entry_of (xs ! i)) [0..<length xs] = map entry_of xs"
    using arg_cong [OF map_nth [of xs], of "map entry_of"] by (simp add: comp_def)
  moreover have "show_nat 0 = ''0''" by code_simp
  ultimately show ?thesis
    using assms(3) listing_table(1) [OF assms(2)]
    by (simp add: entries_of_reply_def Let_def MAX_ALLOWED_DIRECTORY_ENTRIES_def)
qed

text \<open> C15: Every listing of fewer than 32000 nodes a tracker can describe is decoded as it was described:
  names, types, sizes, links, server ids and modification times; an empty directory gives the
  count 0 and no array. \<close>

theorem listing_roundtrip:
  assumes "atoi64_law E" and "\<forall>x \<in> set xs. node_ok x" and "length xs < 32000"
  shows "entries_of_reply E (reply_table (listing_reply xs)) =
    (APR_SUCCESS, if xs = [] then None else Some (map entry_of xs), Some (int (length xs)))"
  using assms by (rule listing_decoded)

lemma atoi_show_int: "atoi (show_int i) = i"
  by (simp add: show_int_def) (simp add: atoi_def isspace_def digits_value_show_nat)

lemma sim_atoi64_law: "atoi64_law sim_apr"
  by (simp add: atoi64_law_def sim_apr_def show_word_def atoi_show_int)

definition sample_nodes :: "named_node list" where
  "sample_nodes = [(''a'', 5, 1, File 7), (''d'', 5, 2, Directory), (''l'', 6, -1, Symlink ''a'')]"

lemma listing_roundtrip_witness:
  "entries_of_reply sim_apr (reply_table (listing_reply sample_nodes)) =
    (APR_SUCCESS, if sample_nodes = [] then None else Some (map entry_of sample_nodes), Some (int (length sample_nodes)))"
  by (rule listing_roundtrip [OF sim_atoi64_law]) (auto simp: node_ok_def sample_nodes_def)

lemma list_directory_typed_witness:
  "\<exists>es n fs' w'. mfs_list_directory sim_apr sim_http sample_fs ''d'' ''/'' 9 (tracker_says [listing_reply sample_nodes]) =
      Some ((APR_SUCCESS, es, n), fs', w')
    \<and> ((es = None \<and> n = Some 0)
      \<or> (\<exists>l. es = Some l \<and> n = Some (int (length l)) \<and> 0 < length l \<and> length l < 32000 \<and> (\<forall>e \<in> set l. entry_typed e)))"
proof -
  let ?kvs = "listing_reply sample_nodes" and ?w = "tracker_says [listing_reply sample_nodes]"
  let ?ps = "add_param ''argcount'' ''1'' (add_param ''arg1'' ''/'' (add_param ''domain'' ''d'' mfs_tracker_init_parameters))"
  have "take 6 (reply_text ?kvs) = ''files='' \<and> length (reply_text ?kvs) < 1000" by code_simp
  then have r: "take 6 (reply_text ?kvs) = ''files=''" "length (reply_text ?kvs) < 1000" by auto
  then have "hd (reply_text ?kvs) = CHR ''f''" by (cases "reply_text ?kvs") auto
  then have reply: "proper_reply ?kvs"
    using r(2) by (simp add: proper_reply_def ok_line_def fid_char_def isdigit_def MFS_READ_BUFFER_SIZE_def)
  have "sim_replies ?w = (APR_SUCCESS, ok_line ?kvs) # []" by (simp add: tracker_says_def)
  from sim_fs_request [OF sample_ready this reply, of sim_http "''plugin_filepaths_list_directory''" ?ps 9] obtain fs' w' where
    req: "fs_request sim_apr sim_http sample_fs ''plugin_filepaths_list_directory'' ?ps 9 ?w =
      Some ((APR_SUCCESS, True, Map.empty ++ reply_table ?kvs), fs', w')" by blast
  obtain es n where "entries_of_reply sim_apr (Map.empty ++ reply_table ?kvs) = (APR_SUCCESS, es, n)"
    using listing_decoded [OF sim_atoi64_law, of sample_nodes] by (auto simp: node_ok_def sample_nodes_def)
  then have run: "mfs_list_directory sim_apr sim_http sample_fs ''d'' ''/'' 9 ?w = Some ((APR_SUCCESS, es, n), fs', w')"
    by (simp add: mfs_list_directory_def Let_def req)
  have "fs_sound sim_apr sim_live {} sample_fs ?w" using sample_ready by (simp add: sim_ready_def)
  from list_directory_typed [OF this run] run show ?thesis by blast
qed

end
