(* ===== verification/Upload.thy ===== *)
theory Upload
  imports FileFacts
begin

text \<open>
  Storing a file, \<open>src/src/file_upload.c\<close>: the callbacks curl calls while it sends a body, one
  transfer to a file server, and the loop that asks the tracker where to put the file, puts it
  there and tells the tracker.
\<close>

section \<open>The progress callback\<close>

text \<open>
  The totals are byte counts that C holds in a \<open>double\<close>; the callback is compiled but no longer
  installed.
\<close>

record mfs_timeout_tracker =
  tt_start_time :: int
  tt_last_transferred_at :: int
  tt_timeout :: int
  tt_last_transfer_total :: int

definition mfs_curl_upload_timeout_checker ::
  "'w apr \<Rightarrow> mfs_timeout_tracker \<Rightarrow> int \<Rightarrow> 'w \<Rightarrow> (int \<times> mfs_timeout_tracker) \<times> 'w" where
  "mfs_curl_upload_timeout_checker E tt ultotal w =
     (let amount = ultotal - tt_last_transfer_total tt;
          tt = tt\<lparr>tt_last_transfer_total := ultotal\<rparr>
      in case apr_time_now E w of (now, w) \<Rightarrow>
           if amount > 0 then ((0, tt\<lparr>tt_last_transferred_at := now\<rparr>), w)
           else let elapsed = now - tt_start_time tt
                in if tt_last_transferred_at tt = 0 then
                     ((if elapsed \<ge> tt_timeout tt * 2 then -1 else 0, tt), w)
                   else ((if elapsed \<ge> tt_timeout tt then -1 else 0, tt), w))"

section \<open>Callbacks that feed curl\<close>

record mfs_read_buffer =
  rb_buffer :: string
  rb_length :: "64 word"
  rb_pos :: "64 word"

text \<open>The bytes copied to \<open>ptr\<close>; their number is what the callback returns.\<close>

definition mfs_buffer_put_read_callback ::
  "64 word \<Rightarrow> 64 word \<Rightarrow> mfs_read_buffer \<Rightarrow> string \<times> mfs_read_buffer" where
  "mfs_buffer_put_read_callback sz nmemb rbuf =
     (let rem_size = rb_length rbuf - rb_pos rbuf
      in if rem_size = 0 then ([], rbuf)
         else let req_size = sz * nmemb;
                  retcode = (if rem_size > req_size then req_size else rem_size)
              in (take (unat retcode) (drop (unat (rb_pos rbuf)) (rb_buffer rbuf)),
                  rbuf\<lparr>rb_pos := rb_pos rbuf + retcode\<rparr>))"

text \<open>\<open>None\<close> is \<open>CURL_READFUNC_ABORT\<close>.\<close>

definition mfs_file_put_read_callback ::
  "'w http \<Rightarrow> 64 word \<Rightarrow> 64 word \<Rightarrow> handle \<Rightarrow> 'w \<Rightarrow> string option \<times> 'w" where
  "mfs_file_put_read_callback F sz nmemb file w =
     (case apr_file_read F file (unat (sz * nmemb)) w of ((rv, b), w) \<Rightarrow>
        if rv \<noteq> APR_SUCCESS then (if rv = APR_EOF then (Some [], w) else (None, w))
        else (Some b, w))"

definition mfs_buffer_put_write_callback :: "nat \<Rightarrow> nat \<Rightarrow> nat" where
  "mfs_buffer_put_write_callback sz nmemb = sz * nmemb"

definition CURL_SEEKFUNC_CANTSEEK :: int where "CURL_SEEKFUNC_CANTSEEK = 2"

definition mfs_buffer_put_read_seek :: "int \<Rightarrow> int \<Rightarrow> int" where
  "mfs_buffer_put_read_seek offset origin = CURL_SEEKFUNC_CANTSEEK"

section \<open>One transfer\<close>

text \<open>What \<open>CURLOPT_READFUNCTION\<close> and \<open>CURLOPT_READDATA\<close> are set to.\<close>

datatype upload_source = From_buffer mfs_read_buffer | From_file handle

definition put_read ::
  "'w http \<Rightarrow> nat \<Rightarrow> nat \<Rightarrow> upload_source \<Rightarrow> 'w \<Rightarrow> string option \<times> upload_source \<times> 'w" where
  "put_read F sz nmemb src w =
     (case src of
        From_buffer rbuf \<Rightarrow>
          (case mfs_buffer_put_read_callback (of_nat sz) (of_nat nmemb) rbuf of
             (b, rbuf) \<Rightarrow> (Some b, From_buffer rbuf, w))
      | From_file file \<Rightarrow>
          (case mfs_file_put_read_callback F (of_nat sz) (of_nat nmemb) file w of
             (b, w) \<Rightarrow> (b, From_file file, w)))"

text \<open>\<open>curl_easy_perform\<close> with these callbacks.\<close>

partial_function (option) perform_put ::
  "'w http \<Rightarrow> handle \<Rightarrow> upload_source \<Rightarrow> 'w \<Rightarrow> (CURLcode \<times> 'w) option" where
  "perform_put F conn src w =
     (case curl_put_event F conn w of
        (Put_done res, w) \<Rightarrow> Some (res, w)
      | (Put_body b, w) \<Rightarrow>
          perform_put F conn src (curl_get_reply F conn (mfs_buffer_put_write_callback 1 (length b)) w)
      | (Want_data sz nmemb, w) \<Rightarrow>
          (case put_read F sz nmemb src w of
             (b, src, w) \<Rightarrow> perform_put F conn src (curl_put_reply F conn b w)))"

definition put_options :: "mfs_file_system \<Rightarrow> string \<Rightarrow> curl_option list" where
  "put_options fs original_uri =
     [CURLOPT_URL original_uri, CURLOPT_UPLOAD 1, CURLOPT_PUT 1,
      CURLOPT_WRITEFUNCTION Buffer_put_write, CURLOPT_WRITEDATA False,
      CURLOPT_SEEKFUNCTION Buffer_put_seek, CURLOPT_SEEKDATA False,
      CURLOPT_CONNECTTIMEOUT_MS (fs_file_server_timeout fs div 1000),
      CURLOPT_UPLOAD_BUFFERSIZE 524288, CURLOPT_LOW_SPEED_TIME 60, CURLOPT_LOW_SPEED_LIMIT 30,
      CURLOPT_NOSIGNAL 1]"

definition set_options :: "'w http \<Rightarrow> handle \<Rightarrow> curl_option list \<Rightarrow> 'w \<Rightarrow> 'w" where
  "set_options F conn opts w = fold (curl_easy_setopt F conn) opts w"

text \<open>What is stored: the bytes or the file the caller passes, the other pointer being NULL.\<close>

datatype upload_body = Body_bytes string | Body_file handle

text \<open>
  The part after a connection was acquired. For bytes the count the caller gives is taken to be
  that of the bytes: more would be read from behind them. The results are the status and \<open>*total_bytes\<close>.
  Failing to get the size of the file returns at once, with the connection neither released nor
  invalidated.
\<close>

definition put_source ::
  "'w http \<Rightarrow> handle \<Rightarrow> upload_body \<Rightarrow> int \<Rightarrow> 'w \<Rightarrow> (apr_status \<times> upload_source \<times> int) \<times> 'w" where
  "put_source F conn body total_bytes w =
     (case body of
        Body_bytes b \<Rightarrow>
          ((APR_SUCCESS, From_buffer \<lparr>rb_buffer = b, rb_length = word_of_int total_bytes, rb_pos = 0\<rparr>, total_bytes),
           set_options F conn [CURLOPT_READFUNCTION (Some Buffer_put_read), CURLOPT_READDATA True] w)
      | Body_file file \<Rightarrow>
          (case (if total_bytes = -1 then apr_file_size F file w else ((APR_SUCCESS, total_bytes), w)) of
             ((rv, sz), w) \<Rightarrow>
               if rv \<noteq> APR_SUCCESS then ((APR_ENOSTAT, From_file file, total_bytes), w)
               else ((APR_SUCCESS, From_file file, sz),
                     set_options F conn [CURLOPT_READFUNCTION (Some File_put_read), CURLOPT_READDATA True] w)))"

definition put_over ::
  "'w http \<Rightarrow> mfs_file_system \<Rightarrow> handle \<Rightarrow> handle \<Rightarrow> string \<Rightarrow> upload_body \<Rightarrow> int \<Rightarrow> 'w \<Rightarrow>
     ((apr_status \<times> int) \<times> 'w) option" where
  "put_over F fs reslist conn original_uri body total_bytes w =
     (case put_source F conn body total_bytes (set_options F conn (put_options fs original_uri) w) of
        ((rv, src, total_bytes), w) \<Rightarrow>
          if rv \<noteq> APR_SUCCESS then Some ((rv, total_bytes), w)
          else Option.bind (perform_put F conn src
                  (set_options F conn [CURLOPT_HTTPHEADER [''Expect:''], CURLOPT_INFILESIZE_LARGE total_bytes] w))
            (\<lambda>(res, w).
              let w = set_options F conn [CURLOPT_HTTPHEADER []] w
              in if res \<noteq> CURLE_OK then
                   (case apr_reslist_invalidate F reslist conn w of (rv, w) \<Rightarrow>
                      Some ((if rv \<noteq> APR_SUCCESS then rv else APR_EGENERAL, total_bytes), w))
                 else (case apr_reslist_release F reslist conn w of (rv, w) \<Rightarrow>
                         Some ((APR_SUCCESS, total_bytes), w))))"

text \<open>
  \<open>(rv = mfs_get_file_server(...) != APR_SUCCESS)\<close> stores the comparison, so a failure is
  returned as the status 1.
\<close>

definition mfs_file_server_put ::
  "'w apr \<Rightarrow> 'w http \<Rightarrow> mfs_file_system \<Rightarrow> string \<Rightarrow> string \<Rightarrow> upload_body \<Rightarrow> int \<Rightarrow> 'w \<Rightarrow>
     ((apr_status \<times> int) \<times> mfs_file_system \<times> 'w) option" where
  "mfs_file_server_put E F fs hostinfo original_uri body total_bytes w =
     Option.bind (mfs_get_file_server E F fs hostinfo w) (\<lambda>((rv, server), fs, w).
       if rv \<noteq> APR_SUCCESS then Some ((APR_OTHER 1, total_bytes), fs, w)
       else case server of
         None \<Rightarrow> None
       | Some server \<Rightarrow>
           (case apr_reslist_acquire F (fsv_connections server) w of ((rv, conn), w) \<Rightarrow>
              if rv \<noteq> APR_SUCCESS then Some ((rv, total_bytes), fs, w)
              else map_option (\<lambda>(r, w). (r, fs, w))
                     (put_over F fs (fsv_connections server) conn original_uri body total_bytes w)))"

section \<open>Storing\<close>

text \<open>
  The variables the loop changes. \<open>put_url\<close>, \<open>fid\<close> and \<open>devid\<close> are not initialised; they
  are read only after a reply has set all three. What a reply that lacks one of them stores is
  never read, because the next attempt asks the tracker again, so the model does not store it.
\<close>

record 'w store_state =
  so_rv :: apr_status
  so_call_tracker :: bool
  so_put_url :: string
  so_fid :: string
  so_devid :: string
  so_ok :: bool
  so_result :: apr_hash
  so_total_bytes :: int
  so_fs :: mfs_file_system
  so_world :: 'w

definition open_params ::
  "string \<Rightarrow> string \<Rightarrow> string \<Rightarrow> tracker_request_parameters option \<Rightarrow> tracker_request_parameters" where
  "open_params domain key storage_class extra_open_parameters =
     (let params = mfs_tracker_init_parameters;
          params = (case extra_open_parameters of None \<Rightarrow> params
                    | Some extra \<Rightarrow> mfs_tracker_copy_parameter_pointers extra params);
          params = add_param ''domain'' domain params;
          params = add_param ''class'' storage_class params
      in add_param ''key'' key params)"

text \<open>Asking the tracker for a place, every other attempt.\<close>

definition store_open ::
  "'w apr \<Rightarrow> handle \<Rightarrow> tracker_request_parameters \<Rightarrow> 'w store_state \<Rightarrow> 'w store_state option" where
  "store_open E pool params s =
     (if so_call_tracker s then
        Option.bind (fs_ask E (so_fs s) ''create_open'' params (so_ok s) (so_result s) pool (so_world s))
          (\<lambda>((rv, ok, result), fs, w).
            let s = s\<lparr>so_ok := ok, so_result := result, so_fs := fs, so_world := w\<rparr>
            in Some (if rv \<noteq> APR_SUCCESS then s\<lparr>so_rv := rv\<rparr>
                     else if \<not> ok then s\<lparr>so_rv := APR_EGENERAL\<rparr>
                     else case (hash_get result ''path'', hash_get result ''fid'', hash_get result ''devid'') of
                            (Some path, Some fid, Some devid) \<Rightarrow>
                              s\<lparr>so_rv := APR_SUCCESS, so_put_url := path, so_fid := fid, so_devid := devid,
                                so_call_tracker := False\<rparr>
                          | _ \<Rightarrow> s\<lparr>so_rv := APR_EGENERAL\<rparr>))
      else Some (s\<lparr>so_rv := APR_SUCCESS, so_call_tracker := True\<rparr>))"

text \<open>
  Putting the file there. \<open>Inl\<close> is the return from inside the loop when the file cannot be
  rewound.
\<close>

definition store_put ::
  "'w apr \<Rightarrow> 'w http \<Rightarrow> upload_body \<Rightarrow> 'w store_state \<Rightarrow> ('w store_state + 'w store_state) option" where
  "store_put E F body s =
     (case apr_uri_parse F (so_put_url s) of (rv, uri) \<Rightarrow>
        if rv \<noteq> APR_SUCCESS then Some (Inr (s\<lparr>so_rv := APR_EGENERAL\<rparr>))
        else case (u_hostinfo uri, u_scheme uri, u_path uri) of
          (Some hostinfo, Some _, Some _) \<Rightarrow>
            (case (case body of Body_bytes _ \<Rightarrow> (APR_SUCCESS, so_world s)
                   | Body_file file \<Rightarrow> apr_file_seek_start F file (so_world s)) of (rv, w) \<Rightarrow>
               if rv \<noteq> APR_SUCCESS then Some (Inl (s\<lparr>so_rv := rv, so_world := w\<rparr>))
               else map_option (\<lambda>((rv, total_bytes), fs, w).
                        Inr (s\<lparr>so_rv := rv, so_total_bytes := total_bytes, so_fs := fs, so_world := w\<rparr>))
                      (mfs_file_server_put E F (so_fs s) hostinfo (so_put_url s) body (so_total_bytes s) w))
        | _ \<Rightarrow> Some (Inr (s\<lparr>so_rv := APR_EGENERAL\<rparr>)))"

definition close_params ::
  "string \<Rightarrow> string \<Rightarrow> tracker_request_parameters option \<Rightarrow> 'w store_state \<Rightarrow> tracker_request_parameters" where
  "close_params domain key extra_close_parameters s =
     (let params = mfs_tracker_init_parameters;
          params = (case extra_close_parameters of None \<Rightarrow> params
                    | Some extra \<Rightarrow> mfs_tracker_copy_parameter_pointers extra params);
          params = add_param ''fid'' (so_fid s) params;
          params = add_param ''devid'' (so_devid s) params;
          params = add_param ''size'' (show_int (so_total_bytes s)) params;
          params = add_param ''domain'' domain params;
          params = add_param ''path'' (so_put_url s) params;
          params = add_param ''key'' key params
      in add_client_id (so_fs s) params)"

text \<open>Telling the tracker.\<close>

definition store_close ::
  "'w apr \<Rightarrow> handle \<Rightarrow> string \<Rightarrow> string \<Rightarrow> tracker_request_parameters option \<Rightarrow> 'w store_state \<Rightarrow> 'w store_state option" where
  "store_close E pool domain key extra_close_parameters s =
     Option.bind (fs_ask E (so_fs s) ''create_close'' (close_params domain key extra_close_parameters s)
                    (so_ok s) (so_result s) pool (so_world s))
       (\<lambda>((rv, ok, result), fs, w).
         Some (s\<lparr>so_rv := tracker_status rv ok, so_ok := ok, so_result := result, so_fs := fs, so_world := w\<rparr>))"

text \<open>One turn of the loop, up to the pause before the next.\<close>

definition store_attempt ::
  "'w apr \<Rightarrow> 'w http \<Rightarrow> handle \<Rightarrow> string \<Rightarrow> string \<Rightarrow> tracker_request_parameters \<Rightarrow>
     tracker_request_parameters option \<Rightarrow> upload_body \<Rightarrow> 'w store_state \<Rightarrow> ('w store_state + 'w store_state) option" where
  "store_attempt E F pool domain key params extra_close_parameters body s =
     Option.bind (store_open E pool params s) (\<lambda>s.
       Option.bind (if so_rv s = APR_SUCCESS then store_put E F body s else Some (Inr s)) (\<lambda>r.
         case r of
           Inl s \<Rightarrow> Some (Inl s)
         | Inr s \<Rightarrow>
             if so_rv s = APR_SUCCESS then map_option Inr (store_close E pool domain key extra_close_parameters s)
             else Some (Inr s)))"

text \<open>The loop, by the number of attempts left.\<close>

fun store_loop ::
  "'w apr \<Rightarrow> 'w http \<Rightarrow> handle \<Rightarrow> string \<Rightarrow> string \<Rightarrow> tracker_request_parameters \<Rightarrow>
     tracker_request_parameters option \<Rightarrow> upload_body \<Rightarrow> nat \<Rightarrow> 'w store_state \<Rightarrow> ('w store_state + 'w store_state) option" where
  "store_loop E F pool domain key params extra body 0 s = Some (Inr s)"
| "store_loop E F pool domain key params extra body (Suc attempts) s =
     Option.bind (store_attempt E F pool domain key params extra body s) (\<lambda>r.
       case r of
         Inl s \<Rightarrow> Some (Inl s)
       | Inr s \<Rightarrow>
           if so_rv s = APR_SUCCESS then Some (Inr s)
           else let s = (if attempts > 0
                         then s\<lparr>so_world := apr_sleep E (fs_retry_timeout (so_fs s)) (so_world s)\<rparr> else s)
                in store_loop E F pool domain key params extra body attempts s)"

text \<open>
  \<open>pool\<close> is \<open>None\<close> for NULL; a pool the function creates is destroyed at the end, but not by the
  return from inside the loop.
\<close>

definition mfs_store_file_or_bytes ::
  "'w apr \<Rightarrow> 'w http \<Rightarrow> mfs_file_system \<Rightarrow> string \<Rightarrow> string \<Rightarrow> string \<Rightarrow> handle option \<Rightarrow> upload_body \<Rightarrow> int \<Rightarrow>
     tracker_request_parameters option \<Rightarrow> tracker_request_parameters option \<Rightarrow> 'w \<Rightarrow>
     (apr_status \<times> mfs_file_system \<times> 'w) option" where
  "mfs_store_file_or_bytes E F fs domain key storage_class pool body total_bytes extra_open extra_close w =
     (case (case pool of Some q \<Rightarrow> ((APR_SUCCESS, q), w) | None \<Rightarrow> apr_pool_create E w) of ((rv, q), w) \<Rightarrow>
        if rv \<noteq> APR_SUCCESS then Some (rv, fs, w)
        else map_option (\<lambda>r.
            case r of
              Inl s \<Rightarrow> (so_rv s, so_fs s, so_world s)
            | Inr s \<Rightarrow> (so_rv s, so_fs s, if pool = None then apr_pool_destroy E q (so_world s) else so_world s))
          (store_loop E F q domain key (open_params domain key storage_class extra_open) extra_close body
             (nat (fs_max_retries fs))
             \<lparr>so_rv = APR_EGENERAL, so_call_tracker = True, so_put_url = [], so_fid = [], so_devid = [],
              so_ok = c_stack_bool F, so_result = Map.empty, so_total_bytes = total_bytes, so_fs = fs, so_world = w\<rparr>))"

section \<open>The interface\<close>

definition mfs_store_bytes_ex where
  "mfs_store_bytes_ex E F fs domain key storage_class pool bytes total_bytes extra_open extra_close w =
     mfs_store_file_or_bytes E F fs domain key storage_class pool (Body_bytes bytes) total_bytes extra_open extra_close w"

definition mtime_params :: "64 word \<Rightarrow> tracker_request_parameters" where
  "mtime_params mtime = add_param ''mtime'' (show_int (apr_time_sec mtime)) mfs_tracker_init_parameters"

definition mfs_store_bytes_filepath where
  "mfs_store_bytes_filepath E F fs domain key storage_class pool bytes total_bytes mtime w =
     mfs_store_file_or_bytes E F fs domain key storage_class (Some pool) (Body_bytes bytes) total_bytes None
       (Some (mtime_params mtime)) w"

definition mfs_store_bytes where
  "mfs_store_bytes E F fs domain key storage_class pool bytes total_bytes w =
     mfs_store_file_or_bytes E F fs domain key storage_class pool (Body_bytes bytes) total_bytes None None w"

definition mfs_store_file_ex where
  "mfs_store_file_ex E F fs domain key storage_class pool file extra_open extra_close w =
     mfs_store_file_or_bytes E F fs domain key storage_class pool (Body_file file) (-1) extra_open extra_close w"

definition mfs_store_file_filepath where
  "mfs_store_file_filepath E F fs domain key storage_class pool file mtime w =
     mfs_store_file_or_bytes E F fs domain key storage_class (Some pool) (Body_file file) (-1) None
       (Some (mtime_params mtime)) w"

definition mfs_store_file where
  "mfs_store_file E F fs domain key storage_class pool file w =
     mfs_store_file_or_bytes E F fs domain key storage_class pool (Body_file file) (-1) None None w"

section \<open>Options on the scripted network\<close>

text \<open>The scripted network ignores options.\<close>

lemma sim_set_options: "set_options sim_http conn opts w = w"
  unfolding set_options_def by (induction opts) (simp_all add: sim_http_def)

end
