(* ===== verification/UploadFacts.thy ===== *)
theory UploadFacts
  imports Upload
begin

text \<open>
  What storing guarantees: it returns and keeps the connections, a success was acknowledged by the
  tracker after a complete transfer, and the read callback hands out exactly the caller's bytes.
\<close>

section \<open>The read callback\<close>

text \<open>The callback, called with a sequence of sizes.\<close>

fun put_reads :: "(64 word \<times> 64 word) list \<Rightarrow> mfs_read_buffer \<Rightarrow> string list \<times> mfs_read_buffer" where
  "put_reads [] rbuf = ([], rbuf)"
| "put_reads ((sz, nmemb) # reqs) rbuf =
     (case mfs_buffer_put_read_callback sz nmemb rbuf of (b, rbuf) \<Rightarrow>
        case put_reads reqs rbuf of (bs, rbuf) \<Rightarrow> (b # bs, rbuf))"

definition rbuf_ok :: "mfs_read_buffer \<Rightarrow> bool" where
  "rbuf_ok rbuf \<longleftrightarrow> unat (rb_length rbuf) = length (rb_buffer rbuf) \<and> rb_pos rbuf \<le> rb_length rbuf"

definition rest_of :: "mfs_read_buffer \<Rightarrow> string" where
  "rest_of rbuf = drop (unat (rb_pos rbuf)) (rb_buffer rbuf)"

lemma read_callback_piece:
  assumes "rbuf_ok rbuf" and "mfs_buffer_put_read_callback sz nmemb rbuf = (b, rbuf')"
  shows "rbuf_ok rbuf'" and "rest_of rbuf = b @ rest_of rbuf'"
    and "length b = min (unat (sz * nmemb)) (length (rest_of rbuf))"
proof -
  let ?rem = "rb_length rbuf - rb_pos rbuf" and ?req = "sz * nmemb"
  let ?n = "min ?rem ?req"
  have rem: "unat ?rem = length (rest_of rbuf)" and pos: "unat (rb_pos rbuf) \<le> length (rb_buffer rbuf)"
    using assms(1) by (simp_all add: rbuf_ok_def rest_of_def unat_sub word_le_nat_alt)
  have n: "unat ?n = min (unat ?req) (length (rest_of rbuf))"
    using rem by (simp add: min_def word_le_nat_alt)
  have r: "b = take (unat ?n) (rest_of rbuf) \<and> rbuf' = rbuf\<lparr>rb_pos := rb_pos rbuf + ?n\<rparr>"
  proof (cases "?rem = 0")
    case True
    then have "?n = 0" by (simp add: min_def)
    with True assms(2) show ?thesis by (simp add: mfs_buffer_put_read_callback_def Let_def)
  next
    case False
    have "(if ?rem > ?req then ?req else ?rem) = ?n" by (auto simp: min_def not_less)
    with False assms(2) show ?thesis
      by (simp add: mfs_buffer_put_read_callback_def Let_def rest_of_def)
  qed
  have "unat (rb_pos rbuf) + unat ?n \<le> length (rb_buffer rbuf)"
    using n pos by (simp add: rest_of_def)
  moreover have "unat (rb_length rbuf) = length (rb_buffer rbuf)" using assms(1) by (simp add: rbuf_ok_def)
  moreover have "unat (rb_length rbuf) < 2 ^ 64" using unsigned_less [of "rb_length rbuf"] by simp
  ultimately have sum: "unat (rb_pos rbuf + ?n) = unat (rb_pos rbuf) + unat ?n"
    by (simp add: unat_add_lem [THEN iffD1])
  show "rbuf_ok rbuf'"
    using r sum \<open>unat (rb_pos rbuf) + unat ?n \<le> _\<close> assms(1) by (simp add: rbuf_ok_def word_le_nat_alt)
  show "rest_of rbuf = b @ rest_of rbuf'"
    using r sum by (simp add: rest_of_def flip: drop_drop) (metis add.commute append_take_drop_id drop_drop)
  show "length b = min (unat ?req) (length (rest_of rbuf))" using r n by simp
qed

lemma put_reads_pieces:
  assumes "rbuf_ok rbuf" and "put_reads reqs rbuf = (bs, rbuf')"
  shows "rbuf_ok rbuf' \<and> rest_of rbuf = concat bs @ rest_of rbuf' \<and> length bs = length reqs
    \<and> (\<forall>i < length reqs. length (bs ! i) \<le> unat (fst (reqs ! i) * snd (reqs ! i))
        \<and> (bs ! i = [] \<and> fst (reqs ! i) * snd (reqs ! i) \<noteq> 0 \<longrightarrow> concat (take i bs) = rest_of rbuf))"
  using assms
proof (induction reqs arbitrary: rbuf bs)
  case (Cons r reqs)
  obtain sz nmemb where r: "r = (sz, nmemb)" by force
  obtain b rbuf1 where call: "mfs_buffer_put_read_callback sz nmemb rbuf = (b, rbuf1)" by force
  note piece = read_callback_piece [OF Cons.prems(1) call]
  obtain bs1 where rec: "put_reads reqs rbuf1 = (bs1, rbuf')" and bs: "bs = b # bs1"
    using Cons.prems(2) call r by (auto split: prod.splits)
  note IH = Cons.IH [OF piece(1) rec]
  have "length ((b # bs1) ! i) \<le> unat (fst ((r # reqs) ! i) * snd ((r # reqs) ! i))
      \<and> ((b # bs1) ! i = [] \<and> fst ((r # reqs) ! i) * snd ((r # reqs) ! i) \<noteq> 0 \<longrightarrow> concat (take i (b # bs1)) = rest_of rbuf)"
    if "i < length (r # reqs)" for i
  proof (cases i)
    case 0
    have "rest_of rbuf = []" if "b = []" "sz * nmemb \<noteq> 0"
      using piece(3) that by (simp add: min_def unat_eq_zero split: if_splits)
    then show ?thesis using piece(3) 0 r by simp
  next
    case (Suc j)
    then show ?thesis using IH that piece(2) r by auto
  qed
  with IH piece(2) bs show ?case by auto
qed (simp add: rest_of_def)

text \<open> C21: Whatever sizes curl asks for, the read callback hands out the caller's bytes in order, each
  once: what was delivered followed by what is left is always the buffer, no piece is longer than
  the room curl has, and an empty piece for a nonzero request means that everything was sent. \<close>

theorem put_reads_exact:
  assumes "length bytes < 2 ^ 64"
    and "put_reads reqs \<lparr>rb_buffer = bytes, rb_length = of_nat (length bytes), rb_pos = 0\<rparr> = (bs, rbuf)"
  shows "concat bs @ drop (unat (rb_pos rbuf)) bytes = bytes \<and> length bs = length reqs
    \<and> (\<forall>i < length reqs. length (bs ! i) \<le> unat (fst (reqs ! i) * snd (reqs ! i))
        \<and> (bs ! i = [] \<and> fst (reqs ! i) * snd (reqs ! i) \<noteq> 0 \<longrightarrow> concat (take i bs) = bytes))"
proof -
  let ?r = "\<lparr>rb_buffer = bytes, rb_length = of_nat (length bytes), rb_pos = 0 :: 64 word\<rparr>"
  have "rbuf_ok ?r" using assms(1) by (simp add: rbuf_ok_def unat_of_nat)
  from put_reads_pieces [OF this assms(2)] have "rest_of ?r = concat bs @ rest_of rbuf" by blast
  moreover have "rb_buffer rbuf = bytes"
  proof -
    have "rb_buffer r' = rb_buffer r" if "put_reads reqs r = (bs, r')" for r r' bs
      using that
      by (induction reqs arbitrary: r bs)
         (auto simp: mfs_buffer_put_read_callback_def Let_def split: prod.splits if_splits)
    from this [OF assms(2)] show ?thesis by simp
  qed
  ultimately show ?thesis using put_reads_pieces [OF \<open>rbuf_ok ?r\<close> assms(2)] by (simp add: rest_of_def)
qed

theorem put_reads_exact_witness:
  "length ''hello'' < 2 ^ 64
   \<and> put_reads [(1, 2), (2, 2), (1, 4)] \<lparr>rb_buffer = ''hello'', rb_length = of_nat (length ''hello''), rb_pos = 0\<rparr> =
      ([''he'', ''llo'', []], \<lparr>rb_buffer = ''hello'', rb_length = 5, rb_pos = 5\<rparr>)
   \<and> concat (take 2 [''he'', ''llo'', []]) = ''hello''"
proof -
  have run: "put_reads [(1, 2), (2, 2), (1, 4)] \<lparr>rb_buffer = ''hello'', rb_length = of_nat (length ''hello''), rb_pos = 0\<rparr> =
      ([''he'', ''llo'', []], \<lparr>rb_buffer = ''hello'', rb_length = 5, rb_pos = 5\<rparr>)" by code_simp
  have len: "length ''hello'' < 2 ^ 64" by simp
  from put_reads_exact [OF len run, THEN conjunct2, THEN conjunct2, rule_format, of 2] run len show ?thesis by simp
qed

section \<open>Storing returns\<close>

text \<open>The file system's lock can always be taken; every transfer of curl comes to an end.\<close>

definition locks_work :: "'w apr \<Rightarrow> bool" where
  "locks_work E \<longleftrightarrow> (\<forall>l w. fst (apr_thread_rwlock_rdlock E l w) = APR_SUCCESS \<and> fst (apr_thread_rwlock_wrlock E l w) = APR_SUCCESS)"

definition transfers_end :: "'w http \<Rightarrow> bool" where
  "transfers_end F \<longleftrightarrow> (\<forall>conn src w. perform_put F conn src w \<noteq> None)"

text \<open>Nothing but the table of servers has changed.\<close>

definition only_servers :: "mfs_file_system \<Rightarrow> mfs_file_system \<Rightarrow> bool" where
  "only_servers fs fs' \<longleftrightarrow> (\<exists>servers. fs' = fs\<lparr>fs_file_servers := servers\<rparr>)"

lemma only_servers [simp]: "only_servers fs fs" "only_servers fs (fs\<lparr>fs_file_servers := servers\<rparr>)"
  unfolding only_servers_def by (rule exI [of _ "fs_file_servers fs"], simp) blast

lemma get_file_server_total:
  assumes "locks_work E"
  shows "\<exists>st so fs' w'. mfs_get_file_server E F fs h w = Some ((st, so), fs', w') \<and> (st = APR_SUCCESS \<longrightarrow> so \<noteq> None)"
proof -
  obtain w1 where l: "apr_thread_rwlock_rdlock E (fs_lock fs) w = (APR_SUCCESS, w1)"
    using assms by (metis locks_work_def prod.collapse)
  obtain w2 where look: "lookup_file_server E fs h w = Some (fs_file_servers fs h, w2)"
    by (cases "apr_thread_rwlock_unlock E (fs_lock fs) w1") (simp add: lookup_file_server_def l)
  obtain w3 where l2: "apr_thread_rwlock_wrlock E (fs_lock fs) w2 = (APR_SUCCESS, w3)"
    using assms by (metis locks_work_def prod.collapse)
  show ?thesis
    by (auto simp: mfs_get_file_server_def look add_file_server_def l2 Let_def split: option.splits prod.splits)
qed

lemma get_file_server_frame:
  assumes "pool_law E live" and "http_law F live" and "mfs_get_file_server E F fs h w = Some (r, fs', w')"
  shows "live w' = live w" and "only_servers fs fs'"
proof -
  note frames = live_frames(8-10) [OF assms(1)] http_frames(6) [OF assms(2)]
  obtain so w1 where look: "lookup_file_server E fs h w = Some (so, w1)"
    using assms(3) by (auto simp: mfs_get_file_server_def split: bind_splits)
  have w1: "live w1 = live w"
    using look frames(1,3) by (auto simp: lookup_file_server_def split: prod.splits if_splits)
  have "live w' = live w1 \<and> only_servers fs fs'"
  proof (cases so)
    case None
    then have add: "add_file_server E F fs h w1 = Some (r, fs', w')" using assms(3) look by (simp add: mfs_get_file_server_def)
    obtain st2 w2 where l2: "apr_thread_rwlock_wrlock E (fs_lock fs) w1 = (st2, w2)" by force
    obtain st3 r3 w3 where cr: "apr_reslist_create F w2 = ((st3, r3), w3)" by (metis prod.exhaust)
    obtain st4 w4 where u4: "apr_thread_rwlock_unlock E (fs_lock fs) w3 = (st4, w4)" by force
    obtain st5 w5 where u5: "apr_thread_rwlock_unlock E (fs_lock fs) w2 = (st5, w5)" by force
    show ?thesis
      using add frames(2) [OF l2] frames(4) [OF cr] frames(3) [OF u4] frames(3) [OF u5]
      by (auto simp: add_file_server_def l2 cr u4 u5 Let_def split: option.splits if_splits)
  qed (use assms(3) look in \<open>simp add: mfs_get_file_server_def\<close>)
  with w1 show "live w' = live w" "only_servers fs fs'" by simp_all
qed

lemma set_options_live: "http_law F live \<Longrightarrow> live (set_options F conn opts w) = live w"
  unfolding set_options_def by (induction opts arbitrary: w) (simp_all add: http_frames(1))

lemma put_read_live: "http_law F live \<Longrightarrow> put_read F sz nmemb src w = (b, src', w') \<Longrightarrow> live w' = live w"
  using http_frames(11) [of F live]
  by (auto simp: put_read_def mfs_file_put_read_callback_def split: upload_source.splits prod.splits if_splits)

lemma perform_put_live:
  assumes "http_law F live" and "perform_put F conn src w = Some (res, w')"
  shows "live w' = live w"
proof -
  have "case y of (res, w') \<Rightarrow> live w' = live w" if "perform_put F conn src w = Some y" for y
  proof (rule perform_put.raw_induct [where P = "\<lambda>F' conn src w y. F' = F \<longrightarrow> (case y of (res, w') \<Rightarrow> live w' = live w)",
      THEN mp, OF _ that refl], goal_cases)
    case (1 f F' conn src w y)
    show ?case
    proof
      assume F': "F' = F"
      obtain e w1 where ev: "curl_put_event F conn w = (e, w1)" by force
      note w1 = http_frames(2) [OF assms(1) ev]
      show "case y of (res, w') \<Rightarrow> live w' = live w"
      proof (cases e)
        case (Want_data sz nmemb)
        obtain b src2 w2 where rd: "put_read F sz nmemb src w1 = (b, src2, w2)" by (metis prod.exhaust)
        show ?thesis
          using 1 [unfolded F'] ev Want_data rd w1 put_read_live [OF assms(1) rd] http_frames(3) [OF assms(1)] by auto
      qed (use 1 [unfolded F'] ev w1 http_frames(5) [OF assms(1)] in auto)
    qed
  qed
  with assms(2) show ?thesis by blast
qed

lemma put_source_live:
  assumes "http_law F live" and "put_source F conn body tb w = (x, w')"
  shows "live w' = live w"
proof (cases body)
  case (Body_file f)
  obtain st sz w1 where size: "apr_file_size F f w = ((st, sz), w1)" by (metis prod.exhaust)
  show ?thesis
    using assms(2) http_frames(13) [OF assms(1) size] set_options_live [OF assms(1)]
    by (auto simp: put_source_def Body_file size split: if_splits)
qed (use assms set_options_live [OF assms(1)] in \<open>auto simp: put_source_def\<close>)

lemma put_over_live:
  assumes "http_law F live" and "put_over F fs r conn uri body tb w = Some (x, w')"
  shows "live w' = live w"
proof -
  note opts = set_options_live [OF assms(1)]
  obtain rv src tb1 w1 where src: "put_source F conn body tb (set_options F conn (put_options fs uri) w) = ((rv, src, tb1), w1)"
    by (metis prod.exhaust)
  have w1: "live w1 = live w" using put_source_live [OF assms(1) src] opts by simp
  show ?thesis
  proof (cases "rv = APR_SUCCESS")
    case True
    let ?w = "set_options F conn [CURLOPT_HTTPHEADER [''Expect:''], CURLOPT_INFILESIZE_LARGE tb1] w1"
    obtain res w2 where run: "perform_put F conn src ?w = Some (res, w2)"
      using assms(2) src True by (auto simp: put_over_def split: bind_splits)
    let ?w2 = "set_options F conn [CURLOPT_HTTPHEADER []] w2"
    obtain st3 w3 where inv: "apr_reslist_invalidate F r conn ?w2 = (st3, w3)" by force
    obtain st4 w4 where rel: "apr_reslist_release F r conn ?w2 = (st4, w4)" by force
    have "w' = w3 \<or> w' = w4"
      using assms(2) by (auto simp: put_over_def src True run inv rel Let_def split: if_splits)
    then show ?thesis
      using w1 perform_put_live [OF assms(1) run] opts http_frames(9) [OF assms(1) inv] http_frames(8) [OF assms(1) rel] by auto
  qed (use assms(2) src w1 in \<open>simp add: put_over_def\<close>)
qed

lemma put_over_total:
  assumes "transfers_end F"
  shows "\<exists>st tb' w'. put_over F fs r conn uri body tb w = Some ((st, tb'), w')"
proof -
  obtain rv src tb1 w1 where src: "put_source F conn body tb (set_options F conn (put_options fs uri) w) = ((rv, src, tb1), w1)"
    by (metis prod.exhaust)
  obtain res w2 where "perform_put F conn src (set_options F conn [CURLOPT_HTTPHEADER [''Expect:''], CURLOPT_INFILESIZE_LARGE tb1] w1)
      = Some (res, w2)"
    using assms unfolding transfers_end_def by fast
  with src show ?thesis by (auto simp: put_over_def Let_def split: prod.splits)
qed

lemma file_server_put_frame:
  assumes "pool_law E live" and "http_law F live"
    and "mfs_file_server_put E F fs h uri body tb w = Some ((st, tb'), fs', w')"
  shows "live w' = live w" and "only_servers fs fs'"
proof -
  obtain rv so fs1 w1 where get: "mfs_get_file_server E F fs h w = Some ((rv, so), fs1, w1)"
    using assms(3) by (auto simp: mfs_file_server_put_def split: bind_splits)
  note frame = get_file_server_frame [OF assms(1,2) get]
  have "live w' = live w1 \<and> fs' = fs1"
  proof (cases "rv = APR_SUCCESS")
    case True
    then obtain s where s: "so = Some s" using assms(3) get by (auto simp: mfs_file_server_put_def split: option.splits)
    obtain rv2 conn w2 where acq: "apr_reslist_acquire F (fsv_connections s) w1 = ((rv2, conn), w2)" by (metis prod.exhaust)
    show ?thesis
      using assms(3) True http_frames(7) [OF assms(2) acq] put_over_live [OF assms(2)]
      by (auto simp: mfs_file_server_put_def get s acq split: if_splits)
  qed (use assms(3) get in \<open>auto simp: mfs_file_server_put_def\<close>)
  with frame show "live w' = live w" "only_servers fs fs'" by simp_all
qed

lemma file_server_put_total:
  assumes "locks_work E" and "transfers_end F"
  shows "\<exists>st tb' fs' w'. mfs_file_server_put E F fs h uri body tb w = Some ((st, tb'), fs', w')"
proof -
  obtain rv so fs1 w1 where get: "mfs_get_file_server E F fs h w = Some ((rv, so), fs1, w1)" and so: "rv = APR_SUCCESS \<longrightarrow> so \<noteq> None"
    using get_file_server_total [OF assms(1)] by metis
  show ?thesis
  proof (cases "rv = APR_SUCCESS")
    case True
    with so obtain s where s: "so = Some s" by blast
    obtain rv2 conn w2 where acq: "apr_reslist_acquire F (fsv_connections s) w1 = ((rv2, conn), w2)" by (metis prod.exhaust)
    obtain st tb2 w3 where "put_over F fs1 (fsv_connections s) conn uri body tb w2 = Some ((st, tb2), w3)"
      using put_over_total [OF assms(2)] by metis
    then show ?thesis by (simp add: mfs_file_server_put_def get s acq True)
  qed (simp add: mfs_file_server_put_def get)
qed

section \<open>One attempt\<close>

text \<open>Neither requests nor transfers change the settings of the handle.\<close>

definition same_settings :: "mfs_file_system \<Rightarrow> mfs_file_system \<Rightarrow> bool" where
  "same_settings fs fs' \<longleftrightarrow> fs_max_retries fs' = fs_max_retries fs \<and> fs_retry_timeout fs' = fs_retry_timeout fs
     \<and> fs_tracker_timeout fs' = fs_tracker_timeout fs \<and> fs_file_server_timeout fs' = fs_file_server_timeout fs
     \<and> fs_max_buffer_size fs' = fs_max_buffer_size fs \<and> fs_client_id fs' = fs_client_id fs"

lemma same_settings_refl [simp]: "same_settings fs fs" by (simp add: same_settings_def)

lemma same_settings_trans: "same_settings fs fs1 \<Longrightarrow> same_settings fs1 fs2 \<Longrightarrow> same_settings fs fs2"
  by (simp add: same_settings_def)

lemma only_servers_settings: "only_servers fs fs' \<Longrightarrow> same_settings fs fs'"
  by (auto simp: only_servers_def same_settings_def)

lemma only_servers_ready:
  assumes "fs_ready E live X fs w" and "live w' = live w" and "only_servers fs fs'"
  shows "fs_ready E live X fs' w'"
proof -
  have "fs_trackers fs' = fs_trackers fs" "fs_tracker_timeout fs' = fs_tracker_timeout fs"
    using assms(3) by (auto simp: only_servers_def)
  with assms(1,2) show ?thesis by (auto simp: fs_ready_def fs_sound_def sys_inv_world)
qed

lemma fs_ask_settings:
  assumes "fs_ready E live X fs w" and "fs_ask E fs action ps ok h pool w = Some (r, fs', w')"
  shows "same_settings fs fs'"
proof -
  have "fs_sound E live X fs w" using assms(1) by (simp add: fs_ready_def)
  from fs_ask_sound(2) [OF this assms(2)] obtain p where "fs' = fs\<lparr>fs_trackers := p\<rparr>" by blast
  then show ?thesis by (simp add: same_settings_def)
qed

lemma fs_ask_ready_answer:
  assumes "fs_ready E live X fs w" and "fs_ask E fs action ps ok0 h0 pool w = Some ((APR_SUCCESS, ok, h), fs', w')"
  shows "answer_of E action ps (fs_tracker_timeout fs) ok h"
  using assms(1) unfolding fs_ready_def by (elim conjE) (rule fs_ask_answer [OF _ assms(2)])

text \<open>The variables hold what some OK answer to \<open>create_open\<close> said.\<close>

definition opened :: "'w apr \<Rightarrow> mfs_file_system \<Rightarrow> tracker_request_parameters \<Rightarrow> 'w store_state \<Rightarrow> bool" where
  "opened E fs params s \<longleftrightarrow> (\<exists>h. answer_of E ''create_open'' params (fs_tracker_timeout fs) True h
     \<and> hash_get h ''path'' = Some (so_put_url s) \<and> hash_get h ''fid'' = Some (so_fid s)
     \<and> hash_get h ''devid'' = Some (so_devid s))"

definition store_inv ::
  "'w apr \<Rightarrow> ('w \<Rightarrow> handle set) \<Rightarrow> handle set \<Rightarrow> mfs_file_system \<Rightarrow> tracker_request_parameters \<Rightarrow> 'w store_state \<Rightarrow> bool" where
  "store_inv E live X fs params s \<longleftrightarrow> fs_ready E live X (so_fs s) (so_world s) \<and> same_settings fs (so_fs s)
     \<and> (so_call_tracker s \<or> opened E fs params s)"

lemma store_open_step:
  assumes "store_inv E live X fs params s"
  shows "\<exists>s'. store_open E pool params s = Some s' \<and> store_inv E live X fs params s'
    \<and> (so_rv s' = APR_SUCCESS \<longrightarrow> opened E fs params s')"
proof (cases "so_call_tracker s")
  case True
  have ready: "fs_ready E live X (so_fs s) (so_world s)" and same: "same_settings fs (so_fs s)"
    using assms by (simp_all add: store_inv_def)
  obtain rv ok h fs1 w1 where ask: "fs_ask E (so_fs s) ''create_open'' params (so_ok s) (so_result s) pool (so_world s)
      = Some ((rv, ok, h), fs1, w1)"
    using fs_service.ask_total [OF ready] by (metis prod.exhaust)
  note ready1 = fs_service.ask_sound [OF ready ask]
  have same1: "same_settings fs fs1" using same_settings_trans [OF same fs_ask_settings [OF ready ask]] .
  have ans: "answer_of E ''create_open'' params (fs_tracker_timeout fs) True h" if "rv = APR_SUCCESS" "ok"
    using fs_ask_ready_answer [OF ready, of "''create_open''" params] ask that same by (auto simp: same_settings_def)
  have s': "\<exists>s'. store_open E pool params s = Some s' \<and> so_fs s' = fs1 \<and> so_world s' = w1
      \<and> (so_call_tracker s' \<or> opened E fs params s') \<and> (so_rv s' = APR_SUCCESS \<longrightarrow> opened E fs params s')"
    using True ans
    by (auto simp: store_open_def ask Let_def opened_def split: option.splits)
  then show ?thesis using ready1 same1 by (auto simp: store_inv_def)
next
  case False
  with assms show ?thesis by (simp add: store_open_def store_inv_def opened_def)
qed

text \<open>What curl reads from, for a body of which \<open>n\<close> bytes are announced.\<close>

fun body_source :: "upload_body \<Rightarrow> int \<Rightarrow> upload_source" where
  "body_source (Body_bytes b) n = From_buffer \<lparr>rb_buffer = b, rb_length = word_of_int n, rb_pos = 0\<rparr>"
| "body_source (Body_file f) n = From_file f"

lemma file_server_put_success:
  assumes "mfs_file_server_put E F fs h uri body tb w = Some ((APR_SUCCESS, tb'), fs', w')"
  shows "\<exists>conn w1 w2. perform_put F conn (body_source body tb') w1 = Some (CURLE_OK, w2)"
    and "body = Body_bytes b \<Longrightarrow> tb' = tb"
proof -
  obtain rv so fs1 w1 where get: "mfs_get_file_server E F fs h w = Some ((rv, so), fs1, w1)"
    using assms by (auto simp: mfs_file_server_put_def split: bind_splits)
  obtain s where s: "so = Some s" and rv: "rv = APR_SUCCESS"
    using assms get by (auto simp: mfs_file_server_put_def split: option.splits if_splits)
  obtain rv2 conn w2 where acq: "apr_reslist_acquire F (fsv_connections s) w1 = ((rv2, conn), w2)" by (metis prod.exhaust)
  have over: "\<exists>w3. put_over F fs1 (fsv_connections s) conn uri body tb w2 = Some ((APR_SUCCESS, tb'), w3)"
    using assms by (auto simp: mfs_file_server_put_def get s rv acq split: if_splits)
  obtain rv3 src tb1 w3 where src: "put_source F conn body tb (set_options F conn (put_options fs1 uri) w2) = ((rv3, src, tb1), w3)"
    by (metis prod.exhaust)
  let ?w3 = "set_options F conn [CURLOPT_HTTPHEADER [''Expect:''], CURLOPT_INFILESIZE_LARGE tb1] w3"
  have rv3: "rv3 = APR_SUCCESS" using over by (auto simp: put_over_def src split: if_splits)
  have srcs: "src = body_source body tb1" and tb1: "body = Body_bytes b \<Longrightarrow> tb1 = tb"
    using src rv3 by (auto simp: put_source_def split: upload_body.splits prod.splits if_splits)
  obtain res w4 where run: "perform_put F conn src ?w3 = Some (res, w4)"
    using over by (auto simp: put_over_def src rv3 split: bind_splits)
  have "res = CURLE_OK \<and> tb' = tb1"
    using over by (auto simp: put_over_def src rv3 run Let_def split: if_splits prod.splits)
  with run srcs tb1 show "\<exists>conn w1 w2. perform_put F conn (body_source body tb') w1 = Some (CURLE_OK, w2)"
    and "body = Body_bytes b \<Longrightarrow> tb' = tb" by blast+
qed

text \<open>A step of the loop keeps the invariant, whatever it does to the other variables.\<close>

lemma store_inv_step:
  assumes "store_inv E live X fs params s" and "fs_ready E live X fs1 w1" and "same_settings (so_fs s) fs1"
    and "so_fs s' = fs1" and "so_world s' = w1" and "so_call_tracker s' = so_call_tracker s"
    and "so_put_url s' = so_put_url s" and "so_fid s' = so_fid s" and "so_devid s' = so_devid s"
  shows "store_inv E live X fs params s'" and "opened E fs params s' = opened E fs params s"
  using assms same_settings_trans [of fs "so_fs s" fs1] by (simp_all add: store_inv_def opened_def)

text \<open>The body went out whole to the address the variables hold.\<close>

definition transferred :: "'w apr \<Rightarrow> 'w http \<Rightarrow> upload_body \<Rightarrow> 'w store_state \<Rightarrow> bool" where
  "transferred E F body s \<longleftrightarrow> (\<exists>uri host tb fs1 w1 fs2 w2. apr_uri_parse F (so_put_url s) = (APR_SUCCESS, uri)
     \<and> u_hostinfo uri = Some host
     \<and> mfs_file_server_put E F fs1 host (so_put_url s) body tb w1 = Some ((APR_SUCCESS, so_total_bytes s), fs2, w2))"

lemma store_put_step:
  assumes "store_inv E live X fs params s" and "opened E fs params s"
    and "pool_law E live" and "http_law F live" and "locks_work E" and "transfers_end F"
  shows "\<exists>r. store_put E F body s = Some r \<and> (case r of
      Inl s' \<Rightarrow> fs_ready E live X (so_fs s') (so_world s') \<and> so_rv s' \<noteq> APR_SUCCESS
    | Inr s' \<Rightarrow> store_inv E live X fs params s' \<and> opened E fs params s'
        \<and> (so_rv s' = APR_SUCCESS \<longrightarrow> transferred E F body s'))"
proof -
  have ready: "fs_ready E live X (so_fs s) (so_world s)" using assms(1) by (simp add: store_inv_def)
  have failed: "store_inv E live X fs params (s\<lparr>so_rv := APR_EGENERAL\<rparr>)" "opened E fs params (s\<lparr>so_rv := APR_EGENERAL\<rparr>)"
    using store_inv_step [OF assms(1) ready same_settings_refl, of "s\<lparr>so_rv := APR_EGENERAL\<rparr>"] assms(2) by simp_all
  obtain rv uri where parse: "apr_uri_parse F (so_put_url s) = (rv, uri)" by force
  show ?thesis
  proof (cases "rv = APR_SUCCESS \<and> u_hostinfo uri \<noteq> None \<and> u_scheme uri \<noteq> None \<and> u_path uri \<noteq> None")
    case False
    then have "store_put E F body s = Some (Inr (s\<lparr>so_rv := APR_EGENERAL\<rparr>))"
      by (auto simp: store_put_def parse split: option.splits)
    with failed show ?thesis by simp
  next
    case True
    then obtain host scheme path where u: "u_hostinfo uri = Some host" "u_scheme uri = Some scheme" "u_path uri = Some path"
      by blast
    define rewind where "rewind = (case body of Body_bytes _ \<Rightarrow> (APR_SUCCESS, so_world s)
        | Body_file file \<Rightarrow> apr_file_seek_start F file (so_world s))"
    obtain st w1 where rw: "rewind = (st, w1)" by force
    have w1: "live w1 = live (so_world s)"
      using rw http_frames(10) [OF assms(4)] by (auto simp: rewind_def split: upload_body.splits)
    show ?thesis
    proof (cases "st = APR_SUCCESS")
      case False
      then have "store_put E F body s = Some (Inl (s\<lparr>so_rv := st, so_world := w1\<rparr>))"
        using True by (simp add: store_put_def parse u flip: rewind_def) (simp add: rw)
      moreover have "fs_ready E live X (so_fs s) w1" using only_servers_ready [OF ready w1] by simp
      ultimately show ?thesis using False by simp
    next
      case st: True
      obtain rv2 tb2 fs2 w2 where put: "mfs_file_server_put E F (so_fs s) host (so_put_url s) body (so_total_bytes s) w1
          = Some ((rv2, tb2), fs2, w2)"
        using file_server_put_total [OF assms(5,6)] by metis
      note frame = file_server_put_frame [OF assms(3,4) put]
      let ?s = "s\<lparr>so_rv := rv2, so_total_bytes := tb2, so_fs := fs2, so_world := w2\<rparr>"
      have run: "store_put E F body s = Some (Inr ?s)"
        using True st put by (simp add: store_put_def parse u flip: rewind_def) (simp add: rw)
      have "fs_ready E live X fs2 w2"
        using only_servers_ready [OF ready _ frame(2)] frame(1) w1 by simp
      note inv = store_inv_step [OF assms(1) this only_servers_settings [OF frame(2)], of ?s, simplified]
      have "transferred E F body ?s" if "rv2 = APR_SUCCESS"
        unfolding transferred_def using parse u put that True
        by (intro exI [of _ uri] exI [of _ host] exI [of _ "so_total_bytes s"] exI [of _ "so_fs s"] exI [of _ w1]
            exI [of _ fs2] exI [of _ w2]) simp
      with inv assms(2) run show ?thesis by simp
    qed
  qed
qed

lemma store_close_step:
  assumes "store_inv E live X fs params s" and "opened E fs params s"
  shows "\<exists>s'. store_close E pool domain key extra s = Some s' \<and> store_inv E live X fs params s'
    \<and> (so_rv s' = APR_SUCCESS \<longrightarrow> (\<exists>h. answer_of E ''create_close'' (close_params domain key extra s) (fs_tracker_timeout fs) True h))"
proof -
  have ready: "fs_ready E live X (so_fs s) (so_world s)" and same: "same_settings fs (so_fs s)"
    using assms by (simp_all add: store_inv_def)
  let ?ps = "close_params domain key extra s"
  obtain rv ok h fs1 w1 where ask: "fs_ask E (so_fs s) ''create_close'' ?ps (so_ok s) (so_result s) pool (so_world s)
      = Some ((rv, ok, h), fs1, w1)"
    using fs_service.ask_total [OF ready] by (metis prod.exhaust)
  let ?s = "s\<lparr>so_rv := tracker_status rv ok, so_ok := ok, so_result := h, so_fs := fs1, so_world := w1\<rparr>"
  have inv: "store_inv E live X fs params ?s"
    using store_inv_step(1) [OF assms(1) fs_service.ask_sound [OF ready ask] fs_ask_settings [OF ready ask]] by simp
  have "answer_of E ''create_close'' ?ps (fs_tracker_timeout fs) True h" if "tracker_status rv ok = APR_SUCCESS"
  proof -
    have "rv = APR_SUCCESS" "ok" using that by (auto simp: tracker_status_def split: if_splits)
    then show ?thesis using fs_ask_ready_answer [OF ready, of "''create_close''" ?ps] ask same
      by (auto simp: same_settings_def)
  qed
  with inv show ?thesis by (auto simp: store_close_def ask)
qed

section \<open>The loop\<close>

text \<open>
  What a success stands on: an OK answer to \<open>create_open\<close> with the address, a complete transfer
  to that address, and an OK answer to \<open>create_close\<close> about the same file.
\<close>

definition stored ::
  "'w apr \<Rightarrow> 'w http \<Rightarrow> mfs_file_system \<Rightarrow> string \<Rightarrow> string \<Rightarrow> tracker_request_parameters \<Rightarrow>
     tracker_request_parameters option \<Rightarrow> upload_body \<Rightarrow> bool" where
  "stored E F fs domain key params extra body \<longleftrightarrow> (\<exists>s h. opened E fs params s \<and> transferred E F body s
     \<and> same_settings fs (so_fs s)
     \<and> answer_of E ''create_close'' (close_params domain key extra s) (fs_tracker_timeout fs) True h)"

lemma store_attempt_step:
  assumes "store_inv E live X fs params s"
    and "pool_law E live" and "http_law F live" and "locks_work E" and "transfers_end F"
  shows "\<exists>r. store_attempt E F pool domain key params extra body s = Some r \<and> (case r of
      Inl s' \<Rightarrow> fs_ready E live X (so_fs s') (so_world s') \<and> so_rv s' \<noteq> APR_SUCCESS
    | Inr s' \<Rightarrow> store_inv E live X fs params s'
        \<and> (so_rv s' = APR_SUCCESS \<longrightarrow> stored E F fs domain key params extra body))"
proof -
  obtain s1 where op: "store_open E pool params s = Some s1" "store_inv E live X fs params s1"
    "so_rv s1 = APR_SUCCESS \<longrightarrow> opened E fs params s1" using store_open_step [OF assms(1)] by blast
  show ?thesis
  proof (cases "so_rv s1 = APR_SUCCESS")
    case True
    with op(3) have opened1: "opened E fs params s1" by simp
    obtain r where put: "store_put E F body s1 = Some r" and r: "case r of
        Inl s' \<Rightarrow> fs_ready E live X (so_fs s') (so_world s') \<and> so_rv s' \<noteq> APR_SUCCESS
      | Inr s' \<Rightarrow> store_inv E live X fs params s' \<and> opened E fs params s'
          \<and> (so_rv s' = APR_SUCCESS \<longrightarrow> transferred E F body s')"
      using store_put_step [OF op(2) opened1 assms(2-5)] by blast
    show ?thesis
    proof (cases r)
      case (Inr s2)
      then have inv2: "store_inv E live X fs params s2" "opened E fs params s2"
        and sent: "so_rv s2 = APR_SUCCESS \<longrightarrow> transferred E F body s2" using r by simp_all
      show ?thesis
      proof (cases "so_rv s2 = APR_SUCCESS")
        case rv2: True
        obtain s3 where close: "store_close E pool domain key extra s2 = Some s3" "store_inv E live X fs params s3"
          "so_rv s3 = APR_SUCCESS \<longrightarrow> (\<exists>h. answer_of E ''create_close'' (close_params domain key extra s2) (fs_tracker_timeout fs) True h)"
          using store_close_step [OF inv2] by blast
        have "same_settings fs (so_fs s2)" using inv2(1) by (simp add: store_inv_def)
        with close sent rv2 inv2 have "so_rv s3 = APR_SUCCESS \<longrightarrow> stored E F fs domain key params extra body"
          unfolding stored_def by blast
        with close op(1) True put Inr rv2 show ?thesis by (simp add: store_attempt_def)
      qed (use op(1) True put Inr inv2 in \<open>simp add: store_attempt_def\<close>)
    qed (use op(1) True put r in \<open>simp add: store_attempt_def\<close>)
  qed (use op in \<open>simp add: store_attempt_def\<close>)
qed

lemma store_loop_result:
  assumes "pool_law E live" and "http_law F live" and "sync_law E live" and "locks_work E" and "transfers_end F"
  shows "store_inv E live X fs params s \<Longrightarrow> so_rv s \<noteq> APR_SUCCESS \<Longrightarrow>
    \<exists>r. store_loop E F pool domain key params extra body n s = Some r \<and> (case r of
      Inl s' \<Rightarrow> fs_ready E live X (so_fs s') (so_world s') \<and> so_rv s' \<noteq> APR_SUCCESS
    | Inr s' \<Rightarrow> fs_ready E live X (so_fs s') (so_world s')
        \<and> (so_rv s' = APR_SUCCESS \<longrightarrow> stored E F fs domain key params extra body))"
proof (induction n arbitrary: s)
  case 0
  then show ?case by (simp add: store_inv_def)
next
  case (Suc n)
  obtain r where attempt: "store_attempt E F pool domain key params extra body s = Some r" and r: "case r of
      Inl s' \<Rightarrow> fs_ready E live X (so_fs s') (so_world s') \<and> so_rv s' \<noteq> APR_SUCCESS
    | Inr s' \<Rightarrow> store_inv E live X fs params s'
        \<and> (so_rv s' = APR_SUCCESS \<longrightarrow> stored E F fs domain key params extra body)"
    using store_attempt_step [OF Suc.prems(1) assms(1,2,4,5)] by blast
  show ?case
  proof (cases r)
    case (Inr s1)
    then have inv1: "store_inv E live X fs params s1"
      and ok: "so_rv s1 = APR_SUCCESS \<longrightarrow> stored E F fs domain key params extra body" using r by simp_all
    have ready1: "fs_ready E live X (so_fs s1) (so_world s1)" using inv1 by (simp add: store_inv_def)
    show ?thesis
    proof (cases "so_rv s1 = APR_SUCCESS")
      case False
      let ?s = "if n > 0 then s1\<lparr>so_world := apr_sleep E (fs_retry_timeout (so_fs s1)) (so_world s1)\<rparr> else s1"
      have "live (so_world ?s) = live (so_world s1)" using assms(3) by (simp add: sync_law_def)
      from only_servers_ready [OF ready1 this only_servers(1)]
      have "store_inv E live X fs params ?s"
        using inv1 by (cases "n = 0") (simp_all add: store_inv_def opened_def)
      moreover have "so_rv ?s \<noteq> APR_SUCCESS" using False by simp
      ultimately show ?thesis using Suc.IH [of ?s] attempt Inr False by (simp add: Let_def)
    qed (use attempt Inr ok ready1 in simp)
  qed (use attempt r in simp)
qed

text \<open>The variables when the loop begins, and what is made of the state it ends in.\<close>

definition store_start :: "'w http \<Rightarrow> mfs_file_system \<Rightarrow> int \<Rightarrow> 'w \<Rightarrow> 'w store_state" where
  "store_start F fs total_bytes w =
     \<lparr>so_rv = APR_EGENERAL, so_call_tracker = True, so_put_url = [], so_fid = [], so_devid = [],
      so_ok = c_stack_bool F, so_result = Map.empty, so_total_bytes = total_bytes, so_fs = fs, so_world = w\<rparr>"

definition store_finish ::
  "'w apr \<Rightarrow> handle option \<Rightarrow> handle \<Rightarrow> 'w store_state + 'w store_state \<Rightarrow> apr_status \<times> mfs_file_system \<times> 'w" where
  "store_finish E pool q r =
     (case r of
        Inl s \<Rightarrow> (so_rv s, so_fs s, so_world s)
      | Inr s \<Rightarrow> (so_rv s, so_fs s, if pool = None then apr_pool_destroy E q (so_world s) else so_world s))"

text \<open>The memory pool that is worked in: the caller's, or one the function creates.\<close>

definition store_pool :: "'w apr \<Rightarrow> handle option \<Rightarrow> 'w \<Rightarrow> (apr_status \<times> handle) \<times> 'w" where
  "store_pool E pool w = (case pool of Some q \<Rightarrow> ((APR_SUCCESS, q), w) | None \<Rightarrow> apr_pool_create E w)"

lemma store_unfold:
  "mfs_store_file_or_bytes E F fs domain key cls pool body tb eo ec w =
     (case store_pool E pool w of ((rv, q), w) \<Rightarrow>
        if rv \<noteq> APR_SUCCESS then Some (rv, fs, w)
        else map_option (store_finish E pool q)
          (store_loop E F q domain key (open_params domain key cls eo) ec body (nat (fs_max_retries fs))
             (store_start F fs tb w)))"
  unfolding mfs_store_file_or_bytes_def store_pool_def store_start_def store_finish_def [abs_def] by (rule refl)

lemma fs_ready_create:
  assumes "fs_ready E live X fs w" and "apr_pool_create E w = ((APR_SUCCESS, q), w')"
  shows "fs_ready E live (insert q X) fs w'" and "q \<notin> X"
proof -
  obtain p where p: "fs_trackers fs = Some p" "sys_inv E live X p w {#}" "exchanges_end E (fs_tracker_timeout fs)"
    using assms(1) by (auto simp: fs_ready_def fs_sound_def)
  from sys_inv_create [OF p(2) assms(2)] p show "fs_ready E live (insert q X) fs w'" "q \<notin> X"
    by (auto simp: fs_ready_def fs_sound_def)
qed

lemma fs_ready_destroy:
  "fs_ready E live (insert q X) fs w \<Longrightarrow> q \<notin> X \<Longrightarrow> fs_ready E live X fs (apr_pool_destroy E q w)"
  by (auto simp: fs_ready_def fs_sound_def intro: sys_inv_destroy)

text \<open>
  The attempts one after the other: \<open>store_attempts n s r\<close> says that \<open>n\<close> attempts lead from
  \<open>s\<close> to \<open>r\<close>, each but the last of them a failure followed by the pause. The loop makes as
  many as it was given, unless one succeeds or returns from inside the loop.
\<close>

inductive store_attempts ::
  "'w apr \<Rightarrow> 'w http \<Rightarrow> handle \<Rightarrow> string \<Rightarrow> string \<Rightarrow> tracker_request_parameters \<Rightarrow> tracker_request_parameters option \<Rightarrow>
     upload_body \<Rightarrow> nat \<Rightarrow> 'w store_state \<Rightarrow> 'w store_state + 'w store_state \<Rightarrow> bool"
  for E F pool domain key params extra body where
  none: "store_attempts E F pool domain key params extra body 0 s (Inr s)"
| final: "store_attempt E F pool domain key params extra body s = Some r \<Longrightarrow>
    store_attempts E F pool domain key params extra body 1 s r"
| again: "store_attempt E F pool domain key params extra body s = Some (Inr s1) \<Longrightarrow> so_rv s1 \<noteq> APR_SUCCESS \<Longrightarrow>
    store_attempts E F pool domain key params extra body n
      (s1\<lparr>so_world := apr_sleep E (fs_retry_timeout (so_fs s1)) (so_world s1)\<rparr>) r \<Longrightarrow> 0 < n \<Longrightarrow>
    store_attempts E F pool domain key params extra body (Suc n) s r"

inductive_cases store_attempts_noneE: "store_attempts E F pool domain key params extra body 0 s r"

definition store_over :: "'w store_state + 'w store_state \<Rightarrow> bool" where
  "store_over r = (case r of Inl s \<Rightarrow> True | Inr s \<Rightarrow> so_rv s = APR_SUCCESS)"

lemma store_loop_attempts:
  "store_loop E F pool domain key params extra body N s = Some r \<Longrightarrow> so_rv s \<noteq> APR_SUCCESS \<Longrightarrow>
   \<exists>n \<le> N. store_attempts E F pool domain key params extra body n s r \<and> (n = N \<or> store_over r)"
proof (induction N arbitrary: s)
  case 0
  then have "r = Inr s" by simp
  then show ?case by (simp add: store_attempts.none)
next
  case (Suc N)
  let ?chain = "store_attempts E F pool domain key params extra body"
  obtain r1 where a: "store_attempt E F pool domain key params extra body s = Some r1"
    using Suc.prems(1) by (auto split: bind_splits)
  note last = store_attempts.final [OF a]
  show ?case
  proof (cases "store_over r1 \<or> N = 0")
    case True
    then have "r = r1"
      using Suc.prems(1) a by (auto simp: store_over_def Let_def split: sum.splits if_splits)
    with last True show ?thesis by (intro exI [of _ 1]) auto
  next
    case False
    then obtain s1 where s1: "r1 = Inr s1" "so_rv s1 \<noteq> APR_SUCCESS" and N: "N > 0"
      by (cases r1) (auto simp: store_over_def)
    let ?s = "s1\<lparr>so_world := apr_sleep E (fs_retry_timeout (so_fs s1)) (so_world s1)\<rparr>"
    have "store_loop E F pool domain key params extra body N ?s = Some r"
      using Suc.prems(1) a s1 N by (simp add: Let_def)
    with Suc.IH [of ?s] s1(2) obtain n where n: "n \<le> N" "?chain n ?s r" "n = N \<or> store_over r" by auto
    have "0 < n"
    proof (rule ccontr)
      assume "\<not> 0 < n"
      then have "r = Inr ?s" using n(2) by (auto elim: store_attempts_noneE)
      with n(3) s1(2) N \<open>\<not> 0 < n\<close> show False by (simp add: store_over_def)
    qed
    from store_attempts.again [OF a [unfolded s1(1)] s1(2) n(2) this] n show ?thesis
      by (intro exI [of _ "Suc n"]) auto
  qed
qed

lemma store_result:
  fixes E :: "'w apr"
  assumes "fs_ready E live X fs w"
    and "pool_law E live" and "http_law F live" and "sync_law E live" and "locks_work E" and "transfers_end F"
    and "store_pool E pool w = ((rv, q), w0)"
  shows "\<exists>st fs' w' X'. mfs_store_file_or_bytes E F fs domain key cls pool body tb eo ec w = Some (st, fs', w')
    \<and> fs_ready E live X' fs' w' \<and> (X' = X \<or> pool = None \<and> st \<noteq> APR_SUCCESS \<and> X' = insert q X)
    \<and> (st = APR_SUCCESS \<longrightarrow> stored E F fs domain key (open_params domain key cls eo) ec body)
    \<and> (if rv \<noteq> APR_SUCCESS then (st, fs', w') = (rv, fs, w0)
       else \<exists>n r. n \<le> nat (fs_max_retries fs) \<and> (n = nat (fs_max_retries fs) \<or> store_over r)
        \<and> store_attempts E F q domain key (open_params domain key cls eo) ec body n (store_start F fs tb w0) r
        \<and> (st, fs', w') = store_finish E pool q r)"
proof (cases "rv = APR_SUCCESS")
  case False
  then have pool: "pool = None" "apr_pool_create E w = ((rv, q), w0)"
    using assms(7) by (auto simp: store_pool_def split: option.splits)
  have "live w0 = live w" by (rule pool_create_live(2) [OF assms(2) pool(2) False])
  from only_servers_ready [OF assms(1) this only_servers(1)] False show ?thesis
    by (simp add: store_unfold assms(7)) (rule exI [of _ X], simp)
next
  case True
  let ?s = "store_start F fs tb w0" and ?params = "open_params domain key cls eo"
  define Y where "Y = (if pool = None then insert q X else X)"
  have ready: "fs_ready E live Y fs w0 \<and> (pool = None \<longrightarrow> q \<notin> X)"
    using assms(1,7) True fs_ready_create [OF assms(1)] by (auto simp: store_pool_def Y_def split: option.splits)
  then have "store_inv E live Y fs ?params ?s" by (simp add: store_inv_def store_start_def)
  then obtain r where loop: "store_loop E F q domain key ?params ec body (nat (fs_max_retries fs)) ?s = Some r"
    and r: "case r of
      Inl s' \<Rightarrow> fs_ready E live Y (so_fs s') (so_world s') \<and> so_rv s' \<noteq> APR_SUCCESS
    | Inr s' \<Rightarrow> fs_ready E live Y (so_fs s') (so_world s')
        \<and> (so_rv s' = APR_SUCCESS \<longrightarrow> stored E F fs domain key ?params ec body)"
    using store_loop_result [OF assms(2-6), of Y fs ?params ?s q domain key ec body "nat (fs_max_retries fs)"]
    by (auto simp: store_start_def)
  have "so_rv ?s \<noteq> APR_SUCCESS" by (simp add: store_start_def)
  from store_loop_attempts [OF loop this] obtain n where n: "n \<le> nat (fs_max_retries fs)"
    "store_attempts E F q domain key ?params ec body n ?s r" "n = nat (fs_max_retries fs) \<or> store_over r" by blast
  obtain st fs' w' where fin: "store_finish E pool q r = (st, fs', w')" by (metis prod.exhaust)
  have run: "mfs_store_file_or_bytes E F fs domain key cls pool body tb eo ec w = Some (st, fs', w')"
    by (simp add: store_unfold assms(7) True loop fin)
  have "\<exists>X'. fs_ready E live X' fs' w' \<and> (X' = X \<or> pool = None \<and> st \<noteq> APR_SUCCESS \<and> X' = insert q X)
    \<and> (st = APR_SUCCESS \<longrightarrow> stored E F fs domain key ?params ec body)"
  proof (cases r)
    case (Inl s')
    then show ?thesis using r fin by (intro exI [of _ Y]) (auto simp: store_finish_def Y_def)
  next
    case (Inr s')
    then show ?thesis using r fin ready fs_ready_destroy [of E live q X fs' "so_world s'"]
      by (intro exI [of _ X]) (auto simp: store_finish_def Y_def split: if_splits)
  qed
  then obtain X' where X': "fs_ready E live X' fs' w'" "X' = X \<or> pool = None \<and> st \<noteq> APR_SUCCESS \<and> X' = insert q X"
    "st = APR_SUCCESS \<longrightarrow> stored E F fs domain key ?params ec body" by blast
  have "\<exists>n r. n \<le> nat (fs_max_retries fs) \<and> (n = nat (fs_max_retries fs) \<or> store_over r)
      \<and> store_attempts E F q domain key ?params ec body n ?s r \<and> (st, fs', w') = store_finish E pool q r"
    by (intro exI [of _ n] exI [of _ r] conjI) (use n fin in simp_all)
  then show ?thesis
    by (intro exI [of _ st] exI [of _ fs'] exI [of _ w'] exI [of _ X'] conjI) (use run X' True in simp_all)
qed

text \<open> C10: Provided each exchange with a tracker and each transfer comes to an end and the file
  system's lock can be taken, storing bytes or a file returns after at most \<open>max_retries\<close> attempts:
  what it returns is the outcome of \<open>n\<close> attempts in a row, all but the last failures, and \<open>n\<close> is
  \<open>max_retries\<close> unless the last one succeeded or the file could not be rewound. Afterwards every
  tracker connection is idle or closed, none leaked and none closed twice. A memory pool the function
  made for itself is destroyed too, except where the file could not be rewound. \<close>

theorem store_returns_sound:
  assumes "fs_sound E live X fs w" and "exchanges_end E (fs_tracker_timeout fs)"
    and "pool_law E live" and "http_law F live" and "sync_law E live" and "locks_work E" and "transfers_end F"
    and "store_pool E pool w = ((rv, q), w0)"
  shows "\<exists>st fs' w' X'. mfs_store_file_or_bytes E F fs domain key cls pool body tb eo ec w = Some (st, fs', w')
    \<and> fs_sound E live X' fs' w' \<and> (X' = X \<or> pool = None \<and> st \<noteq> APR_SUCCESS \<and> X' = insert q X)
    \<and> (if rv \<noteq> APR_SUCCESS then (st, fs', w') = (rv, fs, w0)
       else \<exists>n r. n \<le> nat (fs_max_retries fs) \<and> (n = nat (fs_max_retries fs) \<or> store_over r)
        \<and> store_attempts E F q domain key (open_params domain key cls eo) ec body n (store_start F fs tb w0) r
        \<and> (st, fs', w') = store_finish E pool q r)"
proof -
  have "fs_ready E live X fs w" using assms(1,2) by (simp add: fs_ready_def)
  from store_result [OF this assms(3-8), of domain key cls body tb eo ec] show ?thesis
    unfolding fs_ready_def by (elim exE conjE) (intro exI conjI; assumption)
qed

text \<open> C2: When storing reports success, a tracker answered \<open>create_open\<close> for this key with OK, the
  whole body went to the address of that answer in a transfer curl completed, and then a tracker
  answered \<open>create_close\<close>, about the file id, the device and the address of that answer and the size
  that was sent, with OK. \<close>

theorem store_success_acknowledged:
  fixes E :: "'w apr"
  assumes "fs_sound E live X fs w" and "exchanges_end E (fs_tracker_timeout fs)"
    and "pool_law E live" and "http_law F live" and "sync_law E live" and "locks_work E" and "transfers_end F"
    and "mfs_store_file_or_bytes E F fs domain key cls pool body tb eo ec w = Some (APR_SUCCESS, fs', w')"
  shows "\<exists>h1 (s :: 'w store_state) h2 conn w1 w2.
      answer_of E ''create_open'' (open_params domain key cls eo) (fs_tracker_timeout fs) True h1
    \<and> hash_get h1 ''path'' = Some (so_put_url s) \<and> hash_get h1 ''fid'' = Some (so_fid s)
    \<and> hash_get h1 ''devid'' = Some (so_devid s)
    \<and> transferred E F body s
    \<and> perform_put F conn (body_source body (so_total_bytes s)) w1 = Some (CURLE_OK, w2)
    \<and> fs_client_id (so_fs s) = fs_client_id fs
    \<and> answer_of E ''create_close'' (close_params domain key ec s) (fs_tracker_timeout fs) True h2"
proof -
  have "fs_ready E live X fs w" using assms(1,2) by (simp add: fs_ready_def)
  moreover obtain rv q w0 where "store_pool E pool w = ((rv, q), w0)" by (metis prod.exhaust)
  ultimately have "stored E F fs domain key (open_params domain key cls eo) ec body"
    using store_result [of E live X fs w F pool rv q w0 domain key cls body tb eo ec] assms(3-8) by auto
  then obtain s h2 where s: "opened E fs (open_params domain key cls eo) s" "transferred E F body s"
      "same_settings fs (so_fs s)"
      "answer_of E ''create_close'' (close_params domain key ec s) (fs_tracker_timeout fs) True h2"
    unfolding stored_def by blast
  from s(1) obtain h1 where h1: "answer_of E ''create_open'' (open_params domain key cls eo) (fs_tracker_timeout fs) True h1"
      "hash_get h1 ''path'' = Some (so_put_url s)" "hash_get h1 ''fid'' = Some (so_fid s)" "hash_get h1 ''devid'' = Some (so_devid s)"
    unfolding opened_def by blast
  from s(2) obtain conn w1 w2 where put: "perform_put F conn (body_source body (so_total_bytes s)) w1 = Some (CURLE_OK, w2)"
    unfolding transferred_def by (elim exE conjE) (drule file_server_put_success(1), blast)
  have "fs_client_id (so_fs s) = fs_client_id fs" using s(3) by (simp add: same_settings_def)
  with h1 put s(2,4) show ?thesis by blast
qed

section \<open>Storing on the scripted network\<close>

lemma sim_locks_work: "locks_work sim_apr"
  by (simp add: locks_work_def sim_apr_def)

definition sim_lines :: "sim \<Rightarrow> apr_status list \<times> (apr_status \<times> string) list \<times> nat list" where
  "sim_lines w = (sim_connects w, sim_replies w, sim_pools w)"

lemma sim_put_read: "\<exists>b src' w'. put_read sim_http sz nmemb src w = (b, src', w')
    \<and> sim_lines w' = sim_lines w \<and> sim_put_events w' = sim_put_events w"
  by (cases src)
    (auto simp: put_read_def mfs_file_put_read_callback_def sim_http_def sim_read_def Let_def sim_lines_def split: prod.splits)

lemma sim_perform_put:
  "\<exists>res w'. perform_put sim_http conn src w = Some (res, w') \<and> sim_lines w' = sim_lines w
    \<and> ((\<forall>r. Put_done r \<in> set (sim_put_events w) \<longrightarrow> r = CURLE_OK) \<longrightarrow> res = CURLE_OK)"
proof (induction "sim_put_events w" arbitrary: src w)
  case Nil
  have "curl_put_event sim_http conn w = (Put_done CURLE_OK, w)" by (simp add: sim_http_def flip: Nil)
  then show ?case by (subst perform_put.simps) simp
next
  case (Cons e es)
  let ?w = "w\<lparr>sim_put_events := es\<rparr>"
  have ev: "curl_put_event sim_http conn w = (e, ?w)" by (simp add: sim_http_def flip: Cons.hyps(2))
  have lines: "sim_lines ?w = sim_lines w" by (simp add: sim_lines_def)
  show ?case
  proof (cases e)
    case (Want_data sz nmemb)
    obtain b src' w1 where rd: "put_read sim_http sz nmemb src ?w = (b, src', w1)"
      and w1: "sim_lines w1 = sim_lines ?w" "sim_put_events w1 = es" using sim_put_read [of sz nmemb src ?w] by auto
    let ?w2 = "curl_put_reply sim_http conn b w1"
    have w2: "sim_lines ?w2 = sim_lines w" "sim_put_events ?w2 = es" using w1 by (simp_all add: sim_http_def sim_lines_def)
    from Cons.hyps(1) [of ?w2 src'] show ?thesis
      using w2 Cons.hyps(2) [symmetric] by (subst perform_put.simps) (auto simp: ev Want_data rd)
  next
    case (Put_body b)
    let ?w2 = "curl_get_reply sim_http conn (mfs_buffer_put_write_callback 1 (length b)) ?w"
    have w2: "sim_lines ?w2 = sim_lines w" "sim_put_events ?w2 = es" by (simp_all add: sim_http_def sim_lines_def)
    from Cons.hyps(1) [of ?w2 src] show ?thesis
      using w2 Cons.hyps(2) [symmetric] by (subst perform_put.simps) (auto simp: ev Put_body)
  next
    case (Put_done r)
    then show ?thesis
      using lines Cons.hyps(2) [symmetric] by (subst perform_put.simps) (auto simp: ev)
  qed
qed

lemma sim_transfers_end: "transfers_end sim_http"
  unfolding transfers_end_def using sim_perform_put by (metis option.distinct(1))

lemmas sim_laws = sim_pool_law sim_http_law sim_sync_law sim_locks_work sim_transfers_end

theorem store_returns_sound_witness:
  "\<exists>st fs' w'. mfs_store_file_or_bytes sim_apr sim_http sample_fs ''d'' ''k'' ''c'' (Some 9) (Body_bytes ''abc'') 3 None None sim0
      = Some (st, fs', w') \<and> fs_sound sim_apr sim_live {} fs' w'
    \<and> (\<exists>n r. n \<le> 2 \<and> store_attempts sim_apr sim_http 9 ''d'' ''k'' (open_params ''d'' ''k'' ''c'' None) None (Body_bytes ''abc'') n
          (store_start sim_http sample_fs 3 sim0) r \<and> (st, fs', w') = store_finish sim_apr (Some 9) 9 r)"
proof -
  have empty: "sim_pools sim0 = []" by (simp add: sim0_def)
  have pool: "store_pool sim_apr (Some 9) sim0 = ((APR_SUCCESS, 9), sim0)" by (simp add: store_pool_def)
  have "nat (fs_max_retries sample_fs) = 2" by (simp add: sample_fs_def)
  note bound = this
  from store_returns_sound [OF sample_fs_sound [OF empty] sim_exchanges_end sim_laws pool,
      of "''d''" "''k''" "''c''" "Body_bytes ''abc''" 3 None None]
  obtain st fs' w' X' where run: "mfs_store_file_or_bytes sim_apr sim_http sample_fs ''d'' ''k'' ''c'' (Some 9) (Body_bytes ''abc'') 3
      None None sim0 = Some (st, fs', w')" "fs_sound sim_apr sim_live X' fs' w'"
      "X' = {} \<or> Some (9 :: handle) = None \<and> st \<noteq> APR_SUCCESS \<and> X' = insert 9 {}"
    and chain: "if APR_SUCCESS \<noteq> APR_SUCCESS then (st, fs', w') = (APR_SUCCESS, sample_fs, sim0)
       else \<exists>n r. n \<le> 2 \<and> (n = 2 \<or> store_over r)
        \<and> store_attempts sim_apr sim_http 9 ''d'' ''k'' (open_params ''d'' ''k'' ''c'' None) None (Body_bytes ''abc'') n
            (store_start sim_http sample_fs 3 sim0) r \<and> (st, fs', w') = store_finish sim_apr (Some 9) 9 r"
    unfolding bound by (elim exE conjE) (rule that; assumption)
  have "X' = {}" using run(3) by simp
  with run(2) have "fs_sound sim_apr sim_live {} fs' w'" by simp
  moreover from chain have "\<exists>n r. n \<le> 2
        \<and> store_attempts sim_apr sim_http 9 ''d'' ''k'' (open_params ''d'' ''k'' ''c'' None) None (Body_bytes ''abc'') n
            (store_start sim_http sample_fs 3 sim0) r \<and> (st, fs', w') = store_finish sim_apr (Some 9) 9 r"
    by (simp only: simp_thms if_False) blast
  ultimately show ?thesis using run(1) by blast
qed

text \<open>A transfer on a host not seen before.\<close>

lemma sim_file_server_put:
  assumes "sim_ready fs w" and "fs_file_servers fs h = None"
    and "\<forall>r. Put_done r \<in> set (sim_put_events w) \<longrightarrow> r = CURLE_OK"
  shows "\<exists>fs' w'. mfs_file_server_put sim_apr sim_http fs h uri (Body_bytes b) n w = Some ((APR_SUCCESS, n), fs', w')
    \<and> sim_lines w' = sim_lines w \<and> sim_ready fs' w'"
proof -
  obtain s fs1 w1 where get: "mfs_get_file_server sim_apr sim_http fs h w = Some ((APR_SUCCESS, Some s), fs1, w1)"
    and w1: "sim_lines w1 = sim_lines w" "sim_put_events w1 = sim_put_events w"
    by (simp add: mfs_get_file_server_def lookup_file_server_def add_file_server_def assms(2) sim_apr_def sim_http_def
        sim_fresh_def Let_def sim_lines_def)
  let ?conn = "sim_next w1" and ?w2 = "w1\<lparr>sim_next := Suc (sim_next w1)\<rparr>"
  have acq: "apr_reslist_acquire sim_http (fsv_connections s) w1 = ((APR_SUCCESS, ?conn), ?w2)"
    by (simp add: sim_http_def sim_fresh_def)
  have w2: "sim_lines ?w2 = sim_lines w" "sim_put_events ?w2 = sim_put_events w" using w1 by (simp_all add: sim_lines_def)
  let ?src = "From_buffer \<lparr>rb_buffer = b, rb_length = word_of_int n, rb_pos = 0\<rparr>"
  obtain w3 where run: "perform_put sim_http ?conn ?src ?w2 = Some (CURLE_OK, w3)" and w3: "sim_lines w3 = sim_lines w"
    using sim_perform_put [of ?conn ?src ?w2] assms(3) unfolding w2 by auto
  have "apr_reslist_release sim_http (fsv_connections s) ?conn w3 = (APR_SUCCESS, w3)" by (simp add: sim_http_def)
  then have put: "mfs_file_server_put sim_apr sim_http fs h uri (Body_bytes b) n w = Some ((APR_SUCCESS, n), fs1, w3)"
    by (simp add: mfs_file_server_put_def get acq put_over_def put_source_def sim_set_options run)
  have "fs_ready sim_apr sim_live {} fs w"
    using assms(1) sim_exchanges_end by (simp add: sim_ready_def fs_ready_def)
  note servers = file_server_put_frame [OF sim_pool_law sim_http_law put]
  have "fs_ready sim_apr sim_live {} fs1 w3"
    by (rule only_servers_ready [OF \<open>fs_ready sim_apr sim_live {} fs w\<close> servers])
  moreover have "fs_trackers fs1 = fs_trackers fs" using servers(2) by (auto simp: only_servers_def)
  ultimately have "sim_ready fs1 w3" using assms(1) w3 by (simp add: sim_ready_def fs_ready_def sim_lines_def)
  with put w3 show ?thesis by blast
qed

definition store_sim :: sim where
  "store_sim = (tracker_says [[(''path'', ''p''), (''fid'', ''7''), (''devid'', ''1'')], [(''a'', ''b'')]])
     \<lparr>sim_put_events := [Want_data 1 2, Want_data 1 2, Put_body ''ok'']\<rparr>"

lemma store_sim_run:
  "\<exists>fs' w'. mfs_store_file_or_bytes sim_apr sim_http sample_fs ''d'' ''k'' ''c'' (Some 9) (Body_bytes ''abc'') 3 None None store_sim
      = Some (APR_SUCCESS, fs', w')"
proof -
  let ?kvs = "[(''path'', ''p''), (''fid'', ''7''), (''devid'', ''1'')]" and ?ack = "[(''a'', ''b'')]"
  have r: "reply_text ?kvs = ''path=p&fid=7&devid=1''" "reply_text ?ack = ''a=b''" by code_simp+
  have proper: "proper_reply ?kvs" "proper_reply ?ack"
    by (simp_all add: proper_reply_def ok_line_def r fid_char_def isdigit_def MFS_READ_BUFFER_SIZE_def)
  have table: "hash_get (reply_table ?kvs) ''path'' = Some ''p''"
    "hash_get (reply_table ?kvs) ''fid'' = Some ''7''"
    "hash_get (reply_table ?kvs) ''devid'' = Some ''1''" by code_simp+
  let ?ps = "open_params ''d'' ''k'' ''c'' None"
  have ready: "sim_ready sample_fs store_sim"
    by (rule sim_ready_world [OF sample_ready [of "[?kvs, ?ack]"]]) (simp_all add: store_sim_def)
  have lines: "sim_replies store_sim = (APR_SUCCESS, ok_line ?kvs) # [(APR_SUCCESS, ok_line ?ack)]"
    by (simp add: store_sim_def tracker_says_def)
  obtain fs1 w1 where open1: "fs_ask sim_apr sample_fs ''create_open'' ?ps False Map.empty 9 store_sim
      = Some ((APR_SUCCESS, True, Map.empty ++ reply_table ?kvs), fs1, w1)" "fs1 = sample_fs\<lparr>fs_trackers := fs_trackers fs1\<rparr>"
    "sim_ready fs1 w1" "sim_rest w1 = (case sim_rest store_sim of (cs, _, x) \<Rightarrow> (cs, [(APR_SUCCESS, ok_line ?ack)], x))"
    using sim_fs_ask [OF ready lines proper(1), of "''create_open''" ?ps False Map.empty 9]
    by (elim exE conjE) (rule that; assumption)
  have w1: "sim_replies w1 = [(APR_SUCCESS, ok_line ?ack)]" "sim_put_events w1 = sim_put_events store_sim"
    using open1(4) by (simp_all add: sim_rest_def)
  have "fs_file_servers fs1 ''h'' = None" by (subst open1(2)) (simp add: sample_fs_def)
  moreover have "\<forall>r. Put_done r \<in> set (sim_put_events w1) \<longrightarrow> r = CURLE_OK" by (auto simp: w1 store_sim_def)
  ultimately obtain fs2 w2 where put: "mfs_file_server_put sim_apr sim_http fs1 ''h'' ''p'' (Body_bytes ''abc'') 3 w1
      = Some ((APR_SUCCESS, 3), fs2, w2)" "sim_lines w2 = sim_lines w1" "sim_ready fs2 w2"
    using sim_file_server_put [OF open1(3)] by metis
  have parse: "apr_uri_parse sim_http ''p'' = (APR_SUCCESS, \<lparr>u_scheme = Some ''http'', u_hostinfo = Some ''h'', u_path = Some ''p''\<rparr>)"
    and stack: "c_stack_bool sim_http = False" by (simp_all add: sim_http_def)
  have "sim_replies w2 = (APR_SUCCESS, ok_line ?ack) # []" using put(2) w1 by (simp add: sim_lines_def)
  from sim_fs_ask [OF put(3) this proper(2)] have close1: "\<exists>fs' w'. fs_ask sim_apr fs2 ''create_close'' ps ok h 9 w2
      = Some ((APR_SUCCESS, True, h ++ reply_table ?ack), fs', w')" for ps ok h by blast
  have retries: "nat (fs_max_retries sample_fs) = Suc 1" by (simp add: sample_fs_def)
  let ?sent = "\<lparr>so_rv = APR_SUCCESS, so_call_tracker = False, so_put_url = ''p'', so_fid = ''7'', so_devid = ''1'',
      so_ok = True, so_result = Map.empty ++ reply_table ?kvs, so_total_bytes = 3, so_fs = fs2, so_world = w2\<rparr>"
  obtain fs3 w3 where close2: "fs_ask sim_apr fs2 ''create_close'' (close_params ''d'' ''k'' None ?sent) True
      (Map.empty ++ reply_table ?kvs) 9 w2 = Some ((APR_SUCCESS, True, Map.empty ++ reply_table ?kvs ++ reply_table ?ack), fs3, w3)"
    using close1 by blast
  let ?start = "\<lparr>so_rv = APR_EGENERAL, so_call_tracker = True, so_put_url = [], so_fid = [], so_devid = [],
      so_ok = False, so_result = Map.empty, so_total_bytes = 3, so_fs = sample_fs, so_world = store_sim\<rparr>"
  let ?opened = "\<lparr>so_rv = APR_SUCCESS, so_call_tracker = False, so_put_url = ''p'', so_fid = ''7'', so_devid = ''1'',
      so_ok = True, so_result = Map.empty ++ reply_table ?kvs, so_total_bytes = 3, so_fs = fs1, so_world = w1\<rparr>"
  have s1: "store_open sim_apr 9 ?ps ?start = Some ?opened"
    unfolding store_open_def by (simp add: open1(1) table Let_def)
  have s2: "store_put sim_apr sim_http (Body_bytes ''abc'') ?opened = Some (Inr ?sent)"
    unfolding store_put_def by (simp add: parse put(1))
  let ?closed = "?sent\<lparr>so_result := Map.empty ++ reply_table ?kvs ++ reply_table ?ack, so_fs := fs3, so_world := w3\<rparr>"
  have s3: "store_close sim_apr 9 ''d'' ''k'' None ?sent = Some ?closed"
    unfolding store_close_def using close2 by (simp add: tracker_status_def del: empty_map_add)
  have "store_attempt sim_apr sim_http 9 ''d'' ''k'' ?ps None (Body_bytes ''abc'') ?start = Some (Inr ?closed)"
    unfolding store_attempt_def s1 by (simp add: s2 s3 del: empty_map_add)
  then have "store_loop sim_apr sim_http 9 ''d'' ''k'' ?ps None (Body_bytes ''abc'') (Suc 1) ?start = Some (Inr ?closed)"
    by (simp only: store_loop.simps) simp
  then show ?thesis unfolding mfs_store_file_or_bytes_def retries by (simp add: stack)
qed

theorem store_success_acknowledged_witness:
  "\<exists>h1 (s :: sim store_state) h2 conn w1 w2.
      answer_of sim_apr ''create_open'' (open_params ''d'' ''k'' ''c'' None) (fs_tracker_timeout sample_fs) True h1
    \<and> hash_get h1 ''path'' = Some (so_put_url s) \<and> hash_get h1 ''fid'' = Some (so_fid s)
    \<and> hash_get h1 ''devid'' = Some (so_devid s)
    \<and> transferred sim_apr sim_http (Body_bytes ''abc'') s
    \<and> perform_put sim_http conn (body_source (Body_bytes ''abc'') (so_total_bytes s)) w1 = Some (CURLE_OK, w2)
    \<and> fs_client_id (so_fs s) = fs_client_id sample_fs
    \<and> answer_of sim_apr ''create_close'' (close_params ''d'' ''k'' None s) (fs_tracker_timeout sample_fs) True h2"
proof -
  obtain fs' w' where run: "mfs_store_file_or_bytes sim_apr sim_http sample_fs ''d'' ''k'' ''c'' (Some 9) (Body_bytes ''abc'') 3
      None None store_sim = Some (APR_SUCCESS, fs', w')" using store_sim_run by blast
  have "sim_pools store_sim = []" by (simp add: store_sim_def tracker_says_def sim0_def)
  from store_success_acknowledged [OF sample_fs_sound [OF this] sim_exchanges_end sim_laws run] show ?thesis .
qed

end
