(* ===== verification/Download.thy ===== *)
theory Download
  imports Upload
begin

text \<open>
  Fetching a file, \<open>src/src/file_download.c\<close>: the callback curl hands the data to, which keeps it
  in memory up to a limit and in a file beyond it; one transfer from a file server; and the loop
  over the paths the tracker gives.
\<close>

section \<open>The progress callback\<close>

text \<open>Like the one for uploads, with the count of the other direction; it is not installed either.\<close>

definition mfs_curl_download_timeout_checker ::
  "'w apr \<Rightarrow> mfs_timeout_tracker \<Rightarrow> int \<Rightarrow> 'w \<Rightarrow> (int \<times> mfs_timeout_tracker) \<times> 'w" where
  "mfs_curl_download_timeout_checker E tt dltotal w =
     (let amount = dltotal - tt_last_transfer_total tt;
          tt = tt\<lparr>tt_last_transfer_total := dltotal\<rparr>
      in case apr_time_now E w of (now, w) \<Rightarrow>
           if amount > 0 then ((0, tt\<lparr>tt_last_transferred_at := now\<rparr>), w)
           else let elapsed = now - tt_start_time tt
                in if tt_last_transferred_at tt = 0 then
                     ((if elapsed \<ge> tt_timeout tt * 2 then -1 else 0, tt), w)
                   else ((if elapsed \<ge> tt_timeout tt then -1 else 0, tt), w))"

section \<open>The callback for data\<close>

text \<open>
  \<open>None\<close> is NULL. The counts are \<open>size_t\<close>; they count bytes that were received, so they are
  naturals here.
\<close>

record mfs_write_buffer =
  wb_brigade :: "apr_bucket_brigade option"
  wb_dont_want_brigade :: bool
  wb_current_size :: nat
  wb_file_size :: nat
  wb_file :: "handle option"
  wb_file_system :: mfs_file_system
  wb_destination_file_path :: "string option"

text \<open>
  The loop that looks for the parent directory: from the terminator down to index 1, so that a
  slash at index 0 is not found.
\<close>

fun find_last_slash :: "string \<Rightarrow> nat \<Rightarrow> nat option" where
  "find_last_slash path 0 = None"
| "find_last_slash path (Suc i) =
     (if Suc i < length path \<and> path ! Suc i = CHR ''/'' then Some (Suc i) else find_last_slash path i)"

text \<open>
  Opening the file for the data that does not fit: a temporary one, or the destination after its
  parent directory was made. A destination without a slash after its first character makes the
  code write through a NULL pointer. The file pointer stays NULL when opening fails.
\<close>

definition open_spill_file ::
  "'w http \<Rightarrow> string option \<Rightarrow> 'w \<Rightarrow> ((apr_status \<times> handle) \<times> 'w) option" where
  "open_spill_file F dest w =
     (case dest of
        None \<Rightarrow> Some (apr_file_mktemp F ''mogile_fs_XXXXXX'' w)
      | Some path \<Rightarrow>
          (case find_last_slash path (length path) of
             None \<Rightarrow> None
           | Some i \<Rightarrow>
               (case apr_dir_make_recursive F (take i path) w of (_, w) \<Rightarrow> Some (apr_file_open F path w))))"

text \<open>The buckets read so far go to the file first; \<open>False\<close> is the \<open>return 0\<close> on an error.\<close>

fun spill_buckets ::
  "'w http \<Rightarrow> handle \<Rightarrow> apr_bucket list \<Rightarrow> mfs_write_buffer \<Rightarrow> 'w \<Rightarrow> (bool \<times> mfs_write_buffer) \<times> 'w" where
  "spill_buckets F file [] buf w = ((True, buf), w)"
| "spill_buckets F file (b # bs) buf w =
     (case apr_bucket_read F b w of ((rv, str), w) \<Rightarrow>
        if rv \<noteq> APR_SUCCESS then ((False, buf), w)
        else case apr_file_write_full F file str w of ((rv, _), w) \<Rightarrow>
          if rv \<noteq> APR_SUCCESS then ((False, buf), w)
          else spill_buckets F file bs (buf\<lparr>wb_file_size := wb_file_size buf + length str\<rparr>) w)"

definition write_current ::
  "'w http \<Rightarrow> handle \<Rightarrow> string \<Rightarrow> mfs_write_buffer \<Rightarrow> 'w \<Rightarrow> (nat \<times> mfs_write_buffer) \<times> 'w" where
  "write_current F file data buf w =
     (case apr_file_write_full F file data w of ((rv, bytes_written), w) \<Rightarrow>
        if rv \<noteq> APR_SUCCESS then ((0, buf), w)
        else ((bytes_written,
               buf\<lparr>wb_file_size := wb_file_size buf + length data,
                   wb_current_size := wb_current_size buf + length data\<rparr>), w))"

text \<open>
  The callback itself; the result is what it returns. The brigade is not NULL whenever the file is
  NULL.
\<close>

definition mfs_buffer_get_write_callback ::
  "'w http \<Rightarrow> string \<Rightarrow> mfs_write_buffer \<Rightarrow> 'w \<Rightarrow> ((nat \<times> mfs_write_buffer) \<times> 'w) option" where
  "mfs_buffer_get_write_callback F data buf w =
     (case wb_file buf of
        Some file \<Rightarrow>
          (case apr_file_write_full F file data w of ((_, bytes_written), w) \<Rightarrow>
             Some ((bytes_written,
                    buf\<lparr>wb_file_size := wb_file_size buf + length data,
                        wb_current_size := wb_current_size buf + length data\<rparr>), w))
      | None \<Rightarrow>
          if length data + wb_current_size buf > fs_max_buffer_size (wb_file_system buf) then
            Option.bind (open_spill_file F (wb_destination_file_path buf) w) (\<lambda>((rv, file), w).
              if rv \<noteq> APR_SUCCESS then Some ((0, buf), w)
              else let buf = buf\<lparr>wb_file := Some file\<rparr>
                   in if wb_dont_want_brigade buf then
                        (case wb_brigade buf of
                           None \<Rightarrow> None
                         | Some bs \<Rightarrow>
                             (case spill_buckets F file bs buf w of ((ok, buf), w) \<Rightarrow>
                                if \<not> ok then Some ((0, buf), w) else Some (write_current F file data buf w)))
                      else Some (write_current F file data buf w))
          else
            (case wb_brigade buf of
               None \<Rightarrow> None
             | Some bs \<Rightarrow>
                 Some ((length data,
                        buf\<lparr>wb_brigade := Some (bs @ [Pool_bucket data]),
                            wb_current_size := wb_current_size buf + length data\<rparr>), w)))"

definition mfs_buffer_get_write_seek :: "int \<Rightarrow> int \<Rightarrow> int" where
  "mfs_buffer_get_write_seek offset origin = CURL_SEEKFUNC_CANTSEEK"

section \<open>One transfer\<close>

text \<open>\<open>curl_easy_perform\<close> with the callback.\<close>

partial_function (option) perform_get ::
  "'w http \<Rightarrow> handle \<Rightarrow> mfs_write_buffer \<Rightarrow> 'w \<Rightarrow> ((CURLcode \<times> mfs_write_buffer) \<times> 'w) option" where
  "perform_get F conn buf w =
     (case curl_get_event F conn w of
        (Get_done res, w) \<Rightarrow> Some ((res, buf), w)
      | (Got_data b, w) \<Rightarrow>
          Option.bind (mfs_buffer_get_write_callback F b buf w) (\<lambda>((n, buf), w).
            perform_get F conn buf (curl_get_reply F conn n w)))"

text \<open>
  The variables of the caller: \<open>*bytes\<close>, where \<open>None\<close> is a NULL \<open>bytes\<close> and \<open>Some None\<close> a NULL
  \<open>*bytes\<close>; \<open>*total_bytes\<close>; \<open>*file\<close>; and the brigade that was passed in.
\<close>

record get_out =
  go_bytes :: "string option option"
  go_total_bytes :: nat
  go_file :: "handle option"
  go_brigade :: "apr_bucket_brigade option"

definition init_write_buffer :: "mfs_file_system \<Rightarrow> string option \<Rightarrow> get_out \<Rightarrow> mfs_write_buffer" where
  "init_write_buffer fs dest out =
     (let wbuf = \<lparr>wb_brigade = None, wb_dont_want_brigade = False, wb_current_size = 0, wb_file_size = 0,
                  wb_file = None, wb_file_system = fs, wb_destination_file_path = dest\<rparr>
      in case go_file out of
           Some file \<Rightarrow> wbuf\<lparr>wb_dont_want_brigade := True, wb_file := Some file\<rparr>
         | None \<Rightarrow>
             (case go_brigade out of
                Some brigade \<Rightarrow> wbuf\<lparr>wb_brigade := Some brigade\<rparr>
              | None \<Rightarrow> wbuf\<lparr>wb_dont_want_brigade := True, wb_brigade := Some []\<rparr>))"

definition get_options :: "mfs_file_system \<Rightarrow> string \<Rightarrow> curl_option list" where
  "get_options fs original_uri =
     [CURLOPT_URL original_uri, CURLOPT_HTTPGET 1,
      CURLOPT_WRITEFUNCTION Buffer_get_write, CURLOPT_WRITEDATA True,
      CURLOPT_SEEKFUNCTION Buffer_get_seek, CURLOPT_SEEKDATA True,
      CURLOPT_CONNECTTIMEOUT_MS (fs_file_server_timeout fs div 1000), CURLOPT_NOSIGNAL 1,
      CURLOPT_LOW_SPEED_TIME 60, CURLOPT_LOW_SPEED_LIMIT 30,
      CURLOPT_READFUNCTION None, CURLOPT_READDATA False, CURLOPT_BUFFERSIZE 524288]"

text \<open>Giving the connection back, and the status of the transfer.\<close>

definition get_status :: "'w http \<Rightarrow> handle \<Rightarrow> handle \<Rightarrow> CURLcode \<Rightarrow> 'w \<Rightarrow> apr_status \<times> 'w" where
  "get_status F reslist conn res w =
     (if res \<noteq> CURLE_OK then
        (case apr_reslist_invalidate F reslist conn w of (rv, w) \<Rightarrow>
           (if rv \<noteq> APR_SUCCESS then rv else APR_EGENERAL, w))
      else (case apr_reslist_release F reslist conn w of (_, w) \<Rightarrow> (APR_SUCCESS, w)))"

definition rewind_written :: "'w http \<Rightarrow> handle \<Rightarrow> mfs_write_buffer \<Rightarrow> 'w \<Rightarrow> 'w" where
  "rewind_written F file wbuf w =
     (if wb_current_size wbuf > 0 then snd (apr_file_seek_start F file w) else w)"

text \<open>
  The three ways to hand the result over: in the caller's file, in the caller's brigade, and as
  bytes or a new file. \<open>start_bucket\<close> is the last bucket the caller's brigade had before; after a
  failure the buckets behind it are deleted.
\<close>

definition cleanup_file ::
  "'w http \<Rightarrow> handle \<Rightarrow> mfs_write_buffer \<Rightarrow> apr_status \<Rightarrow> get_out \<Rightarrow> 'w \<Rightarrow> (apr_status \<times> get_out) \<times> 'w" where
  "cleanup_file F file wbuf rv out w = ((rv, out), rewind_written F file wbuf w)"

definition cleanup_brigade ::
  "apr_bucket_brigade \<Rightarrow> mfs_write_buffer \<Rightarrow> apr_status \<Rightarrow> get_out \<Rightarrow> apr_status \<times> get_out" where
  "cleanup_brigade before wbuf rv out =
     (let now = (case wb_brigade wbuf of None \<Rightarrow> [] | Some bs \<Rightarrow> bs)
      in (rv, out\<lparr>go_brigade := Some (
           if rv \<noteq> APR_SUCCESS \<and> wb_current_size wbuf > 0 then
             (if before = [] then [] else take (length before) now)
           else if rv = APR_SUCCESS then
             (case wb_file wbuf of None \<Rightarrow> now | Some file \<Rightarrow> now @ [File_bucket file 0 (wb_file_size wbuf)])
           else now)\<rparr>))"

definition cleanup_temporary ::
  "'w http \<Rightarrow> mfs_write_buffer \<Rightarrow> apr_status \<Rightarrow> get_out \<Rightarrow> 'w \<Rightarrow> ((apr_status \<times> get_out) \<times> 'w) option" where
  "cleanup_temporary F wbuf rv out w =
     (if rv \<noteq> APR_SUCCESS then Some ((rv, out), w)
      else case wb_file wbuf of
        Some file \<Rightarrow> Some ((rv, out\<lparr>go_file := Some file\<rparr>), rewind_written F file wbuf w)
      | None \<Rightarrow>
          (case (go_bytes out, wb_brigade wbuf) of
             (Some _, Some bs) \<Rightarrow>
               (case apr_brigade_pflatten F bs w of ((rv, bytes), w) \<Rightarrow>
                  Some ((rv, out\<lparr>go_bytes := Some (Some bytes),
                                go_total_bytes := (if rv = APR_SUCCESS then length bytes else go_total_bytes out)\<rparr>), w))
           | _ \<Rightarrow> None))"

definition finish_get ::
  "'w http \<Rightarrow> mfs_write_buffer \<Rightarrow> apr_status \<Rightarrow> get_out \<Rightarrow> 'w \<Rightarrow> ((apr_status \<times> get_out) \<times> 'w) option" where
  "finish_get F wbuf rv out w =
     (let out = (if rv = APR_SUCCESS then out\<lparr>go_total_bytes := wb_current_size wbuf\<rparr> else out)
      in case go_file out of
           Some file \<Rightarrow> Some (cleanup_file F file wbuf rv out w)
         | None \<Rightarrow>
             (case go_brigade out of
                Some before \<Rightarrow> Some (cleanup_brigade before wbuf rv out, w)
              | None \<Rightarrow> cleanup_temporary F wbuf rv out w))"

text \<open>As for uploads, a file server that cannot be got is reported as the status 1.\<close>

definition mfs_file_server_get ::
  "'w apr \<Rightarrow> 'w http \<Rightarrow> mfs_file_system \<Rightarrow> string \<Rightarrow> string \<Rightarrow> get_out \<Rightarrow> string option \<Rightarrow> 'w \<Rightarrow>
     ((apr_status \<times> get_out) \<times> mfs_file_system \<times> 'w) option" where
  "mfs_file_server_get E F fs hostinfo original_uri out dest w =
     Option.bind (mfs_get_file_server E F fs hostinfo w) (\<lambda>((rv, server), fs, w).
       if rv \<noteq> APR_SUCCESS then Some ((APR_OTHER 1, out), fs, w)
       else case server of
         None \<Rightarrow> None
       | Some server \<Rightarrow>
           (case apr_reslist_acquire F (fsv_connections server) w of ((rv, conn), w) \<Rightarrow>
              if rv \<noteq> APR_SUCCESS then Some ((rv, out), fs, w)
              else Option.bind (perform_get F conn (init_write_buffer fs dest out)
                                  (set_options F conn (get_options fs original_uri) w))
                (\<lambda>((res, wbuf), w).
                  case get_status F (fsv_connections server) conn res w of (rv, w) \<Rightarrow>
                    map_option (\<lambda>(r, w). (r, fs, w)) (finish_get F wbuf rv out w))))"

section \<open>Trying the paths\<close>

text \<open>The loop over the paths; \<open>*bytes = NULL\<close> at its start needs \<open>bytes\<close> not to be NULL.\<close>

fun get_loop ::
  "'w apr \<Rightarrow> 'w http \<Rightarrow> string option \<Rightarrow> int \<Rightarrow> string list \<Rightarrow> apr_status \<Rightarrow> get_out \<Rightarrow> mfs_file_system \<Rightarrow> 'w \<Rightarrow>
     ((apr_status \<times> get_out) \<times> mfs_file_system \<times> 'w) option" where
  "get_loop E F dest requiredLength [] rv out fs w = Some ((rv, out), fs, w)"
| "get_loop E F dest requiredLength (path # paths) rv out fs w =
     (case go_bytes out of
        None \<Rightarrow> None
      | Some _ \<Rightarrow>
          let out = out\<lparr>go_bytes := Some None\<rparr>
          in case apr_uri_parse F path of (rv, uri) \<Rightarrow>
               if rv \<noteq> APR_SUCCESS then get_loop E F dest requiredLength paths rv out fs w
               else case (u_hostinfo uri, u_scheme uri, u_path uri) of
                 (Some hostinfo, Some _, Some _) \<Rightarrow>
                   Option.bind (mfs_file_server_get E F fs hostinfo path out dest w) (\<lambda>((rv, out), fs, w).
                     if rv \<noteq> APR_SUCCESS then get_loop E F dest requiredLength paths rv out fs w
                     else if requiredLength \<ge> 0 \<and> int (go_total_bytes out) \<noteq> requiredLength then
                       get_loop E F dest requiredLength paths APR_EGENERAL out fs w
                     else Some ((APR_SUCCESS, out), fs, w))
               | _ \<Rightarrow> get_loop E F dest requiredLength paths APR_EGENERAL out fs w)"

definition mfs_file_system_get ::
  "'w apr \<Rightarrow> 'w http \<Rightarrow> mfs_file_system \<Rightarrow> string \<Rightarrow> string \<Rightarrow> get_out \<Rightarrow> handle \<Rightarrow> string option \<Rightarrow> int \<Rightarrow> 'w \<Rightarrow>
     ((apr_status \<times> get_out) \<times> mfs_file_system \<times> 'w) option" where
  "mfs_file_system_get E F fs domain key out pool dest requiredLength w =
     Option.bind (mfs_get_paths E F fs domain key True pool w) (\<lambda>((rv, paths, path_count), fs, w).
       if rv \<noteq> APR_SUCCESS then Some ((rv, out), fs, w)
       else case paths of
         None \<Rightarrow> None
       | Some paths \<Rightarrow> get_loop E F dest requiredLength paths rv out fs w)"

text \<open>The interface; \<open>total_bytes\<close> is the value \<open>*total_bytes\<close> had before.\<close>

definition mfs_get_file where
  "mfs_get_file E F fs domain key total_bytes file pool requiredLength w =
     mfs_file_system_get E F fs domain key
       \<lparr>go_bytes = None, go_total_bytes = total_bytes, go_file = file, go_brigade = None\<rparr> pool None requiredLength w"

definition mfs_get_file_or_bytes where
  "mfs_get_file_or_bytes E F fs domain key total_bytes bytes file pool dest requiredLength w =
     mfs_file_system_get E F fs domain key
       \<lparr>go_bytes = Some bytes, go_total_bytes = total_bytes, go_file = file, go_brigade = None\<rparr> pool dest requiredLength w"

definition mfs_get_brigade where
  "mfs_get_brigade E F fs domain key total_bytes brigade pool requiredLength w =
     mfs_file_system_get E F fs domain key
       \<lparr>go_bytes = None, go_total_bytes = total_bytes, go_file = None, go_brigade = Some brigade\<rparr> pool None requiredLength w"

end
