(* ===== verification/DownloadFacts.thy ===== *)
theory DownloadFacts
  imports Download
begin

text \<open>
  What fetching guarantees: the data handed over is the data that was sent, in memory up to the
  limit and in a file beyond it; what a retry does to the file of the attempt before; and that two
  of the three functions of the interface can only fail.
\<close>

section \<open>Files and curl\<close>

text \<open>
  A view of the world gives the contents and the position of an open file. \<open>apr_file_write_full\<close>
  reports how many bytes it wrote and writes them at the position, all of them if it succeeds; a
  temporary file is empty, an opened one starts at its beginning; rewinding keeps the contents; and
  curl and the resource lists leave the library's files alone.
\<close>

definition file_law :: "'w http \<Rightarrow> ('w \<Rightarrow> handle \<Rightarrow> (string \<times> nat) option) \<Rightarrow> bool" where
  "file_law F view \<longleftrightarrow>
     (\<forall>f s w x rv n w'. view w f = Some x \<longrightarrow> apr_file_write_full F f s w = ((rv, n), w') \<longrightarrow>
        view w' f = Some (overwrite (take n s) x) \<and> (rv = APR_SUCCESS \<longrightarrow> n = length s))
   \<and> (\<forall>t w f w'. apr_file_mktemp F t w = ((APR_SUCCESS, f), w') \<longrightarrow> view w' f = Some ([], 0))
   \<and> (\<forall>n w f w'. apr_file_open F n w = ((APR_SUCCESS, f), w') \<longrightarrow> (\<exists>old. view w' f = Some (old, 0)))
   \<and> (\<forall>f w x. view w f = Some x \<longrightarrow> (\<exists>p. view (snd (apr_file_seek_start F f w)) f = Some (fst x, p)))
   \<and> (\<forall>c w. view (snd (curl_get_event F c w)) = view w)
   \<and> (\<forall>c n w. view (curl_get_reply F c n w) = view w)
   \<and> (\<forall>r c w. view (snd (apr_reslist_release F r c w)) = view w)"

lemma file_laws:
  assumes "file_law F view"
  shows "view w f = Some x \<Longrightarrow> apr_file_write_full F f s w = ((rv, n), w') \<Longrightarrow> view w' f = Some (overwrite (take n s) x)"
    and "view w f = Some x \<Longrightarrow> apr_file_write_full F f s w = ((APR_SUCCESS, n), w') \<Longrightarrow> n = length s"
    and "apr_file_mktemp F t w = ((APR_SUCCESS, f), w') \<Longrightarrow> view w' f = Some ([], 0)"
    and "apr_file_open F t w = ((APR_SUCCESS, f), w') \<Longrightarrow> \<exists>old. view w' f = Some (old, 0)"
    and "view w f = Some x \<Longrightarrow> \<exists>p. view (snd (apr_file_seek_start F f w)) f = Some (fst x, p)"
    and "curl_get_event F c w = (e, w') \<Longrightarrow> view w' = view w"
    and "view (curl_get_reply F c k w) = view w"
    and "apr_reslist_release F r c w = (st, w') \<Longrightarrow> view w' = view w"
proof -
  note law = assms [unfolded file_law_def]
  show "view w f = Some x \<Longrightarrow> apr_file_write_full F f s w = ((rv, n), w') \<Longrightarrow> view w' f = Some (overwrite (take n s) x)"
    using law [THEN conjunct1] by blast
  show "view w f = Some x \<Longrightarrow> apr_file_write_full F f s w = ((APR_SUCCESS, n), w') \<Longrightarrow> n = length s"
    using law [THEN conjunct1] by blast
  show "apr_file_mktemp F t w = ((APR_SUCCESS, f), w') \<Longrightarrow> view w' f = Some ([], 0)"
    using law [THEN conjunct2, THEN conjunct1] by blast
  show "apr_file_open F t w = ((APR_SUCCESS, f), w') \<Longrightarrow> \<exists>old. view w' f = Some (old, 0)"
    using law [THEN conjunct2, THEN conjunct2, THEN conjunct1] by blast
  show "view w f = Some x \<Longrightarrow> \<exists>p. view (snd (apr_file_seek_start F f w)) f = Some (fst x, p)"
    using law [THEN conjunct2, THEN conjunct2, THEN conjunct2, THEN conjunct1] by blast
  have "view (snd (curl_get_event F c w)) = view w" using law by simp
  then show "curl_get_event F c w = (e, w') \<Longrightarrow> view w' = view w" by simp
  show "view (curl_get_reply F c k w) = view w" using law by simp
  have "view (snd (apr_reslist_release F r c w)) = view w" using law by simp
  then show "apr_reslist_release F r c w = (st, w') \<Longrightarrow> view w' = view w" by simp
qed

text \<open>What happens in a transfer: the pieces with what the callback returned, and the result.\<close>

inductive get_run ::
  "'w http \<Rightarrow> handle \<Rightarrow> mfs_write_buffer \<Rightarrow> 'w \<Rightarrow> (string \<times> nat) list \<Rightarrow> CURLcode \<Rightarrow> mfs_write_buffer \<Rightarrow> 'w \<Rightarrow> bool"
  for F :: "'w http" and conn :: handle where
  get_done: "curl_get_event F conn w = (Get_done res, w') \<Longrightarrow> get_run F conn buf w [] res buf w'"
| get_data: "curl_get_event F conn w = (Got_data b, w1) \<Longrightarrow>
    mfs_buffer_get_write_callback F b buf w1 = Some ((n, buf1), w2) \<Longrightarrow>
    get_run F conn buf1 (curl_get_reply F conn n w2) ps res buf' w' \<Longrightarrow>
    get_run F conn buf w ((b, n) # ps) res buf' w'"

inductive_cases get_run_consE: "get_run F conn buf w ((b, n) # ps) res buf' w'"
inductive_simps get_run_nil [simp]: "get_run F conn buf w [] res buf' w'"

lemma perform_get_run:
  assumes "perform_get F conn buf w = Some ((res, buf'), w')"
  shows "\<exists>ps. get_run F conn buf w ps res buf' w'"
proof -
  have "case y of ((res, buf'), w') \<Rightarrow> \<exists>ps. get_run F conn buf w ps res buf' w'"
    if "perform_get F conn buf w = Some y" for y
  proof (rule perform_get.raw_induct [where P = "\<lambda>F' conn buf w y. F' = F \<longrightarrow>
      (case y of ((res, buf'), w') \<Rightarrow> \<exists>ps. get_run F conn buf w ps res buf' w')", THEN mp, OF _ that refl], goal_cases)
    case (1 f F' conn buf w y)
    show ?case
    proof
      assume F': "F' = F"
      obtain e w1 where ev: "curl_get_event F conn w = (e, w1)" by force
      show "case y of ((res, buf'), w') \<Rightarrow> \<exists>ps. get_run F conn buf w ps res buf' w'"
      proof (cases e)
        case (Got_data b)
        obtain n buf1 w2 where cb: "mfs_buffer_get_write_callback F b buf w1 = Some ((n, buf1), w2)"
          and rec: "f F conn buf1 (curl_get_reply F conn n w2) = Some y"
          using 1(2) [unfolded F'] ev Got_data by (auto split: bind_splits)
        have "case y of ((res, buf'), w') \<Rightarrow> \<exists>ps. get_run F conn buf1 (curl_get_reply F conn n w2) ps res buf' w'"
          using 1(1) [OF rec] by simp
        then show ?thesis using get_data [OF ev [unfolded Got_data] cb] by fast
      next
        case (Get_done res)
        then have "y = ((res, buf), w1)" using 1(2) [unfolded F'] ev by simp
        then show ?thesis using get_done [OF ev [unfolded Get_done]] by fast
      qed
    qed
  qed
  with assms show ?thesis by fast
qed

text \<open>\<open>curl_easy_perform\<close> succeeds only if the callback took every piece whole.\<close>

definition whole_pieces_law :: "'w http \<Rightarrow> bool" where
  "whole_pieces_law F \<longleftrightarrow> (\<forall>conn buf w ps buf' w'. get_run F conn buf w ps CURLE_OK buf' w' \<longrightarrow>
     (\<forall>p \<in> set ps. snd p = length (fst p)))"

section \<open>What the callback has stored\<close>

text \<open>
  The buffer holds \<open>data\<close>: in memory buckets while it fits, or at the start of a file over what the
  file held before. \<open>P\<close> says which file and what it held; \<open>temporary\<close> that the file was opened by the
  callback.
\<close>

definition holds ::
  "('w \<Rightarrow> handle \<Rightarrow> (string \<times> nat) option) \<Rightarrow> bool \<Rightarrow> (handle \<Rightarrow> string \<Rightarrow> bool) \<Rightarrow> mfs_file_system \<Rightarrow> string option \<Rightarrow>
     mfs_write_buffer \<Rightarrow> 'w \<Rightarrow> string \<Rightarrow> bool" where
  "holds view temporary P fs dest buf w data \<longleftrightarrow> wb_current_size buf = length data \<and> wb_dont_want_brigade buf
     \<and> wb_file_system buf = fs \<and> wb_destination_file_path buf = dest
     \<and> (case wb_file buf of
          None \<Rightarrow> temporary \<and> length data \<le> fs_max_buffer_size fs \<and> (\<exists>ss. wb_brigade buf = Some (map Pool_bucket ss) \<and> concat ss = data)
        | Some f \<Rightarrow> (temporary \<longrightarrow> fs_max_buffer_size fs < length data)
            \<and> (\<exists>old. P f old \<and> view w f = Some (data @ drop (length data) old, length data)))"

lemma holds_view: "view w' = view w \<Longrightarrow> holds view temporary P fs dest buf w' data = holds view temporary P fs dest buf w data"
  by (cases "wb_file buf") (simp_all add: holds_def)

lemma overwrite_end:
  "overwrite b (data @ drop (length data) old, length data) = ((data @ b) @ drop (length (data @ b)) old, length (data @ b))"
  by (simp add: overwrite_def add.commute)

lemma spill_buckets_written:
  assumes "file_law F view" and "bucket_law F"
  shows "spill_buckets F f (map Pool_bucket ss) buf w = ((True, buf'), w') \<Longrightarrow>
    view w f = Some (data @ drop (length data) old, length data) \<Longrightarrow>
    view w' f = Some ((data @ concat ss) @ drop (length (data @ concat ss)) old, length (data @ concat ss))
    \<and> (\<exists>k. buf' = buf\<lparr>wb_file_size := k\<rparr>)"
proof (induction ss arbitrary: buf w data)
  case Nil
  then show ?case by (auto intro: exI [of _ "wb_file_size buf"])
next
  case (Cons s ss)
  have read: "apr_bucket_read F (Pool_bucket s) w = ((APR_SUCCESS, s), w)" using assms(2) by (simp add: bucket_law_def)
  obtain rv n w1 where wr: "apr_file_write_full F f s w = ((rv, n), w1)" by (metis prod.exhaust)
  have rv: "rv = APR_SUCCESS" and rest: "spill_buckets F f (map Pool_bucket ss)
      (buf\<lparr>wb_file_size := wb_file_size buf + length s\<rparr>) w1 = ((True, buf'), w')"
    using Cons.prems(1) by (auto simp: read wr split: if_splits)
  have "n = length s" using file_laws(2) [OF assms(1) Cons.prems(2)] wr rv by blast
  then have "view w1 f = Some ((data @ s) @ drop (length (data @ s)) old, length (data @ s))"
    using file_laws(1) [OF assms(1) Cons.prems(2) wr] by (simp add: overwrite_end)
  from Cons.IH [OF rest this] show ?case by auto
qed

lemma callback_holds:
  assumes "file_law F view" and "bucket_law F" and "holds view temporary P fs dest buf w data"
    and "\<And>f old. P f old \<longleftrightarrow> (if temporary then dest = None \<longrightarrow> old = [] else Q f old)"
    and "mfs_buffer_get_write_callback F b buf w = Some ((n, buf'), w')" and "n = length b"
  shows "holds view temporary P fs dest buf' w' (data @ b)"
proof (cases "wb_file buf")
  case (Some f)
  obtain rv k w1 where wr: "apr_file_write_full F f b w = ((rv, k), w1)" by (metis prod.exhaust)
  obtain old where old: "P f old" "view w f = Some (data @ drop (length data) old, length data)"
    using assms(3) Some by (auto simp: holds_def)
  have r: "k = length b" "w' = w1" "buf' = buf\<lparr>wb_file_size := wb_file_size buf + length b,
      wb_current_size := wb_current_size buf + length b\<rparr>"
    using assms(5,6) by (simp_all add: mfs_buffer_get_write_callback_def Some wr)
  have "view w' f = Some ((data @ b) @ drop (length (data @ b)) old, length (data @ b))"
    using file_laws(1) [OF assms(1) old(2) wr] r by (simp add: overwrite_end)
  then show ?thesis using assms(3) Some old(1) r(3) by (auto simp: holds_def)
next
  case None
  then obtain ss where mem: "temporary" "length data \<le> fs_max_buffer_size fs" "wb_brigade buf = Some (map Pool_bucket ss)"
      "concat ss = data"
    and buf: "wb_current_size buf = length data" "wb_dont_want_brigade buf" "wb_file_system buf = fs"
      "wb_destination_file_path buf = dest"
    using assms(3) by (auto simp: holds_def)
  show ?thesis
  proof (cases "length b + length data > fs_max_buffer_size fs")
    case False
    then have mem': "buf' = buf\<lparr>wb_brigade := Some (map Pool_bucket (ss @ [b])), wb_current_size := length data + length b\<rparr>" "w' = w"
      using assms(5) by (auto simp: mfs_buffer_get_write_callback_def None mem buf assms(6) add.commute)
    have "concat (ss @ [b]) = data @ b" using mem(4) by simp
    with mem' show ?thesis
      unfolding holds_def using False None mem(1) buf by (auto intro: exI [of _ "ss @ [b]"])
  next
    case True
    then have nonempty: "b \<noteq> []" using mem(2) by auto
    obtain rv f w1 where spill: "open_spill_file F dest w = Some ((rv, f), w1)" and rv: "rv = APR_SUCCESS"
      using assms(5,6) nonempty True
      by (auto simp: mfs_buffer_get_write_callback_def None mem buf split: bind_splits if_splits)
    have "\<exists>old. P f old \<and> view w1 f = Some (old, 0)"
    proof (cases dest)
      case None
      then have "apr_file_mktemp F ''mogile_fs_XXXXXX'' w = ((APR_SUCCESS, f), w1)"
        using spill rv by (simp add: open_spill_file_def)
      from file_laws(3) [OF assms(1) this] show ?thesis by (simp add: assms(4) mem(1))
    next
      case (Some path)
      obtain i where "find_last_slash path (length path) = Some i"
        using spill Some by (auto simp: open_spill_file_def split: option.splits)
      then obtain w0 where "apr_file_open F path w0 = ((APR_SUCCESS, f), w1)"
        using spill rv Some by (auto simp: open_spill_file_def split: prod.splits)
      from file_laws(4) [OF assms(1) this] Some show ?thesis by (simp add: assms(4) mem(1))
    qed
    then obtain old where old: "P f old" "view w1 f = Some (([] :: string) @ drop (length ([] :: string)) old, length ([] :: string))" by auto
    let ?buf = "buf\<lparr>wb_file := Some f\<rparr>"
    obtain ok buf2 w2 where sb: "spill_buckets F f (map Pool_bucket ss) ?buf w1 = ((ok, buf2), w2)" by (metis prod.exhaust)
    have ok: "ok" and last: "write_current F f b buf2 w2 = ((n, buf'), w')"
      using assms(5,6) nonempty True spill rv sb
      by (auto simp: mfs_buffer_get_write_callback_def None mem buf Let_def split: if_splits)
    from spill_buckets_written [OF assms(1,2) sb [unfolded eqTrueI [OF ok]] old(2)] obtain k where
      view2: "view w2 f = Some (data @ drop (length data) old, length data)" and buf2: "buf2 = ?buf\<lparr>wb_file_size := k\<rparr>"
      using mem(4) by auto
    obtain rv3 k3 w3 where wr: "apr_file_write_full F f b w2 = ((rv3, k3), w3)" by (metis prod.exhaust)
    have r: "k3 = length b" "w' = w3" "buf' = buf2\<lparr>wb_file_size := wb_file_size buf2 + length b,
        wb_current_size := wb_current_size buf2 + length b\<rparr>"
      using last assms(6) nonempty by (auto simp: write_current_def wr split: if_splits)
    have "view w' f = Some ((data @ b) @ drop (length (data @ b)) old, length (data @ b))"
      using file_laws(1) [OF assms(1) view2 wr] r by (simp add: overwrite_end)
    then show ?thesis using buf r(3) buf2 True old(1) by (auto simp: holds_def)
  qed
qed

lemma get_run_holds:
  assumes "file_law F view" and "bucket_law F"
    and "\<And>f old. P f old \<longleftrightarrow> (if temporary then dest = None \<longrightarrow> old = [] else Q f old)"
  shows "get_run F conn buf w ps res buf' w' \<Longrightarrow> \<forall>p \<in> set ps. snd p = length (fst p) \<Longrightarrow>
    holds view temporary P fs dest buf w data \<Longrightarrow> holds view temporary P fs dest buf' w' (data @ concat (map fst ps))"
proof (induction arbitrary: data rule: get_run.induct)
  case (get_done w res w' buf)
  then show ?case using holds_view [OF file_laws(6) [OF assms(1) get_done(1)]] by simp
next
  case (get_data w b w1 buf n buf1 w2 ps res buf' w')
  have "holds view temporary P fs dest buf w1 data"
    using get_data.prems(2) holds_view [OF file_laws(6) [OF assms(1) get_data.hyps(1)]] by simp
  moreover have "n = length b" using get_data.prems(1) by simp
  ultimately have "holds view temporary P fs dest buf1 w2 (data @ b)"
    by (intro callback_holds [where P = P and Q = Q, OF assms(1,2) _ assms(3) get_data.hyps(2)])
  then have "holds view temporary P fs dest buf1 (curl_get_reply F conn n w2) (data @ b)"
    using holds_view [where view = view, OF file_laws(7) [OF assms(1)]] by simp
  with get_data.IH [of "data @ b"] get_data.prems(1) show ?case by simp
qed

text \<open>The count of a transfer into a file, wherever the file is.\<close>

lemma get_run_file_size:
  "get_run F conn buf w ps res buf' w' \<Longrightarrow> \<forall>p \<in> set ps. snd p = length (fst p) \<Longrightarrow> wb_file buf = Some f \<Longrightarrow>
   wb_current_size buf = k \<Longrightarrow> wb_current_size buf' = k + length (concat (map fst ps))"
proof (induction arbitrary: k rule: get_run.induct)
  case (get_data w b w1 buf n buf1 w2 ps res buf' w')
  then have "wb_file buf1 = Some f" "wb_current_size buf1 = k + length b"
    by (auto simp: mfs_buffer_get_write_callback_def split: prod.splits)
  from get_data.IH [OF _ this] get_data.prems(1) show ?case by simp
qed simp

section \<open>One transfer\<close>

lemma get_server_limit:
  assumes "mfs_get_file_server E F fs h w = Some ((st, so), fs', w')"
  shows "fs_max_buffer_size fs' = fs_max_buffer_size fs"
proof -
  obtain r w1 where look: "lookup_file_server E fs h w = Some (r, w1)"
    using assms by (auto simp: mfs_get_file_server_def split: bind_splits)
  show ?thesis
  proof (cases r)
    case None
    then have "add_file_server E F fs h w1 = Some ((st, so), fs', w')" using assms look by (simp add: mfs_get_file_server_def)
    from add_file_server_cases [OF this] show ?thesis by auto
  qed (use assms look in \<open>simp add: mfs_get_file_server_def\<close>)
qed

lemma file_server_get_parts:
  assumes "mfs_file_server_get E F fs h uri out dest w = Some ((APR_SUCCESS, out'), fs', w')"
    and "go_file out \<noteq> None \<or> go_brigade out = None"
  shows "\<exists>conn r w1 ps buf st w2 w3. get_run F conn (init_write_buffer fs' dest out) w1 ps CURLE_OK buf w2
    \<and> apr_reslist_release F r conn w2 = (st, w3) \<and> finish_get F buf APR_SUCCESS out w3 = Some ((APR_SUCCESS, out'), w')
    \<and> fs_max_buffer_size fs' = fs_max_buffer_size fs"
proof -
  obtain rv so fs1 w0 where get: "mfs_get_file_server E F fs h w = Some ((rv, so), fs1, w0)"
    using assms(1) by (auto simp: mfs_file_server_get_def split: bind_splits)
  obtain s where s: "so = Some s" and rv: "rv = APR_SUCCESS"
    using assms(1) get by (auto simp: mfs_file_server_get_def split: option.splits if_splits)
  obtain rv2 conn wa where acq: "apr_reslist_acquire F (fsv_connections s) w0 = ((rv2, conn), wa)" by (metis prod.exhaust)
  have rv2: "rv2 = APR_SUCCESS"
  proof (rule ccontr)
    assume "rv2 \<noteq> APR_SUCCESS"
    then show False using assms(1) by (simp add: mfs_file_server_get_def get s rv acq)
  qed
  let ?w1 = "set_options F conn (get_options fs1 uri) wa"
  obtain res buf w2 where run: "perform_get F conn (init_write_buffer fs1 dest out) ?w1 = Some ((res, buf), w2)"
    using assms(1) by (auto simp: mfs_file_server_get_def get s rv acq rv2 split: bind_splits)
  obtain st w3 where status: "get_status F (fsv_connections s) conn res w2 = (st, w3)" by force
  have fin: "finish_get F buf st out w3 = Some ((APR_SUCCESS, out'), w')" and fs': "fs' = fs1"
    using assms(1) by (auto simp: mfs_file_server_get_def get s rv acq rv2 run status)
  have "st = APR_SUCCESS"
    using fin assms(2)
    by (auto simp: finish_get_def cleanup_file_def cleanup_temporary_def Let_def split: option.splits if_splits)
  moreover from this have "res = CURLE_OK" and "\<exists>st'. apr_reslist_release F (fsv_connections s) conn w2 = (st', w3)"
    using status by (auto simp: get_status_def split: if_splits prod.splits)
  ultimately show ?thesis
    using perform_get_run [OF run] fin fs' get_server_limit [OF get] by blast
qed

text \<open> C3: When one transfer reports success, what the caller gets is what the file server sent. With no
  file passed in, it is the bytes themselves while they fit into \<open>max_buffer_size\<close> and otherwise a
  file that starts with them, and a temporary file holds nothing else. With a file passed in they
  replace the start of that file, and what it held beyond them stays. \<close>

theorem get_delivers_what_was_sent:
  assumes "file_law F view" and "bucket_law F" and "whole_pieces_law F"
    and "mfs_file_server_get E F fs h uri out dest w = Some ((APR_SUCCESS, out'), fs', w')"
    and "go_brigade out = None"
  shows "\<exists>conn w1 ps buf w2. get_run F conn (init_write_buffer fs' dest out) w1 ps CURLE_OK buf w2
    \<and> (let sent = concat (map fst ps) in
        go_total_bytes out' = length sent
      \<and> (case go_file out of
           None \<Rightarrow>
             if length sent \<le> fs_max_buffer_size fs then go_bytes out' = Some (Some sent) \<and> go_file out' = None
             else (\<exists>f old p. go_file out' = Some f \<and> view w' f = Some (sent @ drop (length sent) old, p)
                    \<and> (dest = None \<longrightarrow> old = []))
         | Some f \<Rightarrow> go_file out' = Some f
             \<and> (\<forall>old. view w1 f = Some (old, 0) \<longrightarrow> (\<exists>p. view w' f = Some (sent @ drop (length sent) old, p)))))"
proof -
  obtain conn r w1 ps buf st w2 w3 where run: "get_run F conn (init_write_buffer fs' dest out) w1 ps CURLE_OK buf w2"
    and rel: "apr_reslist_release F r conn w2 = (st, w3)"
    and fin: "finish_get F buf APR_SUCCESS out w3 = Some ((APR_SUCCESS, out'), w')"
    and limit: "fs_max_buffer_size fs' = fs_max_buffer_size fs"
    using file_server_get_parts [OF assms(4)] assms(5) by blast
  have whole: "\<forall>p \<in> set ps. snd p = length (fst p)" using assms(3) run unfolding whole_pieces_law_def by blast
  let ?sent = "concat (map fst ps)"
  note view3 = file_laws(8) [OF assms(1) rel]
  have rewound: "\<exists>p. view (rewind_written F f buf w3) f = Some (c, p)" if "view w2 f = Some (c, q)" for f c q
    using that view3 file_laws(5) [OF assms(1), of w3 f] by (simp add: rewind_written_def)
  show ?thesis
  proof (cases "go_file out")
    case None
    let ?P = "\<lambda>f old. dest = None \<longrightarrow> old = []"
    have "holds view True ?P fs' dest (init_write_buffer fs' dest out) w1 []"
      using None assms(5) by (auto simp: holds_def init_write_buffer_def Let_def intro: exI [of _ "[]"])
    from get_run_holds [where temporary = True and P = ?P and data = "[]", OF assms(1,2) _ run whole this]
    have holds: "holds view True ?P fs' dest buf w2 ?sent" by simp
    show ?thesis
    proof (cases "wb_file buf")
      case mem: None
      then obtain ss where ss: "wb_brigade buf = Some (map Pool_bucket ss)" "concat ss = ?sent"
        and le: "length ?sent \<le> fs_max_buffer_size fs"
        using holds limit by (auto simp: holds_def)
      have flat: "apr_brigade_pflatten F (map Pool_bucket ss) w3 = ((APR_SUCCESS, ?sent), w3)"
        using assms(2) ss(2) by (simp add: bucket_law_def)
      have "go_bytes out' = Some (Some ?sent)" "go_file out' = None" "go_total_bytes out' = length ?sent"
        using fin None assms(5) mem
        by (auto simp: finish_get_def cleanup_temporary_def ss(1) flat Let_def split: option.splits)
      with run None le show ?thesis
        by (intro exI [of _ conn] exI [of _ w1] exI [of _ ps] exI [of _ buf] exI [of _ w2]) (simp add: Let_def)
    next
      case (Some f)
      then obtain old where old: "?P f old" "view w2 f = Some (?sent @ drop (length ?sent) old, length ?sent)"
        and gt: "\<not> length ?sent \<le> fs_max_buffer_size fs" and size: "wb_current_size buf = length ?sent"
        using holds limit by (auto simp: holds_def)
      have out': "go_file out' = Some f" "go_total_bytes out' = length ?sent" "w' = rewind_written F f buf w3"
        using fin None assms(5) Some size by (auto simp: finish_get_def cleanup_temporary_def Let_def)
      have "\<exists>f old p. go_file out' = Some f \<and> view w' f = Some (?sent @ drop (length ?sent) old, p) \<and> (dest = None \<longrightarrow> old = [])"
        using rewound [OF old(2)] old(1) out' by blast
      with run None gt out'(2) show ?thesis
        by (intro exI [of _ conn] exI [of _ w1] exI [of _ ps] exI [of _ buf] exI [of _ w2]) (simp add: Let_def)
    qed
  next
    case (Some f)
    have out': "go_file out' = Some f" "go_total_bytes out' = wb_current_size buf" "w' = rewind_written F f buf w3"
      using fin Some by (auto simp: finish_get_def cleanup_file_def Let_def)
    have size: "wb_current_size buf = length ?sent"
      by (rule get_run_file_size [OF run whole, of f 0, simplified]) (simp_all add: init_write_buffer_def Some Let_def)
    have "\<exists>p. view w' f = Some (?sent @ drop (length ?sent) old, p)" if "view w1 f = Some (old, 0)" for old
    proof -
      let ?P = "\<lambda>g old'. g = f \<and> old' = old"
      have "holds view False ?P fs' dest (init_write_buffer fs' dest out) w1 []"
        using that by (simp add: holds_def init_write_buffer_def Some Let_def)
      from get_run_holds [where temporary = False and P = ?P and Q = ?P and data = "[]", OF assms(1,2) _ run whole this]
      have "holds view False ?P fs' dest buf w2 ?sent" by simp
      then have "view w2 f = Some (?sent @ drop (length ?sent) old, length ?sent)"
        by (auto simp: holds_def split: option.splits)
      from rewound [OF this] out'(3) show ?thesis by simp
    qed
    with run Some out'(1,2) size show ?thesis
      by (intro exI [of _ conn] exI [of _ w1] exI [of _ ps] exI [of _ buf] exI [of _ w2]) (simp add: Let_def)
  qed
qed

section \<open>On the scripted network\<close>

definition sim_view :: "sim \<Rightarrow> handle \<Rightarrow> (string \<times> nat) option" where
  "sim_view w f = (if f < length (sim_files w) then Some (sim_files w ! f) else None)"

lemma sim_file_law: "file_law sim_http sim_view"
  unfolding file_law_def
  by (intro conjI)
    (auto simp: sim_http_def sim_view_def sim_new_file_def nth_append split: if_splits list.splits)

text \<open>The calls of a download, evaluated.\<close>

lemma sim_get_eval:
  "sim_get_events w = e # es \<Longrightarrow> curl_get_event sim_http c w = (e, w\<lparr>sim_get_events := es\<rparr>)"
  "sim_get_events w = [] \<Longrightarrow> curl_get_event sim_http c w = (Get_done CURLE_OK, w)"
  "curl_get_reply sim_http c n w = w"
  "apr_file_write_full sim_http f s w = ((APR_SUCCESS, length s), w\<lparr>sim_files := (sim_files w)[f := overwrite s (sim_files w ! f)]\<rparr>)"
  "apr_file_mktemp sim_http t w = ((APR_SUCCESS, length (sim_files w)), w\<lparr>sim_files := sim_files w @ [([], 0)]\<rparr>)"
  "apr_file_open sim_http t w = ((APR_SUCCESS, length (sim_files w)), w\<lparr>sim_files := sim_files w @ [([], 0)]\<rparr>)"
  "apr_bucket_read sim_http (Pool_bucket s) w = ((APR_SUCCESS, s), w)"
  "apr_file_seek_start sim_http f w = (APR_SUCCESS, w\<lparr>sim_files := (sim_files w)[f := (fst (sim_files w ! f), 0)]\<rparr>)"
  "apr_reslist_release sim_http r c w = (APR_SUCCESS, w)"
  "apr_reslist_acquire sim_http r w = ((APR_SUCCESS, sim_next w), w\<lparr>sim_next := Suc (sim_next w)\<rparr>)"
  "apr_uri_parse sim_http t = (APR_SUCCESS, \<lparr>u_scheme = Some ''http'', u_hostinfo = Some ''h'', u_path = Some t\<rparr>)"
  by (simp_all add: sim_http_def sim_new_file_def sim_fresh_def)

lemma sim_bucket_read: "\<exists>s. apr_bucket_read sim_http b w = ((APR_SUCCESS, s), w)"
  by (simp add: sim_http_def)

lemma sim_spill: "spill_buckets sim_http f bs buf w = ((ok, buf'), w') \<Longrightarrow> ok"
proof (induction bs arbitrary: buf w)
  case (Cons b bs)
  obtain s where "apr_bucket_read sim_http b w = ((APR_SUCCESS, s), w)" using sim_bucket_read by blast
  with Cons show ?case by (auto simp: sim_get_eval)
qed simp

lemma sim_write_current: "write_current sim_http f b buf w = ((n, buf'), w') \<Longrightarrow> n = length b"
  by (auto simp: write_current_def sim_http_def)

lemma sim_open_spill: "open_spill_file sim_http dest w = Some ((rv, f), w') \<Longrightarrow> rv = APR_SUCCESS"
  by (auto simp: open_spill_file_def sim_http_def sim_new_file_def split: option.splits)

lemma sim_callback:
  assumes "mfs_buffer_get_write_callback sim_http b buf w = Some ((n, buf'), w')"
  shows "n = length b"
proof (cases "wb_file buf")
  case (Some f)
  then show ?thesis using assms by (auto simp: mfs_buffer_get_write_callback_def sim_http_def)
next
  case None
  show ?thesis
  proof (cases "length b + wb_current_size buf > fs_max_buffer_size (wb_file_system buf)")
    case True
    then obtain rv f w1 where sp: "open_spill_file sim_http (wb_destination_file_path buf) w = Some ((rv, f), w1)"
      using assms None by (auto simp: mfs_buffer_get_write_callback_def split: bind_splits)
    have rv: "rv = APR_SUCCESS" by (rule sim_open_spill [OF sp])
    let ?buf = "buf\<lparr>wb_file := Some f\<rparr>"
    note call = assms [unfolded mfs_buffer_get_write_callback_def]
    show ?thesis
    proof (cases "wb_dont_want_brigade buf")
      case want: True
      then obtain bs where bs: "wb_brigade buf = Some bs"
        using call None \<open>length b + _ > _\<close> by (auto simp: sp rv Let_def split: option.splits)
      obtain ok buf2 w2 where sb: "spill_buckets sim_http f bs ?buf w1 = ((ok, buf2), w2)" by (metis prod.exhaust)
      then have "write_current sim_http f b buf2 w2 = ((n, buf'), w')"
        using call None \<open>length b + _ > _\<close> want bs sim_spill [OF sb] by (simp add: sp rv Let_def)
      then show ?thesis by (rule sim_write_current)
    next
      case False
      then have "write_current sim_http f b ?buf w1 = ((n, buf'), w')"
        using call None \<open>length b + _ > _\<close> by (simp add: sp rv Let_def)
      then show ?thesis by (rule sim_write_current)
    qed
  next
    case False
    then show ?thesis using assms None by (auto simp: mfs_buffer_get_write_callback_def split: option.splits)
  qed
qed

lemma sim_whole_pieces: "whole_pieces_law sim_http"
proof -
  have "get_run sim_http conn buf w ps res buf' w' \<Longrightarrow> \<forall>p \<in> set ps. snd p = length (fst p)" for conn buf w ps res buf' w'
    by (induction rule: get_run.induct) (auto dest: sim_callback)
  then show ?thesis unfolding whole_pieces_law_def by blast
qed

definition nothing_yet :: get_out where
  "nothing_yet = \<lparr>go_bytes = Some None, go_total_bytes = 0, go_file = None, go_brigade = None\<rparr>"

text \<open>The callback on a temporary buffer, and a whole transfer.\<close>

lemmas sim_get_run = perform_get.simps mfs_buffer_get_write_callback_def open_spill_file_def write_current_def
  init_write_buffer_def finish_get_def cleanup_temporary_def cleanup_file_def get_status_def rewind_written_def
  sim_get_eval sim_set_options overwrite_def Let_def

lemma sim_get_server:
  "fs_file_servers fs h = None \<Longrightarrow> mfs_get_file_server sim_apr sim_http fs h w =
    Some ((APR_SUCCESS, Some \<lparr>fsv_connections = sim_next w, fsv_url = h\<rparr>),
      fs\<lparr>fs_file_servers := (fs_file_servers fs)(h \<mapsto> \<lparr>fsv_connections = sim_next w, fsv_url = h\<rparr>)\<rparr>, w\<lparr>sim_next := Suc (sim_next w)\<rparr>)"
  "fs_file_servers fs h = Some s \<Longrightarrow> mfs_get_file_server sim_apr sim_http fs h w = Some ((APR_SUCCESS, Some s), fs, w)"
  by (simp_all add: mfs_get_file_server_def lookup_file_server_def add_file_server_def sim_apr_def sim_http_def sim_fresh_def Let_def)

theorem get_delivers_what_was_sent_witness:
  "\<exists>out' fs' w' conn w1 ps buf w2.
      mfs_file_server_get sim_apr sim_http sample_fs ''h'' ''p'' nothing_yet None
        (sim0\<lparr>sim_get_events := [Got_data ''abcdef'', Got_data ''ghijkl'']\<rparr>) = Some ((APR_SUCCESS, out'), fs', w')
    \<and> get_run sim_http conn (init_write_buffer fs' None nothing_yet) w1 ps CURLE_OK buf w2
    \<and> go_total_bytes out' = 12 \<and> sim_view w' 0 = Some (''abcdefghijkl'', 0)
    \<and> (let sent = concat (map fst ps) in
        go_total_bytes out' = length sent
      \<and> (case go_file nothing_yet of
           None \<Rightarrow>
             if length sent \<le> fs_max_buffer_size sample_fs then go_bytes out' = Some (Some sent) \<and> go_file out' = None
             else (\<exists>f old p. go_file out' = Some f \<and> sim_view w' f = Some (sent @ drop (length sent) old, p)
                    \<and> (None = (None :: string option) \<longrightarrow> old = []))
         | Some f \<Rightarrow> go_file out' = Some f
             \<and> (\<forall>old. sim_view w1 f = Some (old, 0) \<longrightarrow> (\<exists>p. sim_view w' f = Some (sent @ drop (length sent) old, p)))))"
proof -
  let ?w = "sim0\<lparr>sim_get_events := [Got_data ''abcdef'', Got_data ''ghijkl'']\<rparr>"
  obtain out' fs' w' where run: "mfs_file_server_get sim_apr sim_http sample_fs ''h'' ''p'' nothing_yet None ?w
      = Some ((APR_SUCCESS, out'), fs', w')" "go_total_bytes out' = 12" "sim_view w' 0 = Some (''abcdefghijkl'', 0)"
    by (simp add: mfs_file_server_get_def sim_get_server nothing_yet_def sample_fs_def sim0_def sim_get_run sim_view_def)
  show ?thesis
    using get_delivers_what_was_sent [OF sim_file_law sim_bucket_law sim_whole_pieces run(1)] run
    by (simp add: nothing_yet_def)
qed

section \<open>Retrying after a wrong length\<close>

text \<open>Fetching when the tracker names two paths.\<close>

definition two_replicas :: "string \<Rightarrow> string \<Rightarrow> sim" where
  "two_replicas a b = (tracker_says [paths_reply [''p'', ''q'']])
     \<lparr>sim_get_events := [Got_data a, Get_done CURLE_OK, Got_data b, Get_done CURLE_OK]\<rparr>"

lemma two_replicas_paths:
  obtains fs1 w1 where "mfs_get_paths sim_apr sim_http sample_fs ''d'' ''k'' True 9 (two_replicas a b) =
      Some ((APR_SUCCESS, Some [''p'', ''q''], Some 2), fs1, w1)"
    and "fs_file_servers fs1 = Map.empty" and "fs_max_buffer_size fs1 = fs_max_buffer_size sample_fs"
    and "sim_files w1 = []" and "sim_get_events w1 = [Got_data a, Get_done CURLE_OK, Got_data b, Get_done CURLE_OK]"
proof -
  let ?kvs = "paths_reply [''p'', ''q'']" and ?w = "two_replicas a b"
  let ?ps = "add_param ''key'' ''k'' (add_param ''noverify'' ''1'' (add_param ''domain'' ''d'' mfs_tracker_init_parameters))"
  have r: "reply_text ?kvs = ''paths=2&path1=p&path2=q''" by code_simp
  have reply: "proper_reply ?kvs"
    by (simp add: proper_reply_def ok_line_def r fid_char_def isdigit_def MFS_READ_BUFFER_SIZE_def)
  have ready: "sim_ready sample_fs ?w"
    by (rule sim_ready_world [OF sample_ready [of "[?kvs]"]]) (simp_all add: two_replicas_def)
  have "sim_replies ?w = (APR_SUCCESS, ok_line ?kvs) # []" by (simp add: two_replicas_def tracker_says_def)
  from sim_fs_request [OF ready this reply, of sim_http "''get_paths''" ?ps 9] obtain fs1 w1 where
    req: "fs_request sim_apr sim_http sample_fs ''get_paths'' ?ps 9 ?w =
      Some ((APR_SUCCESS, True, Map.empty ++ reply_table ?kvs), fs1, w1)"
    and fs1: "fs1 = sample_fs\<lparr>fs_trackers := fs_trackers fs1\<rparr>"
    and w1: "sim_rest w1 = (case sim_rest ?w of (cs, _, x) \<Rightarrow> (cs, [], x))"
    by (elim exE conjE) (rule that; assumption)
  have "paths_of_reply (Map.empty ++ reply_table ?kvs) = (APR_SUCCESS, Some [''p'', ''q''], Some 2)" by code_simp
  then have "mfs_get_paths sim_apr sim_http sample_fs ''d'' ''k'' True 9 ?w =
      Some ((APR_SUCCESS, Some [''p'', ''q''], Some 2), fs1, w1)"
    by (simp add: mfs_get_paths_def Let_def req)
  moreover have "fs_file_servers fs1 = Map.empty" "fs_max_buffer_size fs1 = fs_max_buffer_size sample_fs"
    by (subst fs1, simp add: sample_fs_def)+
  moreover have "sim_files w1 = []" "sim_get_events w1 = [Got_data a, Get_done CURLE_OK, Got_data b, Get_done CURLE_OK]"
    using w1 by (simp_all add: sim_rest_def two_replicas_def tracker_says_def sim0_def)
  ultimately show thesis by (rule that)
qed

text \<open> C22: A replica of the wrong length that did not fit into memory has become \<open>*file\<close> before its length
  is checked; the next replica is written over it without truncation, and the call reports success
  with the right count and a file that ends with the rest of the wrong replica. \<close>

theorem retry_keeps_wrong_tail:
  assumes "length a > fs_max_buffer_size sample_fs" and "length b \<noteq> length a" and "b \<noteq> []"
  shows "\<exists>out fs' w'. mfs_get_file_or_bytes sim_apr sim_http sample_fs ''d'' ''k'' 0 None None 9 None (int (length b)) (two_replicas a b)
      = Some ((APR_SUCCESS, out), fs', w')
    \<and> go_total_bytes out = length b \<and> go_bytes out = Some None \<and> go_file out = Some 0
    \<and> sim_view w' 0 = Some (b @ drop (length b) a, 0)"
proof -
  let ?w = "two_replicas a b"
  obtain fs1 w1 where paths: "mfs_get_paths sim_apr sim_http sample_fs ''d'' ''k'' True 9 ?w =
      Some ((APR_SUCCESS, Some [''p'', ''q''], Some 2), fs1, w1)"
    and fs1: "fs_file_servers fs1 = Map.empty" "fs_max_buffer_size fs1 = fs_max_buffer_size sample_fs"
    and w1: "sim_files w1 = []" "sim_get_events w1 = [Got_data a, Get_done CURLE_OK, Got_data b, Get_done CURLE_OK]"
    by (rule two_replicas_paths)
  have "a \<noteq> []" using assms(1) by auto
  then show ?thesis
    using assms
    by (simp add: mfs_get_file_or_bytes_def mfs_file_system_get_def paths mfs_file_server_get_def sim_get_server
        fs1 w1 sim_get_run sim_view_def)
qed

theorem retry_keeps_wrong_tail_witness:
  "\<exists>out fs' w'. mfs_get_file_or_bytes sim_apr sim_http sample_fs ''d'' ''k'' 0 None None 9 None (int (length ''new''))
        (two_replicas ''abcdefghijkl'' ''new'') = Some ((APR_SUCCESS, out), fs', w')
    \<and> go_total_bytes out = length ''new'' \<and> go_bytes out = Some None \<and> go_file out = Some 0
    \<and> sim_view w' 0 = Some (''new'' @ drop (length ''new'') ''abcdefghijkl'', 0)"
  by (rule retry_keeps_wrong_tail) (simp_all add: sample_fs_def)

section \<open>The functions that pass no place for the bytes\<close>

text \<open> C23: \<open>mfs_get_file\<close> and \<open>mfs_get_brigade\<close> never succeed: as soon as the tracker names a path
  they write through the NULL pointer they passed as \<open>bytes\<close>, and otherwise they return the status
  of the failed look-up. \<close>

theorem get_file_and_brigade_never_succeed:
  assumes "mfs_get_paths E F fs domain key True pool w = Some ((st, ps, n), fs1, w1)"
  shows "if st = APR_SUCCESS
    then mfs_get_file E F fs domain key tb file pool required w = None
      \<and> mfs_get_brigade E F fs domain key tb brigade pool required w = None
    else map_option (\<lambda>((st, _), r). (st, r)) (mfs_get_file E F fs domain key tb file pool required w) = Some (st, fs1, w1)
      \<and> map_option (\<lambda>((st, _), r). (st, r)) (mfs_get_brigade E F fs domain key tb brigade pool required w) = Some (st, fs1, w1)"
proof (cases "st = APR_SUCCESS")
  case True
  obtain h where "paths_of_reply h = (APR_SUCCESS, ps, n)"
    using assms True by (auto simp: mfs_get_paths_def Let_def split: bind_splits if_splits option.splits)
  then obtain p paths where "ps = Some (p # paths)" using paths_success by (metis length_greater_0_conv list.exhaust)
  with assms True show ?thesis
    by (simp add: mfs_get_file_def mfs_get_brigade_def mfs_file_system_get_def)
qed (simp add: mfs_get_file_def mfs_get_brigade_def mfs_file_system_get_def assms)

theorem get_file_and_brigade_never_succeed_witness:
  "mfs_get_file sim_apr sim_http sample_fs ''d'' ''k'' 0 None 9 (-1) (two_replicas ''a'' ''a'') = None
   \<and> mfs_get_brigade sim_apr sim_http sample_fs ''d'' ''k'' 0 [] 9 (-1) (two_replicas ''a'' ''a'') = None"
proof (rule two_replicas_paths)
  fix fs1 w1
  assume "mfs_get_paths sim_apr sim_http sample_fs ''d'' ''k'' True 9 (two_replicas ''a'' ''a'') =
      Some ((APR_SUCCESS, Some [''p'', ''q''], Some 2), fs1, w1)"
  from get_file_and_brigade_never_succeed [OF this] show ?thesis by simp
qed

end
