(* ===== verification/DownloadSafe.thy ===== *)
theory DownloadSafe
  imports UploadFacts DownloadFacts
begin

text \<open>
  Fetching into memory or a file returns: no NULL pointer is used on the way, whatever the file
  servers send and whichever calls fail, and the tracker connections stay sound.
\<close>

section \<open>The callback never fails to return\<close>

text \<open>A destination must have a slash after its first character.\<close>

definition dest_ok :: "string option \<Rightarrow> bool" where
  "dest_ok dest \<longleftrightarrow> (case dest of None \<Rightarrow> True | Some path \<Rightarrow> CHR ''/'' \<in> set (drop 1 path))"

lemma find_last_slash_found:
  "0 < j \<Longrightarrow> j \<le> n \<Longrightarrow> j < length path \<Longrightarrow> path ! j = CHR ''/'' \<Longrightarrow> \<exists>i. find_last_slash path n = Some i"
proof (induction n)
  case (Suc n)
  then show ?case by (cases "j = Suc n") auto
qed simp

lemma dest_slash:
  assumes "dest_ok (Some path)"
  shows "\<exists>i. find_last_slash path (length path) = Some i"
proof -
  obtain k where "k < length (drop 1 path)" "drop 1 path ! k = CHR ''/''"
    using assms by (auto simp: dest_ok_def in_set_conv_nth)
  then show ?thesis by (intro find_last_slash_found [of "Suc k"]) auto
qed

text \<open>The file operations of the callback leave a view of the world alone.\<close>

definition file_frame :: "'w http \<Rightarrow> ('w \<Rightarrow> 'v) \<Rightarrow> bool" where
  "file_frame F live \<longleftrightarrow>
     (\<forall>t w. live (snd (apr_file_mktemp F t w)) = live w)
   \<and> (\<forall>n w. live (snd (apr_file_open F n w)) = live w)
   \<and> (\<forall>d w. live (snd (apr_dir_make_recursive F d w)) = live w)
   \<and> (\<forall>b w. live (snd (apr_bucket_read F b w)) = live w)
   \<and> (\<forall>f s w. live (snd (apr_file_write_full F f s w)) = live w)"

lemma file_frames:
  assumes "file_frame F live"
  shows "apr_file_mktemp F t w = (x, w1) \<Longrightarrow> live w1 = live w"
    and "apr_file_open F p w = (x, w1) \<Longrightarrow> live w1 = live w"
    and "apr_dir_make_recursive F d w = (st, w1) \<Longrightarrow> live w1 = live w"
    and "apr_bucket_read F b w = (y, w1) \<Longrightarrow> live w1 = live w"
    and "apr_file_write_full F f s w = (z, w1) \<Longrightarrow> live w1 = live w"
  using assms by (simp_all add: file_frame_def) (metis snd_conv)+

lemma http_file_frame: "http_law F live \<Longrightarrow> file_frame F live"
  by (simp add: http_law_def file_frame_def)

lemma open_spill_total:
  assumes "dest_ok dest"
  shows "\<exists>rv f w'. open_spill_file F dest w = Some ((rv, f), w')"
proof (cases dest)
  case None
  then show ?thesis by (cases "apr_file_mktemp F ''mogile_fs_XXXXXX'' w") (auto simp: open_spill_file_def)
next
  case (Some path)
  obtain i where "find_last_slash path (length path) = Some i" using dest_slash assms Some by blast
  moreover obtain st w1 where "apr_dir_make_recursive F (take i path) w = (st, w1)" by force
  moreover obtain rv f w2 where "apr_file_open F path w1 = ((rv, f), w2)" by (metis prod.exhaust)
  ultimately show ?thesis using Some by (simp add: open_spill_file_def)
qed

lemma open_spill_live:
  assumes "file_frame F live" and "open_spill_file F dest w = Some ((rv, f), w')"
  shows "live w' = live w"
  using assms(2) file_frames(1-3) [OF assms(1)]
  by (auto simp: open_spill_file_def split: option.splits prod.splits)

lemma spill_live:
  assumes "file_frame F live"
  shows "spill_buckets F f bs buf w = ((ok, buf'), w') \<Longrightarrow> live w' = live w \<and> (\<exists>k. buf' = buf\<lparr>wb_file_size := k\<rparr>)"
proof (induction bs arbitrary: buf w)
  case Nil
  then show ?case by (auto intro: exI [of _ "wb_file_size buf"])
next
  case (Cons b bs)
  obtain rv s w1 where rd: "apr_bucket_read F b w = ((rv, s), w1)" by (metis prod.exhaust)
  obtain rv2 n w2 where wr: "apr_file_write_full F f s w1 = ((rv2, n), w2)" by (metis prod.exhaust)
  note frames = file_frames(4) [OF assms rd] file_frames(5) [OF assms wr]
  have same: "\<exists>k. buf = buf\<lparr>wb_file_size := k\<rparr>" by (rule exI [of _ "wb_file_size buf"]) simp
  show ?case
  proof (cases "rv = APR_SUCCESS \<and> rv2 = APR_SUCCESS")
    case True
    then have "spill_buckets F f bs (buf\<lparr>wb_file_size := wb_file_size buf + length s\<rparr>) w2 = ((ok, buf'), w')"
      using Cons.prems by (simp add: rd wr)
    from Cons.IH [OF this] frames show ?thesis by auto
  next
    case False
    then have "buf' = buf \<and> (w' = w1 \<or> w' = w2)" using Cons.prems by (auto simp: rd wr split: if_splits)
    with frames same show ?thesis by auto
  qed
qed

text \<open>The buffer has a place for the data.\<close>

definition buffer_ok :: "string option \<Rightarrow> mfs_write_buffer \<Rightarrow> bool" where
  "buffer_ok dest buf \<longleftrightarrow> (wb_file buf \<noteq> None \<or> wb_brigade buf \<noteq> None) \<and> wb_destination_file_path buf = dest"

lemma write_current_live:
  assumes "file_frame F live" and "write_current F f data buf w = ((n, buf'), w')"
  shows "live w' = live w" and "buffer_ok dest buf \<Longrightarrow> buffer_ok dest buf'"
proof -
  obtain rv k w1 where wr: "apr_file_write_full F f data w = ((rv, k), w1)" by (metis prod.exhaust)
  show "live w' = live w" "buffer_ok dest buf \<Longrightarrow> buffer_ok dest buf'"
    using assms(2) file_frames(5) [OF assms(1) wr] by (auto simp: write_current_def wr buffer_ok_def split: if_splits)
qed

lemma write_current_total: "\<exists>n buf' w'. write_current F f data buf w = ((n, buf'), w')"
  by (metis prod.exhaust)

text \<open>
  A call with a place for the data and a destination with a directory returns, and whatever call
  returns keeps the view.
\<close>

lemma callback_total:
  assumes "dest_ok dest" and "buffer_ok dest buf"
  shows "\<exists>n buf' w'. mfs_buffer_get_write_callback F b buf w = Some ((n, buf'), w')"
proof (cases "wb_file buf")
  case (Some f)
  then show ?thesis
    by (cases "apr_file_write_full F f b w") (auto simp: mfs_buffer_get_write_callback_def)
next
  case None
  then obtain bs where bs: "wb_brigade buf = Some bs" using assms(2) by (auto simp: buffer_ok_def)
  obtain rv f w1 where sp: "open_spill_file F (wb_destination_file_path buf) w = Some ((rv, f), w1)"
    using open_spill_total [OF assms(1), of F w] assms(2) by (auto simp: buffer_ok_def)
  obtain ok buf2 w2 where sb: "spill_buckets F f bs (buf\<lparr>wb_file := Some f\<rparr>) w1 = ((ok, buf2), w2)" by (metis prod.exhaust)
  show ?thesis
    by (cases "length b + wb_current_size buf > fs_max_buffer_size (wb_file_system buf)"; cases "rv = APR_SUCCESS";
        cases "wb_dont_want_brigade buf"; cases ok)
      (simp_all add: mfs_buffer_get_write_callback_def None bs sp sb write_current_total)
qed

lemma callback_frame:
  assumes "file_frame F live" and "mfs_buffer_get_write_callback F b buf w = Some ((n, buf'), w')"
  shows "live w' = live w" and "buffer_ok dest buf \<Longrightarrow> buffer_ok dest buf'"
proof -
  have "live w' = live w \<and> (buffer_ok dest buf \<longrightarrow> buffer_ok dest buf')"
  proof (cases "wb_file buf")
    case (Some f)
    obtain rv k w1 where wr: "apr_file_write_full F f b w = ((rv, k), w1)" by (metis prod.exhaust)
    with Some assms(2) file_frames(5) [OF assms(1) wr] show ?thesis
      by (auto simp: mfs_buffer_get_write_callback_def buffer_ok_def)
  next
    case None
    show ?thesis
    proof (cases "length b + wb_current_size buf > fs_max_buffer_size (wb_file_system buf)")
      case False
      then show ?thesis using None assms(2)
        by (auto simp: mfs_buffer_get_write_callback_def buffer_ok_def split: option.splits)
    next
      case True
      obtain rv f w1 where sp: "open_spill_file F (wb_destination_file_path buf) w = Some ((rv, f), w1)"
        using assms(2) None True by (auto simp: mfs_buffer_get_write_callback_def split: bind_splits)
      note w1 = open_spill_live [OF assms(1) sp]
      let ?buf = "buf\<lparr>wb_file := Some f\<rparr>"
      have ok: "buffer_ok dest ?buf" if "buffer_ok dest buf" using that by (simp add: buffer_ok_def)
      note call = assms(2) [unfolded mfs_buffer_get_write_callback_def]
      consider (failed) "buf' = buf" "w' = w1" | (plain) "write_current F f b ?buf w1 = ((n, buf'), w')"
        | (spilled) bs ok2 buf2 w2 where "spill_buckets F f bs ?buf w1 = ((ok2, buf2), w2)"
            "write_current F f b buf2 w2 = ((n, buf'), w') \<or> buf' = buf2 \<and> w' = w2"
        using call None True
        by (cases "rv = APR_SUCCESS"; cases "wb_dont_want_brigade buf")
          (auto simp: sp Let_def split: option.splits prod.splits if_splits)
      then show ?thesis
      proof cases
        case plain
        from write_current_live [OF assms(1) this] w1 ok show ?thesis by simp
      next
        case spilled
        from spill_live [OF assms(1) spilled(1)] obtain k where sl: "live w2 = live w1" "buf2 = ?buf\<lparr>wb_file_size := k\<rparr>" by blast
        have ok2: "buffer_ok dest buf2" if "buffer_ok dest buf" using that sl(2) by (simp add: buffer_ok_def)
        from spilled(2) show ?thesis
        proof
          assume "write_current F f b buf2 w2 = ((n, buf'), w')"
          from write_current_live [OF assms(1) this] sl w1 ok2 show ?thesis by simp
        qed (use sl w1 ok2 in simp)
      qed (use w1 in simp)
    qed
  qed
  then show "live w' = live w" "buffer_ok dest buf \<Longrightarrow> buffer_ok dest buf'" by simp_all
qed

section \<open>Transfers that end\<close>

text \<open>
  curl comes to an end on this connection, whatever the callback does with the data it is given.
\<close>

inductive gets_end :: "'w http \<Rightarrow> handle \<Rightarrow> 'w \<Rightarrow> bool" for F :: "'w http" and conn :: handle where
  ended: "curl_get_event F conn w = (Get_done res, w') \<Longrightarrow> gets_end F conn w"
| more: "curl_get_event F conn w = (Got_data b, w1) \<Longrightarrow>
    (\<And>buf n buf' w2. mfs_buffer_get_write_callback F b buf w1 = Some ((n, buf'), w2) \<Longrightarrow>
      gets_end F conn (curl_get_reply F conn n w2)) \<Longrightarrow>
    gets_end F conn w"

definition downloads_end :: "'w http \<Rightarrow> bool" where
  "downloads_end F \<longleftrightarrow> (\<forall>conn w. gets_end F conn w)"

lemma perform_get_total:
  assumes "http_law F live" and "dest_ok dest"
  shows "gets_end F conn w \<Longrightarrow> buffer_ok dest buf \<Longrightarrow>
    \<exists>res buf' w'. perform_get F conn buf w = Some ((res, buf'), w') \<and> buffer_ok dest buf' \<and> live w' = live w"
proof (induction arbitrary: buf rule: gets_end.induct)
  case (ended w res w')
  then show ?case
    using http_frames(4) [OF assms(1) ended(1)] by (subst perform_get.simps) simp
next
  case (more w b w1)
  obtain n buf1 w2 where cb: "mfs_buffer_get_write_callback F b buf w1 = Some ((n, buf1), w2)"
    using callback_total [OF assms(2) more.prems, of F b w1] by blast
  note frame = callback_frame [OF http_file_frame [OF assms(1)] cb]
  have ok: "buffer_ok dest buf1" "live w2 = live w1" using frame(2) [OF more.prems] frame(1) .
  from more.IH [OF cb ok(1)] show ?case
    using more.hyps(1) cb ok(2) http_frames(4) [OF assms(1) more.hyps(1)] http_frames(5) [OF assms(1)]
    by (subst perform_get.simps) simp
qed

lemma finish_get_total:
  assumes "http_law F live" and "buffer_ok dest buf" and "go_bytes out \<noteq> None"
  shows "\<exists>st out' w'. finish_get F buf rv out w = Some ((st, out'), w') \<and> go_bytes out' \<noteq> None \<and> live w' = live w"
proof -
  have rewind: "live (rewind_written F f buf w) = live w" for f
  proof -
    obtain st w1 where sk: "apr_file_seek_start F f w = (st, w1)" by force
    from http_frames(10) [OF assms(1) sk] show ?thesis by (simp add: rewind_written_def sk)
  qed
  show ?thesis
  proof (cases "wb_file buf")
    case (Some f)
    then show ?thesis
      using assms(3) rewind
      by (auto simp: finish_get_def cleanup_file_def cleanup_brigade_def cleanup_temporary_def Let_def split: option.splits)
  next
    case None
    then obtain bs where bs: "wb_brigade buf = Some bs" using assms(2) by (auto simp: buffer_ok_def)
    obtain st s w1 where fl: "apr_brigade_pflatten F bs w = ((st, s), w1)" by (metis prod.exhaust)
    show ?thesis
      using assms(3) rewind None http_frames(18) [OF assms(1) fl]
      by (auto simp: finish_get_def cleanup_file_def cleanup_brigade_def cleanup_temporary_def bs fl Let_def split: option.splits)
  qed
qed

lemma init_buffer_ok: "buffer_ok dest (init_write_buffer fs dest out)"
  by (auto simp: buffer_ok_def init_write_buffer_def Let_def split: option.splits)

lemma get_status_live: "http_law F live \<Longrightarrow> get_status F r conn res w = (st, w') \<Longrightarrow> live w' = live w"
  using http_frames(8,9) [of F live]
  by (auto simp: get_status_def split: prod.splits if_splits)

lemma file_server_get_total:
  assumes "pool_law E live" and "http_law F live" and "locks_work E" and "downloads_end F" and "dest_ok dest"
    and "go_bytes out \<noteq> None"
  shows "\<exists>st out' fs' w'. mfs_file_server_get E F fs h uri out dest w = Some ((st, out'), fs', w')
    \<and> go_bytes out' \<noteq> None \<and> live w' = live w \<and> only_servers fs fs'"
proof -
  obtain rv so fs1 w1 where get: "mfs_get_file_server E F fs h w = Some ((rv, so), fs1, w1)" and so: "rv = APR_SUCCESS \<longrightarrow> so \<noteq> None"
    using get_file_server_total [OF assms(3)] by metis
  note frame = get_file_server_frame [OF assms(1,2) get]
  show ?thesis
  proof (cases "rv = APR_SUCCESS")
    case True
    with so obtain s where s: "so = Some s" by blast
    obtain rv2 conn w2 where acq: "apr_reslist_acquire F (fsv_connections s) w1 = ((rv2, conn), w2)" by (metis prod.exhaust)
    note w2 = http_frames(7) [OF assms(2) acq]
    show ?thesis
    proof (cases "rv2 = APR_SUCCESS")
      case rv2: True
      let ?w = "set_options F conn (get_options fs1 uri) w2"
      have "gets_end F conn ?w" using assms(4) by (simp add: downloads_end_def)
      from perform_get_total [OF assms(2,5) this init_buffer_ok [of dest fs1 out]] obtain res buf w3 where
        run: "perform_get F conn (init_write_buffer fs1 dest out) ?w = Some ((res, buf), w3)"
        and ok: "buffer_ok dest buf" "live w3 = live ?w" by blast
      obtain st w4 where status: "get_status F (fsv_connections s) conn res w3 = (st, w4)" by force
      obtain st5 out5 w5 where "finish_get F buf st out w4 = Some ((st5, out5), w5)" "go_bytes out5 \<noteq> None" "live w5 = live w4"
        using finish_get_total [OF assms(2) ok(1) assms(6)] by blast
      then show ?thesis
        using frame w2 ok(2) set_options_live [OF assms(2)] get_status_live [OF assms(2) status]
        by (auto simp: mfs_file_server_get_def get True s acq rv2 run status)
    qed (use frame w2 assms(6) in \<open>auto simp: mfs_file_server_get_def get True s acq\<close>)
  qed (use frame assms(6) in \<open>auto simp: mfs_file_server_get_def get\<close>)
qed

section \<open>The loop over the paths\<close>

lemma get_loop_total:
  assumes "pool_law E live" and "http_law F live" and "locks_work E" and "downloads_end F" and "dest_ok dest"
  shows "go_bytes out \<noteq> None \<Longrightarrow> fs_ready E live X fs w \<Longrightarrow> rv \<noteq> APR_SUCCESS \<or> paths \<noteq> [] \<Longrightarrow>
    \<exists>st out' fs' w'. get_loop E F dest required paths rv out fs w = Some ((st, out'), fs', w')
      \<and> fs_ready E live X fs' w'
      \<and> (st = APR_SUCCESS \<and> required \<ge> 0 \<longrightarrow> int (go_total_bytes out') = required)"
proof (induction paths arbitrary: rv out fs w)
  case Nil
  then show ?case by simp
next
  case (Cons path paths)
  obtain bytes where bytes: "go_bytes out = Some bytes" using Cons.prems(1) by blast
  let ?out = "out\<lparr>go_bytes := Some None\<rparr>"
  obtain rv1 uri where parse: "apr_uri_parse F path = (rv1, uri)" by force
  show ?case
  proof (cases "rv1 = APR_SUCCESS \<and> u_hostinfo uri \<noteq> None \<and> u_scheme uri \<noteq> None \<and> u_path uri \<noteq> None")
    case False
    then have "\<exists>rv2. rv2 \<noteq> APR_SUCCESS \<and>
        get_loop E F dest required (path # paths) rv out fs w = get_loop E F dest required paths rv2 ?out fs w"
      by (auto simp: bytes parse Let_def split: option.splits)
    then obtain rv2 where "rv2 \<noteq> APR_SUCCESS"
      and step: "get_loop E F dest required (path # paths) rv out fs w = get_loop E F dest required paths rv2 ?out fs w" by blast
    with Cons.IH [of ?out fs w rv2] Cons.prems(2) show ?thesis by simp
  next
    case True
    then obtain host scheme upath where u: "u_hostinfo uri = Some host" "u_scheme uri = Some scheme" "u_path uri = Some upath"
      by blast
    have "go_bytes ?out \<noteq> None" by simp
    from file_server_get_total [OF assms this, of fs host path w] obtain st out1 fs1 w1 where
      get: "mfs_file_server_get E F fs host path ?out dest w = Some ((st, out1), fs1, w1)"
      and out1: "go_bytes out1 \<noteq> None" and frame: "live w1 = live w" "only_servers fs fs1" by blast
    have ready1: "fs_ready E live X fs1 w1" by (rule only_servers_ready [OF Cons.prems(2) frame])
    note step = bytes parse u get True
    show ?thesis
    proof (cases "st = APR_SUCCESS \<and> \<not> (required \<ge> 0 \<and> int (go_total_bytes out1) \<noteq> required)")
      case True
      then show ?thesis using ready1 by (auto simp: step Let_def)
    next
      case False
      then have "\<exists>rv2. rv2 \<noteq> APR_SUCCESS \<and>
          get_loop E F dest required (path # paths) rv out fs w = get_loop E F dest required paths rv2 out1 fs1 w1"
        by (auto simp: step Let_def)
      then obtain rv2 where "rv2 \<noteq> APR_SUCCESS"
        and "get_loop E F dest required (path # paths) rv out fs w = get_loop E F dest required paths rv2 out1 fs1 w1" by blast
      with Cons.IH [OF out1 ready1, of rv2] show ?thesis by simp
    qed
  qed
qed

lemma get_paths_total:
  assumes "fs_ready E live X fs w"
  shows "\<exists>st ps n fs' w'. mfs_get_paths E F fs domain key True pool w = Some ((st, ps, n), fs', w') \<and> fs_ready E live X fs' w'
    \<and> (st = APR_SUCCESS \<longrightarrow> (\<exists>paths. ps = Some paths \<and> paths \<noteq> []))"
proof -
  obtain st fs' w' where run: "run_call E F pool (Get_paths domain key True) fs w = Some (st, fs', w')"
    and ready: "fs_ready E live X fs' w'" using run_call_total [OF assms] by blast
  then obtain ps n where paths: "mfs_get_paths E F fs domain key True pool w = Some ((st, ps, n), fs', w')" by auto
  have "\<exists>paths. ps = Some paths \<and> paths \<noteq> []" if st: "st = APR_SUCCESS"
  proof -
    obtain h where "paths_of_reply h = (APR_SUCCESS, ps, n)"
      using paths st by (auto simp: mfs_get_paths_def Let_def split: bind_splits if_splits option.splits)
    then show ?thesis using paths_success by (metis length_greater_0_conv)
  qed
  with paths ready show ?thesis by blast
qed

text \<open> C11: Fetching into memory or a file returns, whatever trackers and file servers send and whichever
  calls of curl, of the file functions and of the network fail, provided each exchange and each
  transfer ends, the file system's lock can be taken, and a destination, if there is one, has a slash
  after its first character: no NULL pointer is followed. Afterwards every tracker connection is idle or closed, and a
  success has the required length. \<close>

theorem get_file_or_bytes_returns_sound:
  assumes "fs_sound E live X fs w" and "exchanges_end E (fs_tracker_timeout fs)"
    and "pool_law E live" and "http_law F live" and "locks_work E" and "downloads_end F" and "dest_ok dest"
  shows "\<exists>st out fs' w'. mfs_get_file_or_bytes E F fs domain key tb bytes file pool dest required w = Some ((st, out), fs', w')
    \<and> fs_sound E live X fs' w'
    \<and> (st = APR_SUCCESS \<and> required \<ge> 0 \<longrightarrow> int (go_total_bytes out) = required)"
proof -
  have ready: "fs_ready E live X fs w" using assms(1,2) by (simp add: fs_ready_def)
  obtain st ps n fs1 w1 where paths: "mfs_get_paths E F fs domain key True pool w = Some ((st, ps, n), fs1, w1)"
    and ready1: "fs_ready E live X fs1 w1" and ps: "st = APR_SUCCESS \<longrightarrow> (\<exists>paths. ps = Some paths \<and> paths \<noteq> [])"
    using get_paths_total [OF ready] by blast
  have sound1: "fs_sound E live X fs1 w1" using ready1 by (simp add: fs_ready_def)
  show ?thesis
  proof (cases "st = APR_SUCCESS")
    case True
    with ps obtain list where list: "ps = Some list" "list \<noteq> []" by blast
    let ?out = "\<lparr>go_bytes = Some bytes, go_total_bytes = tb, go_file = file, go_brigade = None\<rparr>"
    obtain st2 out2 fs2 w2 where "get_loop E F dest required list st ?out fs1 w1 = Some ((st2, out2), fs2, w2)"
      and "fs_ready E live X fs2 w2" and "st2 = APR_SUCCESS \<and> required \<ge> 0 \<longrightarrow> int (go_total_bytes out2) = required"
      using get_loop_total [OF assms(3-7), where required = required and out = ?out and fs = fs1 and w = w1 and rv = st and paths = list, OF _ ready1] list(2) by auto
    then show ?thesis
      by (auto simp: mfs_get_file_or_bytes_def mfs_file_system_get_def paths list(1) True fs_ready_def)
  qed (use sound1 in \<open>auto simp: mfs_get_file_or_bytes_def mfs_file_system_get_def paths\<close>)
qed

lemma sim_file_frame: "file_frame sim_http sim_get_events"
  by (simp add: file_frame_def sim_http_def sim_new_file_def)

lemma sim_callback_events:
  assumes "mfs_buffer_get_write_callback sim_http b buf w = Some ((n, buf'), w')"
  shows "sim_get_events w' = sim_get_events w"
  by (rule callback_frame(1) [OF sim_file_frame assms])

lemma sim_downloads_end: "downloads_end sim_http"
proof -
  have "gets_end sim_http conn w" for conn w
  proof (induction "sim_get_events w" arbitrary: w)
    case Nil
    then show ?case using gets_end.ended [OF sim_get_eval(2)] by simp
  next
    case (Cons e es)
    note ev = sim_get_eval(1) [OF Cons.hyps(2) [symmetric], of conn]
    show ?case
    proof (cases e)
      case (Got_data b)
      show ?thesis
      proof (rule gets_end.more [OF ev [unfolded Got_data]])
        fix buf n buf' w2
        assume "mfs_buffer_get_write_callback sim_http b buf (w\<lparr>sim_get_events := es\<rparr>) = Some ((n, buf'), w2)"
        from sim_callback_events [OF this] Cons.hyps(1) [of w2] show "gets_end sim_http conn (curl_get_reply sim_http conn n w2)"
          by (simp add: sim_get_eval)
      qed
    next
      case (Get_done res)
      then show ?thesis using gets_end.ended [OF ev [unfolded Get_done]] by simp
    qed
  qed
  then show ?thesis by (simp add: downloads_end_def)
qed

theorem get_file_or_bytes_returns_sound_witness:
  "\<exists>st out fs' w'. mfs_get_file_or_bytes sim_apr sim_http sample_fs ''d'' ''k'' 0 None None 9 (Some ''/tmp/x'') 3 sim0
      = Some ((st, out), fs', w')
    \<and> fs_sound sim_apr sim_live {} fs' w'
    \<and> (st = APR_SUCCESS \<and> (3 :: int) \<ge> 0 \<longrightarrow> int (go_total_bytes out) = 3)"
  by (rule get_file_or_bytes_returns_sound [OF sample_fs_sound sim_exchanges_end sim_pool_law sim_http_law sim_locks_work
      sim_downloads_end]) (simp_all add: sim0_def dest_ok_def)

end
