(* ===== verification/Logger.thy ===== *)
theory Logger
  imports Http
begin

text \<open>
  The logger, \<open>src/src/logger.c\<close>: its global variables as a record, what goes out as a list of
  values, in order. Messages are given as the text \<open>vsnprintf\<close> makes of the format and its
  arguments, the time as the text of \<open>strftime\<close> and an error as the text of \<open>apr_strerror\<close>, and
  the tables of names of \<open>syslog.h\<close> are arguments.
\<close>

section \<open>State and output\<close>

definition LOG_ERR :: int where "LOG_ERR = 3"
definition LOG_WARNING :: int where "LOG_WARNING = 4"
definition LOG_INFO :: int where "LOG_INFO = 6"
definition LOG_USER :: int where "LOG_USER = 8"

definition LOG_MAKEPRI :: "int \<Rightarrow> int \<Rightarrow> int" where
  "LOG_MAKEPRI fac pri = Bit_Operations.or fac pri"

record logger =
  mfs_logging_level :: int
  mfs_logging_facility :: int
  mfs_log_file_h :: "handle option"
  mfs_log_file_pool :: "handle option"

definition initial_logger :: logger where
  "initial_logger = \<lparr>mfs_logging_level = LOG_WARNING, mfs_logging_facility = LOG_USER,
     mfs_log_file_h = None, mfs_log_file_pool = None\<rparr>"

datatype log_output = Openlog int | File_line handle string | Syslog int string

section \<open>Logging\<close>

definition will_log :: "logger \<Rightarrow> int \<Rightarrow> bool" where
  "will_log l level \<longleftrightarrow> level \<le> mfs_logging_level l"

text \<open>A line of the log; \<open>time\<close> is what \<open>cur_time_string\<close> gives.\<close>

definition log_line :: "string \<Rightarrow> logger \<Rightarrow> string \<Rightarrow> log_output" where
  "log_line time l msg =
     (case mfs_log_file_h l of
        Some ftmp \<Rightarrow> File_line ftmp (''[mfs] '' @ time @ '': '' @ msg @ [LF])
      | None \<Rightarrow> Syslog (LOG_MAKEPRI (mfs_logging_facility l) LOG_INFO) msg)"

text \<open>\<open>vsnprintf(tmp, 254, ...)\<close> keeps 253 characters.\<close>

definition mfs_log :: "string \<Rightarrow> logger \<Rightarrow> int \<Rightarrow> string \<Rightarrow> log_output list" where
  "mfs_log time l level msg =
     (if level \<le> mfs_logging_level l then [log_line time l (take 253 msg)] else [])"

definition mfs_log_apr :: "string \<Rightarrow> logger \<Rightarrow> int \<Rightarrow> string \<Rightarrow> string \<Rightarrow> log_output list" where
  "mfs_log_apr time l level err msg =
     (if level \<le> mfs_logging_level l then [log_line time l (take 253 msg @ take 254 err)] else [])"

section \<open>Setting it up\<close>

definition mfs_logging_init :: "int \<Rightarrow> int \<Rightarrow> logger \<Rightarrow> log_output list \<times> logger" where
  "mfs_logging_init level facility l =
     ([Openlog facility], l\<lparr>mfs_logging_level := level, mfs_logging_facility := facility\<rparr>)"

definition mfs_logging_set_file_ptr :: "handle option \<Rightarrow> logger \<Rightarrow> logger" where
  "mfs_logging_set_file_ptr file l = l\<lparr>mfs_log_file_h := file\<rparr>"

text \<open>The search of a table: the first value under the name, \<open>-1\<close> for none.\<close>

fun find_code :: "string \<Rightarrow> (string \<times> int) list \<Rightarrow> int" where
  "find_code name [] = -1"
| "find_code name ((c_name, c_val) # table) = (if name = c_name then c_val else find_code name table)"

definition quoted :: "string \<Rightarrow> string" where
  "quoted s = CHR 0x27 # s @ [CHR 0x27]"

text \<open>\<open>err\<close> is the text of an error status. The results are the output and the new variables.\<close>

definition mfs_logging_init_ex ::
  "'w apr \<Rightarrow> 'w http \<Rightarrow> (string \<times> int) list \<Rightarrow> (string \<times> int) list \<Rightarrow> (apr_status \<Rightarrow> string) \<Rightarrow> string \<Rightarrow>
     bool \<Rightarrow> string \<Rightarrow> string \<Rightarrow> handle option \<Rightarrow> logger \<Rightarrow> 'w \<Rightarrow> (log_output list \<times> logger) \<times> 'w" where
  "mfs_logging_init_ex E F prioritynames facilitynames err time to_syslog level identifier file l w =
     (let log_level = find_code level prioritynames;
          (out1, log_level) = (if log_level = -1
             then (mfs_log time l LOG_ERR (''Unable to find syslog_level '' @ quoted level), LOG_WARNING)
             else ([], log_level))
      in if to_syslog then
           let log_facility = find_code identifier facilitynames;
               (out2, log_facility) = (if log_facility = -1
                  then (mfs_log time l LOG_ERR (''Unable to find syslog_facility '' @ quoted identifier), LOG_USER)
                  else ([], log_facility));
               (out3, l) = mfs_logging_init log_level log_facility l
           in ((out1 @ out2 @ out3, l), w)
         else
           let l = l\<lparr>mfs_logging_level := log_level\<rparr>
           in case apr_pool_create E w of ((rv, pool), w) \<Rightarrow>
                if rv \<noteq> APR_SUCCESS then ((out1 @ mfs_log time l LOG_ERR ''UNABLE TO CREATE APR POOL'', l), w)
                else let l = l\<lparr>mfs_log_file_pool := Some pool\<rparr>
                     in case file of
                          Some f \<Rightarrow> ((out1, l\<lparr>mfs_log_file_h := Some f\<rparr>), w)
                        | None \<Rightarrow>
                            (case apr_file_open F identifier w of ((rv, f), w) \<Rightarrow>
                               if rv \<noteq> APR_SUCCESS then
                                 ((out1 @ mfs_log_apr time l LOG_ERR (err rv) (''unable to open log file '' @ identifier @ '':''), l), w)
                               else ((out1, l\<lparr>mfs_log_file_h := Some f\<rparr>), w)))"

section \<open>What is logged\<close>

text \<open>A message goes out exactly if \<open>will_log\<close> says so, as one line.\<close>

lemma log_iff_will_log:
  "length (mfs_log time l level msg) = (if will_log l level then 1 else 0)"
  "length (mfs_log_apr time l level err msg) = (if will_log l level then 1 else 0)"
  by (simp_all add: mfs_log_def mfs_log_apr_def will_log_def)

text \<open>The level is the one asked for, or a warning's if there is none of that name.\<close>

lemma init_ex_level:
  "mfs_logging_level (snd (fst (mfs_logging_init_ex E F prios facs err time to_syslog level ident file l w))) =
    (if find_code level prios = -1 then LOG_WARNING else find_code level prios)"
  by (simp add: mfs_logging_init_ex_def mfs_logging_init_def Let_def split: prod.split option.split)

text \<open>
  Turning to syslog after a file was in use changes nothing: the file stays set, and every message
  still goes there.
\<close>

lemma syslog_keeps_file:
  assumes "mfs_log_file_h l = Some f" and "level \<le> mfs_logging_level l'"
    and "mfs_logging_init_ex E F prios facs err time True lname ident file l w = ((out, l'), w')"
  shows "mfs_log time l' level msg = [File_line f (''[mfs] '' @ time @ '': '' @ take 253 msg @ [LF])]"
proof -
  have "mfs_log_file_h l' = Some f"
    using assms(1,3) by (auto simp: mfs_logging_init_ex_def mfs_logging_init_def Let_def split: if_splits)
  with assms(2) show ?thesis by (simp add: mfs_log_def log_line_def)
qed

text \<open>Whatever the level of a message, syslog gets it with the priority of an information.\<close>

lemma syslog_priority:
  "mfs_log_file_h l = None \<Longrightarrow> will_log l level \<Longrightarrow>
   mfs_log time l level msg = [Syslog (LOG_MAKEPRI (mfs_logging_facility l) LOG_INFO) (take 253 msg)]"
  by (simp add: mfs_log_def log_line_def will_log_def)

end
