(* ===== verification/Spec2Isabelle.thy ===== *)
theory Spec2Isabelle
  imports UrlCodec Params Response Tracker Pool PoolInv PoolIter PoolConn Maintenance PoolSteps PoolLife
    Request Watch FileSystem FileCommands FileFacts Listing Upload UploadFacts Download DownloadFacts DownloadSafe Logger
begin

text \<open>
  The MogileFS client library, \<open>src/src\<close>. A program opens a pool of trackers, sends them commands,
  and puts and gets files over HTTP at the addresses the trackers name.

  \<^bold>\<open>The parts and their theories.\<close>

  \<^item> \<open>UrlCodec\<close>: \<open>from_hex\<close>, \<open>to_hex\<close>, \<open>mfs_tracker_url_encode\<close>, \<open>mfs_tracker_url_decode\<close> of
    \<open>tracker.c\<close>, byte by byte; that decoding undoes encoding and that an encoded text holds no
    delimiter.
  \<^item> \<open>Params\<close>: the parameter list and \<open>mfs_tracker_build_request\<close> of \<open>tracker.c\<close>, with its lengths as
    32-bit \<open>int\<close>s and the buffer a block of fixed size that is filled position by position, stores
    outside it kept apart; that the block is exactly filled and nothing is stored outside it (and for an
    empty list one byte is), and that no parameter can inject a second line.
  \<^item> \<open>Response\<close>: \<open>mfs_tracker_parse_response\<close> and its scanners; the three ways a parse ends and that a
    reply table is decoded as it was sent.
  \<^item> \<open>Tracker\<close>: \<open>mfs_tracker_connect\<close>, \<open>mfs_tracker_request\<close>, the receive loop of \<open>tracker.c\<close>; that a
    reply is understood however it is cut into chunks, and what a failure leaves.
  \<^item> \<open>Pool\<close>: the state and every operation of \<open>pool.c\<close> but the maintenance thread. \<open>PoolInv\<close> has the
    invariant of the arrays, \<open>PoolIter\<close> the snapshots and their iteration, \<open>PoolConn\<close> the ownership
    of connections (a multiset of handles, in the pool, in use, or closed), \<open>PoolLife\<close> registration
    and destruction, \<open>PoolSteps\<close> the critical sections as steps of any number of threads, with the
    invariant by rule induction over their interleavings.
  \<^item> \<open>Maintenance\<close>: the thread of \<open>pool.c\<close> that tests inactive trackers and expires connections.
  \<^item> \<open>Request\<close>: \<open>mfs_request_do\<close> of \<open>request.c\<close>; that it conserves connections, returns, reports success
    only for an answer, and what it does when no tracker can be reached.
  \<^item> \<open>Watch\<close>: \<open>watch.c\<close>; the line reader refines taking lines off the stream of the bytes its buffer
    counts as unread (after a reception one stale byte among them), and the reconnecting loops conserve
    connections.
  \<^item> \<open>FileSystem\<close>, \<open>FileCommands\<close>: \<open>file.c\<close>; the handle, the table of file servers with its look-up in
    two locked steps, and each tracker command with its parameters and the decoding of its reply.
    \<open>FileFacts\<close> shows that sessions of commands return and stay sound and that paths are those of the
    reply; \<open>Listing\<close> that listings are well typed and decoded as described.
  \<^item> \<open>Upload\<close>: \<open>file_upload.c\<close>; the callbacks, one transfer, the loop open, put, close. \<open>UploadFacts\<close>
    shows that the read callback hands out exactly the caller's bytes, that storing returns after at
    most \<open>max_retries\<close> attempts and conserves connections, and that success stands on an answered \<open>create_open\<close>, a completed
    transfer and an answered \<open>create_close\<close>.
  \<^item> \<open>Download\<close>: \<open>file_download.c\<close>; the callback that spills from memory to a file, one transfer with
    its three ways to hand the result over, the loop over the paths. \<open>DownloadFacts\<close> shows that what is
    handed over is what was sent, what a retry after a wrong length leaves in the file, and that
    \<open>mfs_get_file\<close> and \<open>mfs_get_brigade\<close> cannot succeed; \<open>DownloadSafe\<close> that
    \<open>mfs_get_file_or_bytes\<close> always returns, with the connections sound.
  \<^item> \<open>Logger\<close>: \<open>logger.c\<close>; which messages go out, cut to which length, and where to.

  \<open>MfsPrelude\<close> has the shared lemmas on strings, numbers and options; \<open>Apr\<close> and \<open>Http\<close> the interfaces
  to code that is not the library's; \<open>SimNet\<close> and \<open>SimRun\<close> a scripted network on which the witnesses
  run the code.

  \<^bold>\<open>How the code is read.\<close> A struct is a record with the same fields behind a prefix, an enum a
  datatype, an output parameter a component of the result, and an operation a function that takes
  and returns the state and an abstract world. A result \<open>None\<close> says that the call does not return:
  a NULL pointer is read or written (the mutex of a slot nobody registered is one, and so is the pool
  after a failed \<open>mfs_pool_init\<close>), the process exits, or a peer goes on for ever; so a theorem
  that a call returns says that it is \<open>Some\<close>. Loops that a peer can keep going are
  \<open>partial_function (option)\<close>, loops over lists and arrays are structural, and the retry loop of an
  upload counts its attempts down from \<open>max_retries\<close>; no other fuel is used. Positions, counts
  and times are kept at their width where it decides something: 64 bits in the decoding of
  listings, in the modification times and in the read callback, and the 24 bits of a float in the random start
  position, which is why a pool is bounded by \<open>2 ^ 24\<close> trackers. The lengths of a request are
  \<open>int\<close>s that wrap around, and the theorems on the request line are about lines of less than
  \<open>INT_MAX\<close> bytes. An \<open>atoi\<close> outside the range of an \<open>int\<close>
  is not defined by the C standard; the model takes the mathematical number.

  \<^bold>\<open>What is a parameter.\<close> The Apache Portable Runtime, libcurl and the C library's clock and random
  numbers are the fields of the records \<open>apr\<close> and \<open>http\<close>. What the theorems need of them are the
  predicates whose names end in \<open>_law\<close>, each a documented behaviour, all proved for the scripted network:
  how tokens are cut, that a reception is no longer than asked for, that a new memory pool is a fresh
  one, that a complete write writes everything. Of destroying a memory pool that does not exist the
  laws say nothing, as it is undefined; so no theorem that connections are conserved could be shown of
  code that closes one twice. \<open>curl_easy_perform\<close> is a sequence of events in each
  of which it calls one of the library's callbacks. That a peer ends an exchange or a transfer is a
  hypothesis of the theorems on termination (\<open>exchanges_end\<close>, \<open>transfers_end\<close>, \<open>downloads_end\<close>), since the code itself sets
  no bound on the number of bytes it reads.

  \<^bold>\<open>Interfaces.\<close> The components rest on each other through locales: \<open>text_codec\<close>, what the request line and
  the replies need of the encoding; \<open>activation\<close>, what moving trackers between the lists keeps;
  \<open>connection_provider\<close>, the contract of the pool with whoever takes connections from it; and
  \<open>tracker_service\<close>, the contract of a request with its clients, which \<open>FileFacts\<close> interprets on
  \<open>mfs_request_do\<close> through \<open>fs_ask\<close> and on which the commands and the uploads rest. Each is
  interpreted on the model's own definitions.

  \<^bold>\<open>Not modelled.\<close> The calls of the logger inside the other components, which decide nothing (but would
  read through the same pointers); the expansion of their formats; the test programs under \<open>src/tests\<close>. A data
  race on a flag that is read without a lock (\<open>pool_running\<close>, \<open>allow_watching\<close>) is modelled as a read of the
  value the world has at that moment, not as undefined behaviour. Threads interleave at the critical
  sections of the pool and of the table of file servers; a whole request or transfer runs on
  one thread, and the sharing of a curl handle inside the resource list is the list's. Memory pools are counted, the memory
  inside them is not. The progress callbacks of both transfers are modelled although the code that
  installs them is commented out.
\<close>

end
